(* ===== verification/Prelude.thy ===== *)
theory Prelude
  imports Main
    "HOL-Library.Word"
    "HOL-Library.Char_ord"
    "HOL-Library.List_Lexorder"
    "HOL-Library.Product_Lexorder"
begin

text \<open>
  Shared vocabulary of the development: the machine types the Go code uses, the
  collections of rewrite rules the component proofs draw on, and the model of the
  SQL fragment the store is written in. A table is the list of its rows, a unique
  key is a projection of the row, \<^verbatim>\<open>INSERT ... ON CONFLICT(key) DO UPDATE\<close> is
  \<open>tbl_upsert\<close>, a lookup by key is \<open>tbl_lookup\<close> and \<^verbatim>\<open>ORDER BY key LIMIT 1\<close> is
  \<open>first_by\<close>. The locale \<open>upsert_table\<close> states what the store relies on of an
  upsert; every table of the schema interprets it.
\<close>

section \<open>Machine types and result types\<close>

type_synonym byte = "8 word"
type_synonym u32 = "32 word"
type_synonym u64 = "64 word"

text \<open>A Go call that may fail: \<open>Inl\<close> is the non-nil error.\<close>

type_synonym 'a result = "string + 'a"

text \<open>\<^verbatim>\<open>x, err := m; if err != nil { return err }\<close> followed by the rest.\<close>

definition bindR :: "'e + 'a \<Rightarrow> ('a \<Rightarrow> 'e + 'b) \<Rightarrow> 'e + 'b" where
  "bindR m k = (case m of Inl e \<Rightarrow> Inl e | Inr x \<Rightarrow> k x)"

lemma bindR_simps [simp]: "bindR (Inl e) k = Inl e" "bindR (Inr x) k = k x"
  by (simp_all add: bindR_def)

lemma bindR_Inr_iff: "bindR m k = Inr y \<longleftrightarrow> (\<exists>x. m = Inr x \<and> k x = Inr y)"
  by (cases m) auto

text \<open>\<^verbatim>\<open>ok && P(x)\<close> on a value that may be absent.\<close>

definition filter_option :: "('a \<Rightarrow> bool) \<Rightarrow> 'a option \<Rightarrow> 'a option" where
  "filter_option P x = (case x of None \<Rightarrow> None | Some a \<Rightarrow> if P a then Some a else None)"

lemma filter_option_simps [simp]:
  "filter_option P None = None" "filter_option P (Some a) = (if P a then Some a else None)"
  by (simp_all add: filter_option_def)

text \<open>
  The SQL engine is outside the repository. Whether the \<open>i\<close>-th statement a store
  function executes fails, and with which error, is the parameter \<open>sqlfault\<close>; the
  functions of the store return that error exactly where the Go code does.
\<close>

type_synonym sqlfault = "nat \<Rightarrow> string option"

abbreviation no_fault :: sqlfault where
  "no_fault \<equiv> (\<lambda>_. None)"

text \<open>One statement: the engine's error, or the value or new state it produces.\<close>

definition exec :: "string option \<Rightarrow> 'a \<Rightarrow> 'a result" where
  "exec flt x = (case flt of Some e \<Rightarrow> Inl e | None \<Rightarrow> Inr x)"

lemma exec_simps [simp]: "exec None x = Inr x" "exec (Some e) x = Inl e"
  by (simp_all add: exec_def)

lemma exec_Inr_iff: "exec flt x = Inr y \<longleftrightarrow> flt = None \<and> y = x"
  by (cases flt) auto

text \<open>\<open>gw_simps\<close>: unfolding rules of the gateway's operations; \<open>tbl_simps\<close>: facts
  about tables.\<close>

named_theorems gw_simps
named_theorems tbl_simps

section \<open>Tables\<close>

definition tbl_lookup :: "('r \<Rightarrow> 'k) \<Rightarrow> 'k \<Rightarrow> 'r list \<Rightarrow> 'r option" where
  "tbl_lookup key k t = find (\<lambda>r. key r = k) t"

definition tbl_upsert :: "('r \<Rightarrow> 'k) \<Rightarrow> ('r \<Rightarrow> 'r \<Rightarrow> 'r) \<Rightarrow> 'r \<Rightarrow> 'r list \<Rightarrow> 'r list" where
  "tbl_upsert key upd new t =
     (if \<exists>r \<in> set t. key r = key new
      then map (\<lambda>r. if key r = key new then upd new r else r) t
      else t @ [new])"

definition first_by :: "('r \<Rightarrow> 'k::linorder) \<Rightarrow> 'r list \<Rightarrow> 'r option" where
  "first_by ord t = (case sort_key ord t of [] \<Rightarrow> None | r # _ \<Rightarrow> Some r)"

definition tbl_unique :: "('r \<Rightarrow> 'k) \<Rightarrow> 'r list \<Rightarrow> bool" where
  "tbl_unique key t \<longleftrightarrow> distinct (map key t)"

lemma first_by_None_iff [tbl_simps]: "first_by ord t = None \<longleftrightarrow> t = []"
proof -
  have "sort_key ord t = [] \<longleftrightarrow> t = []"
    by (metis length_0_conv length_sort)
  then show ?thesis
    by (auto simp: first_by_def split: list.splits)
qed

lemma first_by_SomeD:
  assumes "first_by ord t = Some r"
  shows "r \<in> set t" and "\<And>x. x \<in> set t \<Longrightarrow> ord r \<le> ord x"
proof -
  from assms obtain rs where rs: "sort_key ord t = r # rs"
    by (auto simp: first_by_def split: list.splits)
  have "set (r # rs) = set t"
    using rs by (metis set_sort)
  then show "r \<in> set t" by auto
  have "sorted (map ord (r # rs))"
    using rs by (metis sorted_sort_key)
  then show "ord r \<le> ord x" if "x \<in> set t" for x
    using that \<open>set (r # rs) = set t\<close> by auto
qed

lemma first_by_Some_ex: "t \<noteq> [] \<Longrightarrow> \<exists>r. first_by ord t = Some r"
  by (cases "first_by ord t") (auto simp: first_by_None_iff)

text \<open>Where the ordering key is injective on the rows, the first row is determined.\<close>

lemma first_by_eqI:
  assumes "r \<in> set t" and "\<And>x. x \<in> set t \<Longrightarrow> ord r \<le> ord x" and "inj_on ord (set t)"
  shows "first_by ord t = Some r"
proof -
  from assms(1) obtain r' where r': "first_by ord t = Some r'"
    using first_by_Some_ex [of t ord] by (auto simp: in_set_conv_decomp)
  then have mem: "r' \<in> set t" by (rule first_by_SomeD(1))
  have "ord r' \<le> ord r"
    using r' assms(1) by (rule first_by_SomeD(2))
  with assms(2) [OF mem] have "ord r = ord r'" by simp
  then have "r = r'"
    using assms(3,1) mem by (simp add: inj_on_eq_iff)
  with r' show ?thesis by simp
qed

lemma first_by_Nil [simp]: "first_by ord [] = None"
  by (simp add: first_by_def)

lemma first_by_singleton [simp]: "first_by ord [r] = Some r"
  by (simp add: first_by_def)

lemma tbl_lookup_None_iff [tbl_simps]:
  "tbl_lookup key k t = None \<longleftrightarrow> (\<forall>r \<in> set t. key r \<noteq> k)"
  by (auto simp: tbl_lookup_def find_None_iff)

lemma tbl_lookup_SomeD:
  "tbl_lookup key k t = Some r \<Longrightarrow> r \<in> set t \<and> key r = k"
  unfolding tbl_lookup_def by (induction t) (auto split: if_splits)

lemma tbl_lookup_unique:
  assumes "tbl_unique key t" and "r \<in> set t"
  shows "tbl_lookup key (key r) t = Some r"
proof -
  from assms(2) have "tbl_lookup key (key r) t \<noteq> None"
    by (auto simp: tbl_simps)
  then obtain r' where r': "tbl_lookup key (key r) t = Some r'" by blast
  then have "r' \<in> set t" and "key r' = key r"
    by (auto dest: tbl_lookup_SomeD)
  with assms have "r' = r"
    by (auto simp: tbl_unique_def distinct_map dest: inj_onD)
  with r' show ?thesis by simp
qed

lemma tbl_lookup_Nil [simp]: "tbl_lookup key k [] = None"
  by (simp add: tbl_lookup_def)

lemma tbl_lookup_single [simp]: "tbl_lookup key k [r] = (if key r = k then Some r else None)"
  by (simp add: tbl_lookup_def)

lemma tbl_lookup_append:
  "tbl_lookup key k (t @ u) = (case tbl_lookup key k t of None \<Rightarrow> tbl_lookup key k u | Some r \<Rightarrow> Some r)"
  by (induction t) (auto simp: tbl_lookup_def)

lemma tbl_lookup_map:
  assumes "\<And>r. key (f r) = key r"
  shows "tbl_lookup key k (map f t) = map_option f (tbl_lookup key k t)"
  using assms by (induction t) (auto simp: tbl_lookup_def)

lemma ex_key_image: "(\<exists>r \<in> set t. key r = k) \<longleftrightarrow> k \<in> key ` set t"
  by auto

lemma tbl_unique_filter [tbl_simps]: "tbl_unique key t \<Longrightarrow> tbl_unique key (filter P t)"
  by (simp add: tbl_unique_def distinct_map_filter)

lemma tbl_lookup_filter_neq:
  "tbl_lookup key k (filter (\<lambda>r. key r \<noteq> k0) t) = (if k = k0 then None else tbl_lookup key k t)"
  by (induction t) (auto simp: tbl_lookup_def)

lemma tbl_lookup_filter:
  assumes "tbl_unique key t"
  shows "tbl_lookup key k (filter P t) = filter_option P (tbl_lookup key k t)"
proof (cases "tbl_lookup key k t")
  case None
  then have "tbl_lookup key k (filter P t) = None" by (simp add: tbl_lookup_None_iff)
  with None show ?thesis by simp
next
  case (Some r)
  note r = tbl_lookup_SomeD [OF Some]
  show ?thesis
  proof (cases "P r")
    case True
    then show ?thesis
      using r Some tbl_lookup_unique [OF tbl_unique_filter [OF assms, of P], of r] by simp
  next
    case False
    have "r' = r" if "r' \<in> set t" "key r' = k" for r'
      using that Some tbl_lookup_unique [OF assms that(1)] by simp
    then have "tbl_lookup key k (filter P t) = None"
      using False by (auto simp: tbl_lookup_None_iff)
    with Some False show ?thesis by simp
  qed
qed

lemma tbl_lookup_sort:
  assumes "tbl_unique key t"
  shows "tbl_lookup key k (sort_key ord t) = tbl_lookup key k t"
proof -
  have u: "tbl_unique key (sort_key ord t)"
    using assms unfolding tbl_unique_def by (metis distinct_map distinct_sort set_sort)
  show ?thesis
  proof (cases "tbl_lookup key k t")
    case None
    then have "tbl_lookup key k (sort_key ord t) = None" by (simp add: tbl_lookup_None_iff)
    with None show ?thesis by simp
  next
    case (Some r)
    then show ?thesis using tbl_lookup_unique [OF u, of r] tbl_lookup_SomeD [OF Some] by simp
  qed
qed

lemma filter_upsert_other:
  assumes "\<not> P new" and "\<And>r. r \<in> set t \<Longrightarrow> key r = key new \<Longrightarrow> \<not> P r \<and> \<not> P (upd new r)"
  shows "filter P (tbl_upsert key upd new t) = filter P t"
proof -
  have "filter P (map (\<lambda>r. if key r = key new then upd new r else r) t) = filter P t"
    using assms(2) by (induction t) auto
  with assms(1) show ?thesis by (auto simp: tbl_upsert_def)
qed

subsection \<open>The contract of an upsert\<close>

text \<open>
  \<open>upd new old\<close> is the row the \<^verbatim>\<open>DO UPDATE SET\<close> clause leaves; it must not change the
  conflict key. \<open>replace_table\<close> adds that the clause sets every other column, so
  that the table behaves as a map from keys to rows.
\<close>

locale upsert_table =
  fixes key :: "'r \<Rightarrow> 'k" and upd :: "'r \<Rightarrow> 'r \<Rightarrow> 'r"
  assumes upd_key: "key old = key new \<Longrightarrow> key (upd new old) = key new"
begin

lemma lookup_upsert:
  "tbl_lookup key k (tbl_upsert key upd new t) =
     (if k = key new
      then Some (case tbl_lookup key (key new) t of None \<Rightarrow> new | Some old \<Rightarrow> upd new old)
      else tbl_lookup key k t)"
proof (cases "\<exists>r \<in> set t. key r = key new")
  case True
  let ?f = "\<lambda>r. if key r = key new then upd new r else r"
  have "\<And>r. key (?f r) = key r" by (simp add: upd_key)
  then have "tbl_lookup key k (map ?f t) = map_option ?f (tbl_lookup key k t)"
    by (rule tbl_lookup_map)
  moreover have "tbl_lookup key (key new) t \<noteq> None"
    using True by (auto simp: tbl_simps)
  moreover have "map_option ?f (tbl_lookup key k t) = tbl_lookup key k t" if "k \<noteq> key new"
    using that by (cases "tbl_lookup key k t") (auto dest: tbl_lookup_SomeD)
  ultimately show ?thesis
    using True by (auto simp: tbl_upsert_def dest: tbl_lookup_SomeD split: option.splits)
next
  case False
  then have none: "tbl_lookup key (key new) t = None"
    by (auto simp: tbl_simps)
  have "tbl_upsert key upd new t = t @ [new]"
    using False by (simp only: tbl_upsert_def if_False)
  then show ?thesis
    using none by (cases "k = key new") (auto simp: tbl_lookup_append split: option.splits)
qed

lemma keys_upsert:
  "map key (tbl_upsert key upd new t) =
     (if key new \<in> key ` set t then map key t else map key t @ [key new])"
proof -
  have "key new \<in> key ` set t \<longleftrightarrow> (\<exists>r \<in> set t. key r = key new)"
    by (metis image_iff)
  then show ?thesis by (simp add: tbl_upsert_def upd_key)
qed

lemma unique_upsert: "tbl_unique key t \<Longrightarrow> tbl_unique key (tbl_upsert key upd new t)"
  by (auto simp: tbl_unique_def keys_upsert)

lemma set_upsert_fresh:
  assumes "key new \<notin> key ` set t"
  shows "tbl_upsert key upd new t = t @ [new]"
proof -
  have "\<not> (\<exists>r \<in> set t. key r = key new)"
    using assms by (metis image_eqI)
  then show ?thesis by (simp only: tbl_upsert_def if_False)
qed

end

locale replace_table = upsert_table +
  assumes upd_all: "key old = key new \<Longrightarrow> upd new old = new"
begin

lemma lookup_replace:
  "tbl_lookup key k (tbl_upsert key upd new t) = (if k = key new then Some new else tbl_lookup key k t)"
  by (auto simp: lookup_upsert upd_all split: option.splits dest: tbl_lookup_SomeD)

lemma set_replace:
  "set (tbl_upsert key upd new t) = insert new {r \<in> set t. key r \<noteq> key new}"
  by (auto simp: tbl_upsert_def upd_all)

end

section \<open>Go maps and loops\<close>

text \<open>A Go map is the list of its entries, in an order no operation but a \<^verbatim>\<open>range\<close> loop can see.\<close>

definition mapGet :: "'k \<Rightarrow> ('k \<times> 'v) list \<Rightarrow> 'v option" where
  "mapGet k m = map_option snd (tbl_lookup fst k m)"

definition mapSet :: "'k \<Rightarrow> 'v \<Rightarrow> ('k \<times> 'v) list \<Rightarrow> ('k \<times> 'v) list" where
  "mapSet k v m = tbl_upsert fst (\<lambda>new old. new) (k, v) m"

definition mapDel :: "'k \<Rightarrow> ('k \<times> 'v) list \<Rightarrow> ('k \<times> 'v) list" where
  "mapDel k m = filter (\<lambda>e. fst e \<noteq> k) m"

interpretation go_map: replace_table fst "\<lambda>new old. new"
  by unfold_locales simp_all

lemma mapGet_Nil [simp]: "mapGet k [] = None"
  by (simp add: mapGet_def)

lemma mapGet_mapSet [simp]: "mapGet k (mapSet k' v m) = (if k = k' then Some v else mapGet k m)"
  by (simp add: mapGet_def mapSet_def go_map.lookup_replace)

lemma mapGet_mapDel [simp]: "mapGet k (mapDel k' m) = (if k = k' then None else mapGet k m)"
  by (simp add: mapGet_def mapDel_def tbl_lookup_filter_neq)

lemma mapGet_SomeD: "mapGet k m = Some v \<Longrightarrow> (k, v) \<in> set m"
  by (auto simp: mapGet_def dest: tbl_lookup_SomeD)

lemma mapGet_member: "distinct (map fst m) \<Longrightarrow> (k, v) \<in> set m \<Longrightarrow> mapGet k m = Some v"
  using tbl_lookup_unique [of fst m "(k, v)"] by (simp add: mapGet_def tbl_unique_def)

lemma mapGet_append: "mapGet k (a @ b) = (case mapGet k a of None \<Rightarrow> mapGet k b | Some v \<Rightarrow> Some v)"
  by (simp add: mapGet_def tbl_lookup_append split: option.splits)

lemma mapGet_single [simp]: "mapGet k [(k', v)] = (if k = k' then Some v else None)"
  by (simp add: mapGet_def)

lemma mapGet_None_iff: "mapGet k m = None \<longleftrightarrow> k \<notin> fst ` set m"
  by (auto simp: mapGet_def tbl_lookup_None_iff)

lemma set_mapSet: "set (mapSet k v m) = insert (k, v) {e \<in> set m. fst e \<noteq> k}"
  by (simp add: mapSet_def go_map.set_replace)

lemma set_mapDel: "set (mapDel k m) = {e \<in> set m. fst e \<noteq> k}"
  by (simp add: mapDel_def)

lemma distinct_mapSet: "distinct (map fst m) \<Longrightarrow> distinct (map fst (mapSet k v m))"
  using go_map.unique_upsert by (simp add: mapSet_def tbl_unique_def)

lemma distinct_mapDel: "distinct (map fst m) \<Longrightarrow> distinct (map fst (mapDel k m))"
  by (simp add: mapDel_def distinct_map_filter)

lemma length_mapSet: "length (mapSet k v m) = (if mapGet k m = None then Suc (length m) else length m)"
proof -
  have "mapGet k m = None \<longleftrightarrow> \<not> (\<exists>r \<in> set m. fst r = k)"
    by (auto simp: mapGet_None_iff)
  then show ?thesis by (auto simp: mapSet_def tbl_upsert_def)
qed

lemma length_mapDel:
  assumes "distinct (map fst m)" and "mapGet k m = Some v"
  shows "length (mapDel k m) = length m - 1"
  using assms
proof (induction m)
  case (Cons e m)
  show ?case
  proof (cases "fst e = k")
    case True
    with Cons.prems have "\<forall>e' \<in> set m. fst e' \<noteq> k" by (auto simp: image_iff)
    then have "mapDel k m = m" by (simp add: mapDel_def filter_id_conv)
    with True show ?thesis by (simp add: mapDel_def)
  next
    case False
    with Cons.prems have get: "mapGet k m = Some v" by (simp add: mapGet_def tbl_lookup_def)
    then have "m \<noteq> []" by auto
    with False Cons.IH Cons.prems(1) get show ?thesis by (simp add: mapDel_def)
  qed
qed simp

text \<open>\<^verbatim>\<open>for i, x := range xs\<close> whose body may return an error.\<close>

fun foldR :: "(nat \<Rightarrow> 'a \<Rightarrow> 's \<Rightarrow> 'e + 's) \<Rightarrow> nat \<Rightarrow> 'a list \<Rightarrow> 's \<Rightarrow> 'e + 's" where
  "foldR body i [] s = Inr s"
| "foldR body i (x # xs) s = bindR (body i x s) (foldR body (Suc i) xs)"

lemma foldR_invariant:
  assumes "foldR body i xs s = Inr s'" and "P s"
    and "\<And>j x t t'. x \<in> set xs \<Longrightarrow> P t \<Longrightarrow> body j x t = Inr t' \<Longrightarrow> P t'"
  shows "P s'"
  using assms
proof (induction xs arbitrary: i s)
  case (Cons x xs)
  from Cons.prems(1) obtain t where t: "body i x s = Inr t" "foldR body (Suc i) xs t = Inr s'"
    by (auto simp: bindR_Inr_iff)
  show ?case
    by (rule Cons.IH [OF t(2)]) (use Cons.prems(2,3) t(1) in auto)
qed simp

lemma foldR_each:
  assumes "foldR body i xs s = Inr s'" and "x \<in> set xs"
    and "\<And>j t t'. body j x t = Inr t' \<Longrightarrow> P t'"
    and "\<And>j y t t'. y \<in> set xs \<Longrightarrow> P t \<Longrightarrow> body j y t = Inr t' \<Longrightarrow> P t'"
  shows "P s'"
  using assms
proof (induction xs arbitrary: i s)
  case (Cons y xs)
  from Cons.prems(1) obtain t where t: "body i y s = Inr t" "foldR body (Suc i) xs t = Inr s'"
    by (auto simp: bindR_Inr_iff)
  show ?case
  proof (cases "x = y")
    case True
    with t(1) Cons.prems(3) have "P t" by blast
    then show ?thesis
      by (rule foldR_invariant [OF t(2)]) (use Cons.prems(4) in auto)
  next
    case False
    with Cons.prems(2) have "x \<in> set xs" by simp
    then show ?thesis
      using Cons.prems(3,4) by (intro Cons.IH [OF t(2)]) (assumption | metis list.set_intros(2))+
  qed
qed simp

definition mapErr :: "('e \<Rightarrow> 'f) \<Rightarrow> 'e + 'a \<Rightarrow> 'f + 'a" where
  "mapErr h m = (case m of Inl e \<Rightarrow> Inl (h e) | Inr x \<Rightarrow> Inr x)"

lemma mapErr_simps [simp]: "mapErr h (Inl e) = Inl (h e)" "mapErr h (Inr x) = Inr x"
  by (simp_all add: mapErr_def)

lemma mapErr_Inr_iff [simp]: "mapErr h m = Inr x \<longleftrightarrow> m = Inr x"
  by (cases m) auto

end
