(* ===== verification/GoStrings.thy ===== *)
theory GoStrings
  imports Prelude
begin

text \<open>
  The part of Go's standard library on strings that the gateway uses. A Go string is a
  sequence of bytes, here a list of \<^typ>\<open>char\<close>s; \<open>compare\<close> on strings is bytewise
  lexicographic, the order of theory List_Lexorder over Char_ord. The functions are those of
  package \<^verbatim>\<open>strings\<close> (\<open>hasPrefix\<close>, \<open>hasSuffix\<close>, \<open>strIndex\<close>, \<open>strSplit\<close>, \<open>strJoin\<close>,
  \<open>trimPrefix\<close>, \<open>trimSuffix\<close>, \<open>strCut\<close>), \<^verbatim>\<open>path.Clean\<close>, \<^verbatim>\<open>strconv\<close>'s decimal printer and
  parser and \<^verbatim>\<open>unicode/utf8\<close>'s decoder.
\<close>

section \<open>Definitions\<close>

definition hasPrefix :: "string \<Rightarrow> string \<Rightarrow> bool" where
  "hasPrefix s p \<longleftrightarrow> length p \<le> length s \<and> take (length p) s = p"

definition hasSuffix :: "string \<Rightarrow> string \<Rightarrow> bool" where
  "hasSuffix s p \<longleftrightarrow> length p \<le> length s \<and> drop (length s - length p) s = p"

text \<open>\<^verbatim>\<open>strings.Index\<close>: the least position at which \<open>sub\<close> occurs (\<open>None\<close> for -1).\<close>

fun strIndex :: "string \<Rightarrow> string \<Rightarrow> nat option" where
  "strIndex [] sub = (if sub = [] then Some 0 else None)"
| "strIndex (c # s) sub =
     (if hasPrefix (c # s) sub then Some 0 else map_option Suc (strIndex s sub))"

definition contains :: "string \<Rightarrow> string \<Rightarrow> bool" where
  "contains s sub \<longleftrightarrow> strIndex s sub \<noteq> None"

definition trimPrefix :: "string \<Rightarrow> string \<Rightarrow> string" where
  "trimPrefix s p = (if hasPrefix s p then drop (length p) s else s)"

definition trimSuffix :: "string \<Rightarrow> string \<Rightarrow> string" where
  "trimSuffix s p = (if hasSuffix s p then take (length s - length p) s else s)"

text \<open>\<^verbatim>\<open>strings.Split\<close> and \<^verbatim>\<open>strings.Join\<close> with a one-byte separator.\<close>

fun strSplit :: "char \<Rightarrow> string \<Rightarrow> string list" where
  "strSplit c [] = [[]]"
| "strSplit c (x # xs) =
     (if x = c then [] # strSplit c xs
      else (case strSplit c xs of [] \<Rightarrow> [[x]] | s # ss \<Rightarrow> (x # s) # ss))"

fun strJoin :: "char \<Rightarrow> string list \<Rightarrow> string" where
  "strJoin c [] = []"
| "strJoin c [s] = s"
| "strJoin c (s # t # ss) = s @ c # strJoin c (t # ss)"

text \<open>\<^verbatim>\<open>strings.Cut\<close> with a one-byte separator: before, after, found.\<close>

definition strCut :: "char \<Rightarrow> string \<Rightarrow> string \<times> string \<times> bool" where
  "strCut c s =
     (let before = takeWhile (\<lambda>x. x \<noteq> c) s
      in if length before < length s then (before, drop (Suc (length before)) s, True)
         else (s, [], False))"

text \<open>\<^verbatim>\<open>path.Clean\<close>, on the list of slash-separated elements: empty and \<open>.\<close> elements go,
  \<open>..\<close> removes the element before it, or stays at the front of a relative path.\<close>

fun cleanSegs :: "bool \<Rightarrow> string list \<Rightarrow> string list \<Rightarrow> string list" where
  "cleanSegs rooted st [] = rev st"
| "cleanSegs rooted st (s # ss) =
     (if s = [] \<or> s = ''.'' then cleanSegs rooted st ss
      else if s = ''..'' then
        (case st of
           [] \<Rightarrow> if rooted then cleanSegs rooted [] ss else cleanSegs rooted [s] ss
         | t # st' \<Rightarrow> if t \<noteq> ''..'' then cleanSegs rooted st' ss
                     else cleanSegs rooted (s # st) ss)
      else cleanSegs rooted (s # st) ss)"

definition pathClean :: "string \<Rightarrow> string" where
  "pathClean p =
     (if p = [] then ''.''
      else
        let rooted = hasPrefix p ''/'';
            out = (if rooted then ''/'' else []) @ strJoin CHR ''/'' (cleanSegs rooted [] (strSplit CHR ''/'' p))
        in if out = [] then ''.'' else out)"

text \<open>\<^verbatim>\<open>strconv.FormatUint(n, 10)\<close> and \<^verbatim>\<open>strconv.ParseUint(s, 10, 64)\<close> (\<open>None\<close> for a
  syntax or range error).\<close>

definition digitChar :: "nat \<Rightarrow> char" where
  "digitChar d = char_of (48 + d)"

fun formatNat :: "nat \<Rightarrow> string" where
  "formatNat n = (if n < 10 then [digitChar n] else formatNat (n div 10) @ [digitChar (n mod 10)])"

declare formatNat.simps [simp del]

definition isDigit :: "char \<Rightarrow> bool" where
  "isDigit c \<longleftrightarrow> 48 \<le> (of_char c :: nat) \<and> (of_char c :: nat) \<le> 57"

definition digitsVal :: "string \<Rightarrow> nat" where
  "digitsVal s = foldl (\<lambda>n c. 10 * n + (of_char c - 48)) 0 s"

definition parseUint64 :: "string \<Rightarrow> nat option" where
  "parseUint64 s =
     (if s = [] \<or> \<not> list_all isDigit s then None
      else if digitsVal s < 2 ^ 64 then Some (digitsVal s) else None)"

text \<open>
  \<^verbatim>\<open>utf8.DecodeRuneInString\<close> on a non-empty string: the rune and its width in bytes;
  an invalid encoding is the rune 0xFFFD with width 1.
\<close>

definition contByte :: "nat \<Rightarrow> bool" where
  "contByte b \<longleftrightarrow> 128 \<le> b \<and> b \<le> 191"

definition decodeRune :: "string \<Rightarrow> nat \<times> nat" where
  "decodeRune s =
     (let b = (\<lambda>i. if i < length s then of_char (s ! i) else (0::nat)); b0 = b 0; b1 = b 1; b2 = b 2; b3 = b 3
      in if b0 < 128 then (b0, 1)
         else if 194 \<le> b0 \<and> b0 \<le> 223 \<and> contByte b1
           then ((b0 - 192) * 64 + (b1 - 128), 2)
         else if 224 \<le> b0 \<and> b0 \<le> 239 \<and> contByte b1 \<and> contByte b2
              \<and> (b0 = 224 \<longrightarrow> 160 \<le> b1) \<and> (b0 = 237 \<longrightarrow> b1 \<le> 159)
           then ((b0 - 224) * 4096 + (b1 - 128) * 64 + (b2 - 128), 3)
         else if 240 \<le> b0 \<and> b0 \<le> 244 \<and> contByte b1 \<and> contByte b2 \<and> contByte b3
              \<and> (b0 = 240 \<longrightarrow> 144 \<le> b1) \<and> (b0 = 244 \<longrightarrow> b1 \<le> 143)
           then ((b0 - 240) * 262144 + (b1 - 128) * 4096 + (b2 - 128) * 64 + (b3 - 128), 4)
         else (65533, 1))"

text \<open>The bytes \<^verbatim>\<open>strings.Map\<close> writes for a rune the mapping keeps: those read, or the
  encoding of 0xFFFD for a byte that is no encoding.\<close>

definition runeBytes :: "string \<Rightarrow> string" where
  "runeBytes s =
     (if snd (decodeRune s) = 1 \<and> 128 \<le> (of_char (hd s) :: nat)
      then [char_of (239::nat), char_of (191::nat), char_of (189::nat)]
      else take (snd (decodeRune s)) s)"

section \<open>Prefixes, suffixes, cutting\<close>

lemma hasPrefix_append [simp]: "hasPrefix (p @ s) p"
  by (simp add: hasPrefix_def)

lemma hasPrefix_iff: "hasPrefix s p \<longleftrightarrow> (\<exists>r. s = p @ r)"
  unfolding hasPrefix_def by (metis append_eq_conv_conj append_take_drop_id length_take min.absorb2
      le_add1 length_append)

lemma hasSuffix_iff: "hasSuffix s p \<longleftrightarrow> (\<exists>r. s = r @ p)"
  unfolding hasSuffix_def by (metis append_eq_conv_conj append_take_drop_id diff_le_self
      length_append add_diff_cancel_right' le_add2)

lemma hasPrefix_Nil [simp]: "hasPrefix s []"
  by (simp add: hasPrefix_def)

lemma hasPrefix_Cons [simp]: "hasPrefix (c # s) (d # p) \<longleftrightarrow> c = d \<and> hasPrefix s p"
  by (auto simp: hasPrefix_def)

lemma hasPrefix_Nil_left [simp]: "hasPrefix [] p \<longleftrightarrow> p = []"
  by (auto simp: hasPrefix_def)

lemma contains_single: "contains s [c] \<longleftrightarrow> c \<in> set s"
  by (induction s) (auto simp: contains_def)

section \<open>Splitting and joining\<close>

lemma strSplit_nonempty [simp]: "strSplit c s \<noteq> []"
  by (cases s) (auto split: list.splits)

lemma strJoin_Cons: "ss \<noteq> [] \<Longrightarrow> strJoin c (s # ss) = s @ c # strJoin c ss"
  by (cases ss) auto

lemma strJoin_Cons_Cons_head: "strJoin c ((x # s) # ss) = x # strJoin c (s # ss)"
  by (cases ss) auto

lemma strJoin_strSplit [simp]: "strJoin c (strSplit c s) = s"
proof (induction s)
  case Nil
  show ?case by simp
next
  case (Cons x xs)
  obtain t ts where "strSplit c xs = t # ts"
    by (cases "strSplit c xs") auto
  with Cons.IH show ?case
    by (auto simp: strJoin_Cons strJoin_Cons_Cons_head)
qed

lemma strSplit_no_sep: "seg \<in> set (strSplit c s) \<Longrightarrow> c \<notin> set seg"
proof (induction s arbitrary: seg)
  case (Cons x xs)
  obtain t ts where "strSplit c xs = t # ts"
    by (cases "strSplit c xs") auto
  with Cons show ?case by (auto split: if_splits)
qed simp

lemma strSplit_append_sep: "strSplit c (a @ c # b) = strSplit c a @ strSplit c b"
proof (induction a)
  case (Cons x xs)
  obtain t ts where "strSplit c xs = t # ts"
    by (cases "strSplit c xs") auto
  with Cons show ?case by auto
qed simp

lemma strSplit_free: "c \<notin> set s \<Longrightarrow> strSplit c s = [s]"
  by (induction s) auto

section \<open>Path cleaning is the identity on canonical relative paths\<close>

definition plainSeg :: "string \<Rightarrow> bool" where
  "plainSeg s \<longleftrightarrow> s \<noteq> [] \<and> s \<noteq> ''.'' \<and> s \<noteq> ''..''"

lemma cleanSegs_plain: "list_all plainSeg ss \<Longrightarrow> cleanSegs rooted st ss = rev st @ ss"
  by (induction ss arbitrary: st) (auto simp: plainSeg_def)

lemma pathClean_plain:
  assumes "list_all plainSeg (strSplit CHR ''/'' p)"
  shows "pathClean p = p"
proof -
  have ne: "p \<noteq> []" using assms by (auto simp: plainSeg_def)
  have "\<not> hasPrefix p ''/''"
    using assms by (cases p) (auto simp: plainSeg_def)
  with assms ne show ?thesis
    by (simp add: pathClean_def cleanSegs_plain)
qed

section \<open>Decimal numbers\<close>

lemma digitChar_val: "d < 10 \<Longrightarrow> (of_char (digitChar d) :: nat) = 48 + d"
  by (simp add: digitChar_def)

lemma formatNat_digits: "list_all isDigit (formatNat n)"
proof (induction n rule: formatNat.induct)
  case (1 n)
  then show ?case
    by (subst formatNat.simps) (auto simp: isDigit_def [of "digitChar _"] digitChar_val)
qed

lemma formatNat_nonempty [simp]: "formatNat n \<noteq> []"
  by (subst formatNat.simps) auto

lemma digitsVal_formatNat [simp]: "digitsVal (formatNat n) = n"
proof (induction n rule: formatNat.induct)
  case (1 n)
  then show ?case
    by (subst formatNat.simps) (auto simp: digitsVal_def digitChar_val)
qed

lemma parseUint64_formatNat: "n < 2 ^ 64 \<Longrightarrow> parseUint64 (formatNat n) = Some n"
  by (simp add: parseUint64_def formatNat_digits)

lemma formatNat_inject: "formatNat m = formatNat n \<Longrightarrow> m = n"
  by (metis digitsVal_formatNat)

lemma formatNat_length: "n < 10 ^ k \<Longrightarrow> 0 < k \<Longrightarrow> length (formatNat n) \<le> k"
proof (induction k arbitrary: n)
  case (Suc k)
  show ?case
  proof (cases "n < 10")
    case True
    then show ?thesis by (subst formatNat.simps) simp
  next
    case False
    then have "0 < k" using Suc.prems by (cases k) auto
    moreover have "n div 10 < 10 ^ k" using Suc.prems by auto
    ultimately show ?thesis
      using False Suc.IH by (subst formatNat.simps) simp
  qed
qed simp

section \<open>Runes\<close>

lemma decodeRune_width: "0 < snd (decodeRune s)"
  by (auto simp: decodeRune_def Let_def)

lemma decodeRune_ascii:
  assumes "s \<noteq> []" and "(of_char (hd s) :: nat) < 128"
  shows "decodeRune s = (of_char (hd s), 1)"
  using assms by (cases s) (auto simp: decodeRune_def Let_def)

lemma decodeRune_high:
  assumes "s \<noteq> []" and "128 \<le> (of_char (hd s) :: nat)"
  shows "128 \<le> fst (decodeRune s)"
  using assms by (cases s) (auto simp: decodeRune_def Let_def contByte_def)

lemma decodeRune_cont:
  assumes "0 < i" and "i < snd (decodeRune s)" and "i < length s"
  shows "128 \<le> (of_char (s ! i) :: nat)"
proof -
  have "snd (decodeRune s) \<le> 4"
    by (simp add: decodeRune_def Let_def)
  with assms(1,2) consider "i = 1" | "i = 2" | "i = 3" by linarith
  then show ?thesis
    using assms by cases (simp_all add: decodeRune_def Let_def contByte_def split: if_splits)
qed

lemma runeBytes_high:
  assumes "s \<noteq> []" and "128 \<le> (of_char (hd s) :: nat)" and "c \<in> set (runeBytes s)"
  shows "128 \<le> (of_char c :: nat)"
proof (cases "snd (decodeRune s) = 1")
  case True
  with assms show ?thesis by (auto simp: runeBytes_def)
next
  case False
  with assms obtain i where i: "i < snd (decodeRune s)" "i < length s" "c = s ! i"
    by (auto simp: runeBytes_def in_set_conv_nth)
  show ?thesis
    using i assms(1,2) decodeRune_cont [of i s] by (cases "i = 0") (auto simp: hd_conv_nth)
qed

end
