(* ===== verification/Wire.thy ===== *)
theory Wire
  imports GoStrings
begin

text \<open>
  The HIP/1 wire format, \<^verbatim>\<open>internal/hipproto/frame.go\<close> and \<^verbatim>\<open>chunk.go\<close>: big-endian length
  prefix, type byte, payload. The connection is a \<open>stream\<close>: the bytes still to arrive and
  the error the reader meets after them. A writer is any state with a write function, as
  \<^verbatim>\<open>io.Writer\<close> is any type with a \<^verbatim>\<open>Write\<close> method. \<open>FrameReader\<close>'s reusable buffer is the
  list of the bytes of its backing array.
\<close>

unbundle bit_operations_syntax

section \<open>encoding/binary\<close>

definition putUint32 :: "u32 \<Rightarrow> byte list" where
  "putUint32 v = [ucast (drop_bit 24 v), ucast (drop_bit 16 v), ucast (drop_bit 8 v), ucast v]"

definition uint32BE :: "byte list \<Rightarrow> u32" where
  "uint32BE b = ucast (b ! 3) OR push_bit 8 (ucast (b ! 2)) OR push_bit 16 (ucast (b ! 1))
     OR push_bit 24 (ucast (b ! 0))"

section \<open>Frame types\<close>

definition FrameHello :: byte where "FrameHello = 0x01"
definition FrameHelloAck :: byte where "FrameHelloAck = 0x02"
definition FrameCheckBatch :: byte where "FrameCheckBatch = 0x03"
definition FrameCheckAck :: byte where "FrameCheckAck = 0x04"
definition FrameUploadBegin :: byte where "FrameUploadBegin = 0x05"
definition FrameUploadChunk :: byte where "FrameUploadChunk = 0x06"
definition FrameUploadEnd :: byte where "FrameUploadEnd = 0x07"
definition FrameUploadAck :: byte where "FrameUploadAck = 0x08"
definition FrameCommit :: byte where "FrameCommit = 0x09"
definition FrameCommitAck :: byte where "FrameCommitAck = 0x0A"
definition FrameBye :: byte where "FrameBye = 0x0B"
definition FrameWindow :: byte where "FrameWindow = 0x0C"
definition FramePing :: byte where "FramePing = 0x0E"
definition FramePong :: byte where "FramePong = 0x0F"
definition FrameError :: byte where "FrameError = 0x1F"

lemmas frame_types [gw_simps] =
  FrameHello_def FrameHelloAck_def FrameCheckBatch_def FrameCheckAck_def FrameUploadBegin_def
  FrameUploadChunk_def FrameUploadEnd_def FrameUploadAck_def FrameCommit_def FrameCommitAck_def
  FrameBye_def FrameWindow_def FramePing_def FramePong_def FrameError_def

definition hexUpper :: "nat \<Rightarrow> char" where
  "hexUpper d = (if d < 10 then char_of (48 + d) else char_of (55 + d))"

definition frameTypeString :: "byte \<Rightarrow> string" where
  "frameTypeString t =
     (if t = FrameHello then ''HELLO''
      else if t = FrameHelloAck then ''HELLO_ACK''
      else if t = FrameCheckBatch then ''CHECK_BATCH''
      else if t = FrameCheckAck then ''CHECK_ACK''
      else if t = FrameUploadBegin then ''UPLOAD_BEGIN''
      else if t = FrameUploadChunk then ''UPLOAD_CHUNK''
      else if t = FrameUploadEnd then ''UPLOAD_END''
      else if t = FrameUploadAck then ''UPLOAD_ACK''
      else if t = FrameCommit then ''COMMIT''
      else if t = FrameCommitAck then ''COMMIT_ACK''
      else if t = FrameBye then ''BYE''
      else if t = FrameWindow then ''WINDOW''
      else if t = FramePing then ''PING''
      else if t = FramePong then ''PONG''
      else if t = FrameError then ''ERROR''
      else ''UNKNOWN(0x'' @ [hexUpper (unat t div 16), hexUpper (unat t mod 16)] @ '')'')"

section \<open>Frames\<close>

definition DefaultMaxFrameBytes :: u64 where
  "DefaultMaxFrameBytes = 16 * 1024 * 1024"

definition HardMaxFrameBytes :: u64 where
  "HardMaxFrameBytes = 64 * 1024 * 1024"

record frame =
  f_type :: byte
  f_payload :: "byte list"

datatype io_error = EOF | UnexpectedEOF | NetError string

datatype frame_error = ErrShortFrame | ErrFrameTooLarge nat nat | IOError io_error

record stream =
  st_bytes :: "byte list"
  st_end :: io_error

text \<open>\<^verbatim>\<open>io.ReadFull\<close> of \<open>n\<close> bytes; the middle component is what was copied into the buffer.\<close>

definition readFull :: "nat \<Rightarrow> stream \<Rightarrow> io_error option \<times> byte list \<times> stream" where
  "readFull n r =
     (let got = take n (st_bytes r); r' = r\<lparr>st_bytes := drop n (st_bytes r)\<rparr>
      in if n \<le> length (st_bytes r) then (None, got, r')
         else if st_end r = EOF \<and> got \<noteq> [] then (Some UnexpectedEOF, got, r')
         else (Some (st_end r), got, r'))"

definition effectiveMaxFrame :: "u64 \<Rightarrow> u64" where
  "effectiveMaxFrame maxFrame = (if maxFrame > HardMaxFrameBytes then HardMaxFrameBytes else maxFrame)"

text \<open>Copying \<open>got\<close> to the front of a buffer.\<close>

definition overwrite :: "byte list \<Rightarrow> byte list \<Rightarrow> byte list" where
  "overwrite got buf = got @ drop (length got) buf"

definition readFrame ::
    "stream \<Rightarrow> u64 \<Rightarrow> byte list option \<Rightarrow> (frame_error + frame) \<times> stream \<times> byte list option" where
  "readFrame r maxFrame reusable =
     (case readFull 4 r of
        (Some e, _, r1) \<Rightarrow> (Inl (IOError e), r1, reusable)
      | (None, hdr, r1) \<Rightarrow>
          let len = uint32BE hdr; effectiveMax = effectiveMaxFrame maxFrame
          in if len = 0 then (Inl ErrShortFrame, r1, reusable)
             else if (ucast len :: u64) > effectiveMax
               then (Inl (ErrFrameTooLarge (unat len) (unat effectiveMax)), r1, reusable)
             else
               let n = unat len;
                   arr = (case reusable of
                            None \<Rightarrow> replicate n 0
                          | Some b \<Rightarrow> if length b < n then replicate n 0 else b)
               in case readFull n r1 of
                    (Some e, got, r2) \<Rightarrow>
                      (Inl (IOError e), r2, map_option (\<lambda>_. overwrite got arr) reusable)
                  | (None, got, r2) \<Rightarrow>
                      (let arr' = overwrite got arr; buf = take n arr'
                       in (Inr \<lparr>f_type = buf ! 0, f_payload = drop 1 buf\<rparr>, r2,
                           map_option (\<lambda>_. arr') reusable)))"

definition ReadFrame :: "stream \<Rightarrow> u64 \<Rightarrow> (frame_error + frame) \<times> stream" where
  "ReadFrame r maxFrame = (case readFrame r maxFrame None of (res, r', _) \<Rightarrow> (res, r'))"

record frame_reader =
  fr_stream :: stream
  fr_buf :: "byte list"

definition NewFrameReader :: "stream \<Rightarrow> frame_reader" where
  "NewFrameReader r = \<lparr>fr_stream = r, fr_buf = []\<rparr>"

definition FrameReader_ReadFrame :: "frame_reader \<Rightarrow> u64 \<Rightarrow> (frame_error + frame) \<times> frame_reader" where
  "FrameReader_ReadFrame fr maxFrame =
     (case readFrame (fr_stream fr) maxFrame (Some (fr_buf fr)) of
        (res, r', b') \<Rightarrow>
          (res, \<lparr>fr_stream = r', fr_buf = (case b' of None \<Rightarrow> fr_buf fr | Some b \<Rightarrow> b)\<rparr>))"

datatype write_error = WErrFrameTooLarge nat nat | WErrIO string

definition WriteFrame ::
    "('w \<Rightarrow> byte list \<Rightarrow> string option \<times> 'w) \<Rightarrow> 'w \<Rightarrow> frame \<Rightarrow> u64 \<Rightarrow> write_error option \<times> 'w" where
  "WriteFrame write w f maxFrame =
     (let total = 1 + length (f_payload f); effectiveMax = effectiveMaxFrame maxFrame
      in if total > unat effectiveMax then (Some (WErrFrameTooLarge total (unat effectiveMax)), w)
         else
           case write w (putUint32 (word_of_nat total) @ [f_type f]) of
             (Some e, w1) \<Rightarrow> (Some (WErrIO e), w1)
           | (None, w1) \<Rightarrow>
               if length (f_payload f) > 0 then
                 (case write w1 (f_payload f) of
                    (Some e, w2) \<Rightarrow> (Some (WErrIO e), w2)
                  | (None, w2) \<Rightarrow> (None, w2))
               else (None, w1))"

text \<open>\<^verbatim>\<open>internal/hipserver/writer.go\<close>: the goroutine that owns the connection writes the queued
  frames in order; the first error stops it and the rest of the queue is drained unwritten.\<close>

fun frameWriter_loop ::
    "('w \<Rightarrow> byte list \<Rightarrow> string option \<times> 'w) \<Rightarrow> u64 \<Rightarrow> 'w \<Rightarrow> frame list \<Rightarrow> write_error option \<times> 'w" where
  "frameWriter_loop write maxFrame w [] = (None, w)"
| "frameWriter_loop write maxFrame w (f # fs) =
     (case WriteFrame write w f maxFrame of
        (Some e, w') \<Rightarrow> (Some e, w')
      | (None, w') \<Rightarrow> frameWriter_loop write maxFrame w' fs)"

text \<open>Reading \<open>n\<close> frames one after the other through one \<open>FrameReader\<close>; stops at an error.\<close>

fun readFrames :: "nat \<Rightarrow> u64 \<Rightarrow> frame_reader \<Rightarrow> (frame_error + frame) list \<times> frame_reader" where
  "readFrames 0 maxFrame fr = ([], fr)"
| "readFrames (Suc n) maxFrame fr =
     (case FrameReader_ReadFrame fr maxFrame of
        (Inl e, fr') \<Rightarrow> ([Inl e], fr')
      | (Inr f, fr') \<Rightarrow> (case readFrames n maxFrame fr' of (rs, fr'') \<Rightarrow> (Inr f # rs, fr'')))"

text \<open>A writer that never fails and appends, as \<^verbatim>\<open>bytes.Buffer\<close> does.\<close>

definition bufferWrite :: "byte list \<Rightarrow> byte list \<Rightarrow> string option \<times> byte list" where
  "bufferWrite w bs = (None, w @ bs)"

section \<open>Chunks\<close>

datatype chunk_error = ErrChunkTooShort

definition DecodeChunk :: "byte list \<Rightarrow> chunk_error + (u32 \<times> byte list)" where
  "DecodeChunk payload =
     (if length payload < 4 then Inl ErrChunkTooShort
      else Inr (uint32BE (take 4 payload), drop 4 payload))"

definition EncodeChunk :: "u32 \<Rightarrow> byte list \<Rightarrow> byte list" where
  "EncodeChunk streamID data = putUint32 streamID @ data"

section \<open>Big-endian round trip\<close>

lemma length_putUint32 [simp]: "length (putUint32 v) = 4"
  by (simp add: putUint32_def)

lemma uint32BE_putUint32 [simp]: "uint32BE (putUint32 v) = v"
proof (rule bit_word_eqI)
  fix n assume "n < LENGTH(32)"
  then consider "n < 8" | "8 \<le> n" "n < 16" | "16 \<le> n" "n < 24" | "24 \<le> n" "n < 32"
    by (simp, linarith)
  then show "bit (uint32BE (putUint32 v)) n \<longleftrightarrow> bit v n"
    by cases (auto simp: uint32BE_def putUint32_def bit_simps)
qed

lemma putUint32_uint32BE:
  assumes "length b = 4"
  shows "putUint32 (uint32BE b) = b"
proof -
  from assms obtain b0 b1 b2 b3 where b: "b = [b0, b1, b2, b3]"
    by (auto simp: numeral_eq_Suc length_Suc_conv)
  have "ucast (drop_bit 24 (uint32BE b)) = b0" "ucast (drop_bit 16 (uint32BE b)) = b1"
       "ucast (drop_bit 8 (uint32BE b)) = b2" "ucast (uint32BE b) = b3"
    by (rule bit_word_eqI; auto simp: b uint32BE_def bit_simps dest: bit_imp_le_length)+
  then show ?thesis by (simp add: putUint32_def b)
qed

lemma uint32BE_append: "length h = 4 \<Longrightarrow> uint32BE (h @ bs) = uint32BE h"
  by (simp add: uint32BE_def nth_append)

section \<open>Reading and writing frames\<close>

lemma unat_ucast_u64 [simp]: "unat (ucast (x :: u32) :: u64) = unat x"
  by (simp add: unsigned_ucast_eq take_bit_nat_eq_self_iff order_less_trans [OF unsigned_less])

lemma unat_u32_small: "k \<le> 64 * 1024 * 1024 \<Longrightarrow> unat (word_of_nat k :: u32) = k"
  by (simp add: unat_of_nat take_bit_nat_eq_self_iff)

lemma effectiveMaxFrame_le: "unat (effectiveMaxFrame m) \<le> 64 * 1024 * 1024"
  by (auto simp: effectiveMaxFrame_def HardMaxFrameBytes_def word_less_nat_alt)

lemma overwrite_take: "length got = n \<Longrightarrow> take n (overwrite got arr) = got"
  by (simp add: overwrite_def)

lemma readFull_None: "readFull n r = (None, got, r') \<longleftrightarrow>
    n \<le> length (st_bytes r) \<and> got = take n (st_bytes r) \<and> r' = r\<lparr>st_bytes := drop n (st_bytes r)\<rparr>"
  by (auto simp: readFull_def Let_def)

lemma readFull_Some: "readFull n r = (Some e, got, r') \<Longrightarrow> length got < n \<and> length (st_bytes r) < n"
  by (auto simp: readFull_def Let_def split: if_splits)

definition encodeFrame :: "frame \<Rightarrow> byte list" where
  "encodeFrame f = putUint32 (word_of_nat (1 + length (f_payload f))) @ f_type f # f_payload f"

definition fits :: "frame \<Rightarrow> u64 \<Rightarrow> bool" where
  "fits f m \<longleftrightarrow> 1 + length (f_payload f) \<le> unat (effectiveMaxFrame m)"

lemma WriteFrame_buffer:
  "WriteFrame bufferWrite w f m =
     (if fits f m then (None, w @ encodeFrame f)
      else (Some (WErrFrameTooLarge (1 + length (f_payload f)) (unat (effectiveMaxFrame m))), w))"
  by (auto simp: WriteFrame_def bufferWrite_def encodeFrame_def fits_def Let_def)

lemma frameWriter_loop_buffer:
  "list_all (\<lambda>f. fits f m) fs \<Longrightarrow>
   frameWriter_loop bufferWrite m w fs = (None, w @ concat (map encodeFrame fs))"
  by (induction fs arbitrary: w) (auto simp: WriteFrame_buffer)

lemma readFrame_buffer_indep:
  "fst (readFrame r m (Some b)) = fst (readFrame r m None)
   \<and> fst (snd (readFrame r m (Some b))) = fst (snd (readFrame r m None))"
  by (auto simp: readFrame_def readFull_None overwrite_take Let_def
      split: prod.splits option.splits)

lemma readFrame_decodes:
  assumes "fits f m"
  shows "readFrame \<lparr>st_bytes = encodeFrame f @ rest, st_end = e\<rparr> m None
         = (Inr f, \<lparr>st_bytes = rest, st_end = e\<rparr>, None)"
proof -
  let ?n = "1 + length (f_payload f)"
  have le: "?n \<le> 64 * 1024 * 1024"
    using assms effectiveMaxFrame_le [of m] by (simp add: fits_def)
  then have n: "unat (word_of_nat ?n :: u32) = ?n"
    by (rule unat_u32_small)
  then have nz: "(word_of_nat ?n :: u32) \<noteq> 0" by auto
  have "\<not> (ucast (word_of_nat ?n :: u32) :: u64) > effectiveMaxFrame m"
    using assms n by (simp add: word_less_nat_alt fits_def)
  with n nz show ?thesis
    by (simp add: readFrame_def readFull_def encodeFrame_def Let_def overwrite_def)
qed

lemma FrameReader_decodes:
  assumes "fits f m"
  shows "\<exists>b'. FrameReader_ReadFrame \<lparr>fr_stream = \<lparr>st_bytes = encodeFrame f @ rest, st_end = e\<rparr>, fr_buf = b\<rparr> m
         = (Inr f, \<lparr>fr_stream = \<lparr>st_bytes = rest, st_end = e\<rparr>, fr_buf = b'\<rparr>)"
  using readFrame_decodes [OF assms, of rest e]
    readFrame_buffer_indep [of "\<lparr>st_bytes = encodeFrame f @ rest, st_end = e\<rparr>" m b]
  by (auto simp: FrameReader_ReadFrame_def split: prod.splits)

lemma readFrames_decodes:
  assumes "list_all (\<lambda>f. fits f m) fs"
  shows "\<exists>b'. readFrames (length fs) m
           \<lparr>fr_stream = \<lparr>st_bytes = concat (map encodeFrame fs) @ rest, st_end = e\<rparr>, fr_buf = b\<rparr>
         = (map Inr fs, \<lparr>fr_stream = \<lparr>st_bytes = rest, st_end = e\<rparr>, fr_buf = b'\<rparr>)"
  using assms
proof (induction fs arbitrary: b)
  case (Cons f fs)
  then obtain b1 where "FrameReader_ReadFrame \<lparr>fr_stream =
        \<lparr>st_bytes = encodeFrame f @ concat (map encodeFrame fs) @ rest, st_end = e\<rparr>, fr_buf = b\<rparr> m
      = (Inr f, \<lparr>fr_stream = \<lparr>st_bytes = concat (map encodeFrame fs) @ rest, st_end = e\<rparr>, fr_buf = b1\<rparr>)"
    using FrameReader_decodes by fastforce
  moreover from Cons obtain b2 where "readFrames (length fs) m
           \<lparr>fr_stream = \<lparr>st_bytes = concat (map encodeFrame fs) @ rest, st_end = e\<rparr>, fr_buf = b1\<rparr>
         = (map Inr fs, \<lparr>fr_stream = \<lparr>st_bytes = rest, st_end = e\<rparr>, fr_buf = b2\<rparr>)"
    by fastforce
  ultimately show ?case by simp
qed simp

lemma length_overwrite: "length got \<le> length arr \<Longrightarrow> length (overwrite got arr) = length arr"
  by (simp add: overwrite_def)

lemma length_readFull: "readFull n r = (x, got, r') \<Longrightarrow> length got \<le> n"
  by (auto simp: readFull_def Let_def split: if_splits)

lemma readFrame_buffer_size:
  assumes "readFrame r m (Some b) = (res, r', Some b')"
  shows "length b \<le> length b' \<and> length b' \<le> max (length b) (unat (effectiveMaxFrame m))"
proof (cases "readFull 4 r")
  case (fields x hdr r1)
  let ?len = "uint32BE hdr"
  let ?arr = "if length b < unat ?len then replicate (unat ?len) 0 else b"
  have le: "unat ?len \<le> unat (effectiveMaxFrame m)" if "\<not> (ucast ?len :: u64) > effectiveMaxFrame m"
    using that by (simp add: word_less_nat_alt)
  obtain y got r2 where y: "readFull (unat ?len) r1 = (y, got, r2)"
    by (cases "readFull (unat ?len) r1") auto
  then have "length (overwrite got ?arr) = length ?arr"
    by (intro length_overwrite) (auto dest: length_readFull)
  with assms fields y le show ?thesis
    by (auto simp: readFrame_def Let_def split: option.splits if_splits)
qed

lemma readFrame_success:
  assumes "readFrame r m x = (Inr f, r', b')"
  shows "fits f m \<and> st_bytes r = encodeFrame f @ st_bytes r'"
proof -
  have "readFrame r m None = (Inr f, r', None)"
    using assms readFrame_buffer_indep [of r m] by (cases x) (auto simp: readFrame_def Let_def split: prod.splits option.splits if_splits)
  then obtain hdr r1 got where
      1: "readFull 4 r = (None, hdr, r1)" and nz: "uint32BE hdr \<noteq> 0"
    and le: "\<not> (ucast (uint32BE hdr) :: u64) > effectiveMaxFrame m"
    and 2: "readFull (unat (uint32BE hdr)) r1 = (None, got, r')"
    and f: "f = \<lparr>f_type = take (unat (uint32BE hdr)) (overwrite got (replicate (unat (uint32BE hdr)) 0)) ! 0,
        f_payload = drop 1 (take (unat (uint32BE hdr)) (overwrite got (replicate (unat (uint32BE hdr)) 0)))\<rparr>"
    by (auto simp: readFrame_def Let_def split: prod.splits option.splits if_splits)
  let ?n = "unat (uint32BE hdr)"
  from 1 have r1: "hdr = take 4 (st_bytes r)" "st_bytes r1 = drop 4 (st_bytes r)" "4 \<le> length (st_bytes r)"
    by (auto simp: readFull_None)
  from 2 have r2: "st_bytes r1 = got @ st_bytes r'" and got: "length got = ?n"
    by (auto simp: readFull_None)
  have hdr: "length hdr = 4" "st_bytes r = hdr @ got @ st_bytes r'"
    using r1(1,3) by (simp, metis append_take_drop_id r1(1,2) r2)
  from nz have pos: "0 < ?n" by (simp add: unat_gt_0)
  from f got have f': "f = \<lparr>f_type = got ! 0, f_payload = drop 1 got\<rparr>"
    by (simp add: overwrite_take)
  with got pos have len: "1 + length (f_payload f) = ?n" and parts: "f_type f # f_payload f = got"
    by (auto simp: Cons_nth_drop_Suc)
  have "putUint32 (word_of_nat (1 + length (f_payload f))) = hdr"
    unfolding len using hdr(1) by (simp add: putUint32_uint32BE)
  with hdr parts have "st_bytes r = encodeFrame f @ st_bytes r'"
    by (simp add: encodeFrame_def)
  moreover have "fits f m"
    using le len by (simp add: fits_def word_less_nat_alt)
  ultimately show ?thesis by blast
qed

text \<open>Every frame that is read shortens the input.\<close>

lemma FrameReader_consumes:
  assumes "FrameReader_ReadFrame fr m = (Inr f, fr')"
  shows "length (st_bytes (fr_stream fr')) + 5 \<le> length (st_bytes (fr_stream fr))"
proof -
  let ?len = "uint32BE (take 4 (st_bytes (fr_stream fr)))"
  obtain r b where "readFrame (fr_stream fr) m (Some (fr_buf fr)) = (Inr f, r, b)" and r: "fr_stream fr' = r"
    using assms by (auto simp: FrameReader_ReadFrame_def split: prod.splits)
  then have "?len \<noteq> 0 \<and> 4 \<le> length (st_bytes (fr_stream fr)) \<and> unat ?len \<le> length (st_bytes (fr_stream fr)) - 4
      \<and> r = fr_stream fr\<lparr>st_bytes := drop (unat ?len) (drop 4 (st_bytes (fr_stream fr)))\<rparr>"
    by (auto simp: readFrame_def readFull_None Let_def split: prod.splits option.splits if_splits)
  moreover from this have "0 < unat ?len" by (simp add: unat_gt_0)
  ultimately show ?thesis unfolding r by auto
qed

section \<open>Properties\<close>

text \<open>C16: Whatever sequence of frames the connection's writer emits, one \<open>FrameReader\<close> at the
  other end reads back exactly those frames in that order and leaves the following bytes
  untouched, for every sequence of frames within the negotiated maximum, whatever its reused
  buffer holds.\<close>

theorem frames_roundtrip:
  assumes "\<forall>f \<in> set fs. 1 + length (f_payload f) \<le> unat (effectiveMaxFrame m)"
  shows "\<exists>bs b'. frameWriter_loop bufferWrite m [] fs = (None, bs)
           \<and> readFrames (length fs) m \<lparr>fr_stream = \<lparr>st_bytes = bs @ rest, st_end = e\<rparr>, fr_buf = b\<rparr>
             = (map Inr fs, \<lparr>fr_stream = \<lparr>st_bytes = rest, st_end = e\<rparr>, fr_buf = b'\<rparr>)"
proof -
  from assms have "list_all (\<lambda>f. fits f m) fs"
    by (simp add: list_all_iff fits_def)
  then show ?thesis
    using frameWriter_loop_buffer [of m fs "[]"] readFrames_decodes [of m fs rest e b] by auto
qed

theorem frames_roundtrip_witness:
  "\<exists>bs b'. frameWriter_loop bufferWrite 4096 [] [\<lparr>f_type = FramePing, f_payload = []\<rparr>,
        \<lparr>f_type = FrameUploadChunk, f_payload = EncodeChunk 7 [1, 2, 3]\<rparr>] = (None, bs)
     \<and> readFrames 2 4096 \<lparr>fr_stream = \<lparr>st_bytes = bs @ [9], st_end = EOF\<rparr>, fr_buf = [5, 5]\<rparr>
        = (map Inr [\<lparr>f_type = FramePing, f_payload = []\<rparr>,
             \<lparr>f_type = FrameUploadChunk, f_payload = EncodeChunk 7 [1, 2, 3]\<rparr>],
           \<lparr>fr_stream = \<lparr>st_bytes = [9], st_end = EOF\<rparr>, fr_buf = b'\<rparr>)"
proof -
  have h: "\<forall>f \<in> set [\<lparr>f_type = FramePing, f_payload = []\<rparr>,
      \<lparr>f_type = FrameUploadChunk, f_payload = EncodeChunk 7 [1, 2, 3]\<rparr>].
      1 + length (f_payload f) \<le> unat (effectiveMaxFrame 4096)"
    by (simp add: EncodeChunk_def effectiveMaxFrame_def HardMaxFrameBytes_def)
  show ?thesis
    using frames_roundtrip [OF h, of "[9]" EOF "[5, 5]"] by (simp add: numeral_2_eq_2)
qed

text \<open>Reusing the payload buffer is invisible: \<open>FrameReader\<close>'s read returns the result and
  leaves the stream that a fresh allocation would, on every input, well-formed or not.\<close>

theorem readFrame_reuse_equivalent:
  "(case readFrame r m (Some b) of (res, r', _) \<Rightarrow> (res, r')) = ReadFrame r m"
  using readFrame_buffer_indep [of r m b] by (auto simp: ReadFrame_def split: prod.splits)

text \<open>C8: No peer can make the reader allocate more than the negotiated maximum, nor more than the
  hard cap of 64 MiB: on every stream the reused buffer stays within the larger of its old size
  and the effective maximum, it never shrinks, and a frame is returned only if its length
  was within that maximum and all of its bytes had arrived.\<close>

theorem readFrame_bounded:
  assumes "readFrame r m (Some b) = (res, r', Some b')"
  shows "length b \<le> length b' \<and> length b' \<le> max (length b) (unat (effectiveMaxFrame m))
    \<and> unat (effectiveMaxFrame m) \<le> 64 * 1024 * 1024
    \<and> (\<forall>f. res = Inr f \<longrightarrow> 1 + length (f_payload f) \<le> unat (effectiveMaxFrame m)
           \<and> st_bytes r = encodeFrame f @ st_bytes r')"
  using assms readFrame_buffer_size [OF assms] readFrame_success [of r m "Some b" _ r' "Some b'"]
    effectiveMaxFrame_le [of m]
  by (auto simp: fits_def)

theorem readFrame_bounded_witness:
  "\<exists>f b'. readFrame \<lparr>st_bytes = [0, 0, 0, 2, 14, 255], st_end = EOF\<rparr> 4096 (Some [])
             = (Inr f, \<lparr>st_bytes = [], st_end = EOF\<rparr>, Some b')
     \<and> length b' \<le> max 0 (unat (effectiveMaxFrame 4096))"
proof -
  have h: "readFrame \<lparr>st_bytes = [0, 0, 0, 2, 14, 255], st_end = EOF\<rparr> 4096 (Some [])
      = (Inr \<lparr>f_type = 14, f_payload = [255]\<rparr>, \<lparr>st_bytes = [], st_end = EOF\<rparr>, Some [14, 255])"
    by (simp add: readFrame_def readFull_def uint32BE_def Let_def overwrite_def effectiveMaxFrame_def
        HardMaxFrameBytes_def)
  show ?thesis
    using readFrame_bounded [OF h] h by auto
qed

text \<open>C17: The four ways a frame can be refused, by the bytes on the wire: a zero length prefix, a
  length above the effective maximum (refused before its payload is read: only the four prefix
  bytes are consumed), a connection that ends inside the prefix and one that ends inside the
  payload. A connection cut exactly between the prefix and the payload is reported as plain
  \<open>EOF\<close>, like an orderly close.\<close>

theorem readFrame_refusals:
  "ReadFrame r m =
     (let bs = st_bytes r; n = unat (uint32BE bs); rest = drop 4 bs;
          cut = (\<lambda>k. if st_end r = EOF \<and> 0 < k then UnexpectedEOF else st_end r)
      in if length bs < 4 then (Inl (IOError (cut (length bs))), r\<lparr>st_bytes := []\<rparr>)
         else if n = 0 then (Inl ErrShortFrame, r\<lparr>st_bytes := rest\<rparr>)
         else if n > unat (effectiveMaxFrame m)
           then (Inl (ErrFrameTooLarge n (unat (effectiveMaxFrame m))), r\<lparr>st_bytes := rest\<rparr>)
         else if length rest < n then (Inl (IOError (cut (length rest))), r\<lparr>st_bytes := []\<rparr>)
         else (Inr \<lparr>f_type = hd rest, f_payload = tl (take n rest)\<rparr>, r\<lparr>st_bytes := drop n rest\<rparr>))"
proof (cases "length (st_bytes r) < 4")
  case True
  then show ?thesis
    by (auto simp: ReadFrame_def readFrame_def readFull_def Let_def)
next
  case False
  then have hdr: "uint32BE (take 4 (st_bytes r)) = uint32BE (st_bytes r)"
    using uint32BE_append [of "take 4 (st_bytes r)" "drop 4 (st_bytes r)"] by simp
  let ?n = "unat (uint32BE (st_bytes r))"
  have z: "uint32BE (st_bytes r) = 0 \<longleftrightarrow> ?n = 0" by (simp add: unat_eq_zero)
  have big: "(ucast (uint32BE (st_bytes r)) :: u64) > effectiveMaxFrame m \<longleftrightarrow> ?n > unat (effectiveMaxFrame m)"
    by (simp add: word_less_nat_alt)
  have hd: "take k bs ! 0 = hd bs" and tl: "drop (Suc 0) (take k bs) = tl (take k bs)"
    if "0 < k" "k \<le> length bs" for k :: nat and bs :: "byte list"
    using that by (cases bs; simp add: drop_Suc)+
  show ?thesis
  proof (cases "?n = 0 \<or> ?n > unat (effectiveMaxFrame m)")
    case True
    with False z big hdr show ?thesis
      by (auto simp: ReadFrame_def readFrame_def readFull_def Let_def)
  next
    case ok: False
    show ?thesis
    proof (cases "length (drop 4 (st_bytes r)) < ?n")
      case True
      with False z big hdr ok show ?thesis
        by (auto simp: ReadFrame_def readFrame_def readFull_def Let_def)
    next
      case enough: False
      then have "4 < length (st_bytes r)" using ok False by (simp, linarith)
      with enough False z big hdr ok hd tl show ?thesis
        by (simp add: ReadFrame_def readFrame_def readFull_def Let_def overwrite_def hd_drop_conv_nth)
    qed
  qed
qed

text \<open>\<open>DecodeChunk\<close> and \<open>EncodeChunk\<close> are inverse to each other, and \<open>DecodeChunk\<close> refuses exactly
  the payloads too short for a stream id.\<close>

theorem chunk_roundtrip:
  "DecodeChunk (EncodeChunk sid data) = Inr (sid, data)
   \<and> (DecodeChunk p = Inl ErrChunkTooShort \<longleftrightarrow> length p < 4)
   \<and> (case DecodeChunk p of Inl _ \<Rightarrow> True | Inr (s, d) \<Rightarrow> EncodeChunk s d = p)"
  by (auto simp: DecodeChunk_def EncodeChunk_def putUint32_uint32BE)

end
