(* ===== verification/Messages.thy ===== *)
theory Messages
  imports Wire
begin

text \<open>
  The messages of \<^verbatim>\<open>internal/hipproto/messages.go\<close>: one record per struct, the string enums as
  constants. The msgpack codec is a library outside the repository; it is the parameter
  \<open>codec\<close>: one decoder per message the gateway receives and one encoder for the messages it
  sends. \<open>hash_hex\<close> is the hex digest of the hash of the upload body; nothing is assumed of it but
  that it is a function of the bytes.
\<close>

section \<open>Messages the gateway receives\<close>

record hello =
  hl_proto :: string
  hl_version :: u32
  hl_bearer_token :: string
  hl_region :: string
  hl_app_version :: string
  hl_asset_version :: string
  hl_asset_hash :: string
  hl_run_id :: string
  hl_unpacker_version :: string
  hl_expected_max_frame :: u64

definition hello_zero :: hello where
  "hello_zero = \<lparr>hl_proto = [], hl_version = 0, hl_bearer_token = [], hl_region = [], hl_app_version = [],
     hl_asset_version = [], hl_asset_hash = [], hl_run_id = [], hl_unpacker_version = [],
     hl_expected_max_frame = 0\<rparr>"

record check_batch_item =
  ci_path :: string
  ci_fingerprint :: string
  ci_size :: u64
  ci_provider :: string

record check_batch =
  cb_batch_id :: u64
  cb_items :: "check_batch_item list"

record upload_begin =
  ub_stream_id :: u32
  ub_bundle_path :: string
  ub_path :: string
  ub_fingerprint :: string
  ub_size :: u64
  ub_content_type :: string

record upload_end =
  ue_stream_id :: u32
  ue_total_bytes :: u64
  ue_sha256 :: string

record commit_stats =
  cs_skipped_by_layer1 :: u64
  cs_skipped_by_check :: u64
  cs_uploaded_shared :: u64
  cs_uploaded_override :: u64

record commit_bundle_completion =
  cc_path :: string
  cc_fingerprint :: string
  cc_source :: string

record commit =
  cm_bundle_count :: u64
  cm_stats :: commit_stats
  cm_completed_bundles :: "commit_bundle_completion list"

record error_payload =
  ep_code :: string
  ep_message :: string
  ep_fatal :: bool

section \<open>Messages the gateway sends\<close>

record hello_ack =
  ha_session_id :: string
  ha_server_version :: string
  ha_max_frame :: u64
  ha_max_in_flight_uploads :: u32
  ha_sha256_required :: bool
  ha_known_version :: bool

record check_ack_item =
  ca_path :: string
  ca_action :: string
  ca_placement :: string

record check_result =
  cr_batch_id :: u64
  cr_results :: "check_ack_item list"

record upload_ack =
  ua_stream_id :: u32
  ua_status :: string
  ua_placement :: string
  ua_server_sha256 :: string
  ua_storage_key :: string
  ua_message :: string

record commit_ack =
  ck_version_id :: u64
  ck_override_index_rebuilt :: bool

text \<open>The arguments of \<open>send\<close>: no payload, or a message that is encoded.\<close>

datatype out_msg = MNone | MHelloAck hello_ack | MCheckResult check_result | MUploadAck upload_ack
  | MCommitAck commit_ack | MError error_payload

definition ActionSkip :: string where "ActionSkip = ''SKIP''"
definition ActionUpload :: string where "ActionUpload = ''UPLOAD''"
definition PlacementShared :: string where "PlacementShared = ''SHARED''"
definition PlacementOverride :: string where "PlacementOverride = ''OVERRIDE''"
definition UploadStatusOK :: string where "UploadStatusOK = ''OK''"
definition UploadStatusShaMismatch :: string where "UploadStatusShaMismatch = ''SHA_MISMATCH''"
definition UploadStatusSizeMismatch :: string where "UploadStatusSizeMismatch = ''SIZE_MISMATCH''"
definition UploadStatusRejected :: string where "UploadStatusRejected = ''REJECTED''"
definition ErrCodeAuthFailed :: string where "ErrCodeAuthFailed = ''AUTH_FAILED''"
definition ErrCodeProtoViolation :: string where "ErrCodeProtoViolation = ''PROTO_VIOLATION''"
definition ErrCodeInternal :: string where "ErrCodeInternal = ''INTERNAL''"

section \<open>The msgpack codec and the content hash\<close>

record codec =
  dec_hello :: "byte list \<Rightarrow> hello result"
  dec_check_batch :: "byte list \<Rightarrow> check_batch result"
  dec_upload_begin :: "byte list \<Rightarrow> upload_begin result"
  dec_upload_end :: "byte list \<Rightarrow> upload_end result"
  dec_commit :: "byte list \<Rightarrow> commit result"
  dec_error :: "byte list \<Rightarrow> error_payload result"
  enc_msg :: "out_msg \<Rightarrow> byte list result"
  hash_hex :: "byte list \<Rightarrow> string"

text \<open>\<^verbatim>\<open>json.Marshal\<close> of a \<open>CommitStats\<close>: the field names of the struct, in order (it has no
  json tags), and unsigned decimal numbers.\<close>

definition marshalCommitStats :: "commit_stats \<Rightarrow> string" where
  "marshalCommitStats c =
     [CHR 0x7B] @ [CHR 0x22] @ ''SkippedByLayer1'' @ [CHR 0x22] @ '':'' @ formatNat (unat (cs_skipped_by_layer1 c))
     @ '','' @ [CHR 0x22] @ ''SkippedByCheck'' @ [CHR 0x22] @ '':'' @ formatNat (unat (cs_skipped_by_check c))
     @ '','' @ [CHR 0x22] @ ''UploadedShared'' @ [CHR 0x22] @ '':'' @ formatNat (unat (cs_uploaded_shared c))
     @ '','' @ [CHR 0x22] @ ''UploadedOverride'' @ [CHR 0x22] @ '':'' @ formatNat (unat (cs_uploaded_override c)) @ [CHR 0x7D]"

end
