(* ===== verification/Keys.thy ===== *)
theory Keys
  imports GoStrings
begin

text \<open>
  \<^verbatim>\<open>internal/storage/keys.go\<close>, the only place that decides which object names the gateway
  touches in the filer, and the two path functions of \<^verbatim>\<open>internal/hipserver/session.go\<close>
  that feed it: \<open>safeStripInvisible\<close> and \<open>canonicalAssetPath\<close>.
\<close>

section \<open>storage/keys.go\<close>

datatype path_error = ErrBadPath

definition SafeRelPath :: "string \<Rightarrow> path_error + string" where
  "SafeRelPath p =
     (if p = [] then Inl ErrBadPath
      else if contains p [CHR 0x5C] \<or> contains p [CHR 0x00] then Inl ErrBadPath
      else if hasPrefix p ''/'' \<or> hasPrefix p ''.'' then Inl ErrBadPath
      else if list_ex (\<lambda>seg. seg = [] \<or> seg = ''.'' \<or> seg = ''..'') (strSplit CHR ''/'' p)
        then Inl ErrBadPath
      else if pathClean p \<noteq> p then Inl ErrBadPath
      else Inr p)"

definition SharedKey :: "string \<Rightarrow> string" where
  "SharedKey relPath = ''/shared-assets/'' @ relPath"

definition OverrideKey :: "string \<Rightarrow> string \<Rightarrow> string" where
  "OverrideKey server relPath = ''/overrides/'' @ server @ ''/'' @ relPath"

text \<open>The loop of \<open>itoa\<close> fills a ten-byte buffer from its end; \<open>acc\<close> is the part written.\<close>

function itoaLoop :: "u32 \<Rightarrow> string \<Rightarrow> string" where
  "itoaLoop u acc = (if u = 0 then acc else itoaLoop (u div 10) (char_of (48 + unat (u mod 10)) # acc))"
  by pat_completeness auto
termination
  by (relation "measure (\<lambda>(u, acc). unat u)")
    (auto simp: unat_div word_less_nat_alt unat_gt_0 intro!: div_less_dividend)

declare itoaLoop.simps [simp del]

definition itoa :: "u32 \<Rightarrow> string" where
  "itoa u = (if u = 0 then ''0'' else itoaLoop u [])"

definition TempKey :: "string \<Rightarrow> u32 \<Rightarrow> string" where
  "TempKey runID streamID = ''/tmp/'' @ runID @ ''/'' @ itoa streamID"

section \<open>hipserver/session.go: paths sent by the client\<close>

text \<open>\<^verbatim>\<open>strings.Map\<close> with a mapping that drops the runes below 0x20.\<close>

function safeStripInvisible :: "string \<Rightarrow> string" where
  "safeStripInvisible s =
     (if s = [] then []
      else (if fst (decodeRune s) < 32 then [] else runeBytes s)
           @ safeStripInvisible (drop (snd (decodeRune s)) s))"
  by pat_completeness auto
termination
  by (relation "measure length") (auto simp: decodeRune_width)

declare safeStripInvisible.simps [simp del]

definition canonicalAssetPath :: "string \<Rightarrow> string \<Rightarrow> path_error + string" where
  "canonicalAssetPath bundlePath0 assetPath0 =
     (let bundlePath = safeStripInvisible bundlePath0;
          assetPath = safeStripInvisible assetPath0
      in case SafeRelPath bundlePath of
           Inl e \<Rightarrow> Inl e
         | Inr _ \<Rightarrow>
             (case SafeRelPath assetPath of
                Inl e \<Rightarrow> Inl e
              | Inr _ \<Rightarrow>
                  if assetPath = bundlePath \<or> hasPrefix assetPath (bundlePath @ ''/'')
                  then Inr assetPath
                  else Inr (bundlePath @ ''/'' @ assetPath)))"

section \<open>What SafeRelPath accepts\<close>

text \<open>The documented contract, without the normalisation step.\<close>

definition safeSpec :: "string \<Rightarrow> bool" where
  "safeSpec p \<longleftrightarrow> p \<noteq> [] \<and> hd p \<noteq> CHR ''.'' \<and> CHR 0x5C \<notin> set p \<and> CHR 0x00 \<notin> set p
     \<and> list_all plainSeg (strSplit CHR ''/'' p)"

lemma list_ex_bad_seg:
  "list_ex (\<lambda>seg. seg = [] \<or> seg = ''.'' \<or> seg = ''..'') ss \<longleftrightarrow> \<not> list_all plainSeg ss"
  by (induction ss) (auto simp: plainSeg_def)

lemma plain_no_leading_slash:
  "list_all plainSeg (strSplit CHR ''/'' p) \<Longrightarrow> \<not> hasPrefix p ''/''"
  by (cases p) (auto simp: plainSeg_def)

lemma SafeRelPath_eq: "SafeRelPath p = (if safeSpec p then Inr p else Inl ErrBadPath)"
proof (cases "p = []")
  case True
  then show ?thesis by (simp add: SafeRelPath_def safeSpec_def)
next
  case False
  then have "hasPrefix p ''.'' \<longleftrightarrow> hd p = CHR ''.''" by (cases p) auto
  with False show ?thesis
    by (auto simp: SafeRelPath_def safeSpec_def contains_single list_ex_bad_seg
        plain_no_leading_slash pathClean_plain)
qed

lemma safeSpec_segs: "safeSpec p \<Longrightarrow> list_all plainSeg (strSplit CHR ''/'' p)"
  by (simp add: safeSpec_def)

lemma SafeRelPath_InrD: "SafeRelPath p = Inr q \<Longrightarrow> q = p \<and> safeSpec p"
  by (auto simp: SafeRelPath_eq split: if_splits)

lemma safeSpec_append: "safeSpec a \<Longrightarrow> safeSpec b \<Longrightarrow> safeSpec (a @ ''/'' @ b)"
  by (auto simp: safeSpec_def strSplit_append_sep)

section \<open>Decimal stream ids\<close>

lemma itoaLoop_formatNat: "u \<noteq> 0 \<Longrightarrow> itoaLoop u acc = formatNat (unat u) @ acc"
proof (induction u acc rule: itoaLoop.induct)
  case (1 u acc)
  show ?case
  proof (cases "unat u < 10")
    case True
    then have "unat (u div 10) = 0" and "unat (u mod 10) = unat u"
      by (simp_all add: unat_div unat_mod)
    then have "u div 10 = 0" by (simp add: unat_eq_zero)
    with "1.prems" True \<open>unat (u mod 10) = unat u\<close> show ?thesis
      by (simp add: itoaLoop.simps [of u] itoaLoop.simps [of 0] formatNat.simps [of "unat u"] digitChar_def)
  next
    case False
    then have "unat (u div 10) \<noteq> 0" by (simp add: unat_div)
    then have nz: "u div 10 \<noteq> 0" by auto
    have "itoaLoop u acc = itoaLoop (u div 10) (char_of (48 + unat (u mod 10)) # acc)"
      using "1.prems" by (simp add: itoaLoop.simps [of u])
    also have "\<dots> = formatNat (unat (u div 10)) @ char_of (48 + unat (u mod 10)) # acc"
      using "1.prems" nz by (rule "1.IH")
    also have "\<dots> = formatNat (unat u) @ acc"
      using False by (simp add: formatNat.simps [of "unat u"] digitChar_def unat_div unat_mod)
    finally show ?thesis .
  qed
qed

lemma char_of_48: "char_of (48::nat) = CHR ''0''"
  by code_simp

lemma itoa_formatNat: "itoa u = formatNat (unat u)"
  by (simp add: itoa_def itoaLoop_formatNat formatNat.simps [of 0] digitChar_def char_of_48)

lemma itoa_no_slash: "CHR ''/'' \<notin> set (itoa u)"
proof
  assume "CHR ''/'' \<in> set (itoa u)"
  then have "isDigit (CHR ''/'')"
    using formatNat_digits [of "unat u"] by (auto simp: itoa_formatNat list_all_iff)
  then show False by (simp add: isDigit_def)
qed

section \<open>Stripping control bytes\<close>

lemma safeStripInvisible_Nil [simp]: "safeStripInvisible [] = []"
  by (simp add: safeStripInvisible.simps)

lemma strip_no_control:
  "c \<in> set (safeStripInvisible s) \<Longrightarrow> 32 \<le> (of_char c :: nat)"
proof (induction s rule: safeStripInvisible.induct)
  case (1 s)
  show ?case
  proof (cases "s = [] \<or> c \<in> set (safeStripInvisible (drop (snd (decodeRune s)) s))")
    case True
    with 1 show ?thesis by (cases "s = []") auto
  next
    case False
    with "1.prems" have c: "c \<in> set (runeBytes s)" and r: "\<not> fst (decodeRune s) < 32" and ne: "s \<noteq> []"
      by (auto simp: safeStripInvisible.simps [of s] split: if_splits)
    show ?thesis
    proof (cases "(of_char (hd s) :: nat) < 128")
      case True
      with ne c r show ?thesis
        by (cases s) (auto simp: decodeRune_ascii runeBytes_def)
    next
      case False
      with runeBytes_high [OF ne _ c] show ?thesis by simp
    qed
  qed
qed

definition printableAscii :: "string \<Rightarrow> bool" where
  "printableAscii s \<longleftrightarrow> list_all (\<lambda>c. 32 \<le> (of_char c :: nat) \<and> (of_char c :: nat) < 128) s"

lemma strip_ascii: "printableAscii s \<Longrightarrow> safeStripInvisible s = s"
proof (induction s)
  case (Cons c s)
  then have "decodeRune (c # s) = (of_char c, 1)"
    by (simp add: decodeRune_ascii printableAscii_def)
  with Cons show ?case
    by (simp add: safeStripInvisible.simps [of "c # s"] runeBytes_def printableAscii_def)
qed simp

lemma strip_no_NUL: "CHR 0x00 \<notin> set (safeStripInvisible s)"
  using strip_no_control [of "CHR 0x00" s] by auto

section \<open>Key namespaces\<close>

lemma pathClean_rooted_plain:
  assumes "list_all plainSeg (strSplit CHR ''/'' p)"
  shows "pathClean (CHR ''/'' # p) = CHR ''/'' # p"
  using assms by (simp add: pathClean_def cleanSegs_plain)

lemma plain_SharedKey: "safeSpec p \<Longrightarrow> pathClean (SharedKey p) = SharedKey p"
  using pathClean_rooted_plain [of "''shared-assets'' @ CHR ''/'' # p"]
  by (simp add: SharedKey_def strSplit_append_sep safeSpec_def plainSeg_def)

lemma plain_OverrideKey:
  "safeSpec server \<Longrightarrow> safeSpec p \<Longrightarrow> pathClean (OverrideKey server p) = OverrideKey server p"
  using pathClean_rooted_plain [of "''overrides'' @ CHR ''/'' # server @ CHR ''/'' # p"]
  by (simp add: OverrideKey_def strSplit_append_sep safeSpec_def plainSeg_def)

lemma OverrideKey_inject:
  assumes "OverrideKey s p = OverrideKey s' p'" and "CHR ''/'' \<notin> set s" and "CHR ''/'' \<notin> set s'"
  shows "s = s' \<and> p = p'"
proof -
  have "s @ CHR ''/'' # p = s' @ CHR ''/'' # p'"
    using assms(1) by (simp add: OverrideKey_def)
  with assms(2,3) show ?thesis
    by (auto simp: append_eq_append_conv2 append_eq_Cons_conv Cons_eq_append_conv)
qed

lemma SharedKey_inject: "SharedKey p = SharedKey q \<longleftrightarrow> p = q"
  by (simp add: SharedKey_def)

lemma TempKey_inject: "TempKey r a = TempKey r b \<longleftrightarrow> a = b"
  by (auto simp: TempKey_def itoa_formatNat word_unat_eq_iff dest!: formatNat_inject)

lemma namespaces_disjoint:
  "SharedKey p \<noteq> OverrideKey s q" "SharedKey p \<noteq> TempKey r n" "OverrideKey s q \<noteq> TempKey r n"
  by (simp_all add: SharedKey_def OverrideKey_def TempKey_def)

lemma canonicalAssetPath_InrD:
  assumes "canonicalAssetPath b a = Inr p"
  shows "safeSpec (safeStripInvisible b)" and "safeSpec p"
    and "p = (let b' = safeStripInvisible b; a' = safeStripInvisible a
              in if a' = b' \<or> hasPrefix a' (b' @ ''/'') then a' else b' @ ''/'' @ a')"
proof -
  from assms have safe: "safeSpec (safeStripInvisible b)" "safeSpec (safeStripInvisible a)"
    and p: "p = (let b' = safeStripInvisible b; a' = safeStripInvisible a
              in if a' = b' \<or> hasPrefix a' (b' @ ''/'') then a' else b' @ ''/'' @ a')"
    by (auto simp: canonicalAssetPath_def Let_def SafeRelPath_eq split: if_splits)
  show "safeSpec p"
    unfolding p Let_def using safe safeSpec_append [OF safe] by (simp del: append_Cons append_Nil)
  show "safeSpec (safeStripInvisible b)" by (rule safe)
  show "p = (let b' = safeStripInvisible b; a' = safeStripInvisible a
              in if a' = b' \<or> hasPrefix a' (b' @ ''/'') then a' else b' @ ''/'' @ a')" by (rule p)
qed

section \<open>Properties\<close>

text \<open>C6: What \<open>SafeRelPath\<close> accepts: the non-empty paths that do not start with a slash or a dot, have no backslash and no NUL byte, and
  whose elements are neither empty nor \<open>.\<close> nor \<open>..\<close>. An accepted path is returned unchanged and is its own normal form, every other path is
  refused with \<open>ErrBadPath\<close>, and the final \<^verbatim>\<open>path.Clean\<close> comparison never refuses what the other checks let through. Two dots are refused only as a
  whole element: a path like \<^verbatim>\<open>event/a..b.webp\<close> is accepted, although the comment of the function and the README say that a path containing
  \<open>..\<close> is not.\<close>

theorem SafeRelPath_characterised:
  "SafeRelPath p =
     (if p \<noteq> [] \<and> hd p \<noteq> CHR ''.'' \<and> CHR 0x5C \<notin> set p \<and> CHR 0x00 \<notin> set p
         \<and> list_all (\<lambda>seg. seg \<noteq> [] \<and> seg \<noteq> ''.'' \<and> seg \<noteq> ''..'') (strSplit CHR ''/'' p)
      then Inr p else Inl ErrBadPath)
   \<and> (pathClean p = p \<or> SafeRelPath p = Inl ErrBadPath)
   \<and> SafeRelPath ''event/a..b.webp'' = Inr ''event/a..b.webp''"
proof (intro conjI)
  show "SafeRelPath p =
     (if p \<noteq> [] \<and> hd p \<noteq> CHR ''.'' \<and> CHR 0x5C \<notin> set p \<and> CHR 0x00 \<notin> set p
         \<and> list_all (\<lambda>seg. seg \<noteq> [] \<and> seg \<noteq> ''.'' \<and> seg \<noteq> ''..'') (strSplit CHR ''/'' p)
      then Inr p else Inl ErrBadPath)"
    using SafeRelPath_eq [of p] by (simp add: safeSpec_def plainSeg_def [abs_def])
  show "pathClean p = p \<or> SafeRelPath p = Inl ErrBadPath" by (simp add: SafeRelPath_def)
  show "SafeRelPath ''event/a..b.webp'' = Inr ''event/a..b.webp''" by code_simp
qed

text \<open>C15: A storage key built from accepted paths stays in its namespace under path
  normalisation: the filer resolving the key cannot leave \<^verbatim>\<open>/shared-assets\<close> or the server's
  directory under \<^verbatim>\<open>/overrides\<close>; and keys of different namespaces, or of different
  (server, path) pairs, are different objects.\<close>

theorem storage_keys_separated:
  assumes "SafeRelPath p = Inr p" and "SafeRelPath q = Inr q"
    and "SafeRelPath s = Inr s" and "SafeRelPath t = Inr t"
    and "CHR ''/'' \<notin> set s" and "CHR ''/'' \<notin> set t"
  shows "pathClean (SharedKey p) = SharedKey p
    \<and> pathClean (OverrideKey s p) = OverrideKey s p
    \<and> SharedKey p \<noteq> OverrideKey s q \<and> SharedKey p \<noteq> TempKey run n \<and> OverrideKey s p \<noteq> TempKey run n
    \<and> (SharedKey p = SharedKey q \<longleftrightarrow> p = q)
    \<and> (OverrideKey s p = OverrideKey t q \<longleftrightarrow> s = t \<and> p = q)
    \<and> (TempKey run n = TempKey run m \<longleftrightarrow> n = m)"
proof -
  have "safeSpec p" "safeSpec s"
    using assms SafeRelPath_InrD by blast+
  moreover have "OverrideKey s p = OverrideKey t q \<longleftrightarrow> s = t \<and> p = q"
    using OverrideKey_inject [OF _ assms(5,6)] by blast
  ultimately show ?thesis
    by (simp add: plain_SharedKey plain_OverrideKey namespaces_disjoint SharedKey_inject TempKey_inject)
qed

theorem storage_keys_separated_witness:
  "pathClean (SharedKey ''event/bg.webp'') = SharedKey ''event/bg.webp''
   \<and> (OverrideKey ''jp'' ''event/bg.webp'' = OverrideKey ''en'' ''event/bg.webp''
        \<longleftrightarrow> ''jp'' = ''en'' \<and> ''event/bg.webp'' = ''event/bg.webp'')"
proof -
  have h: "SafeRelPath ''event/bg.webp'' = Inr ''event/bg.webp''"
      "SafeRelPath ''jp'' = Inr ''jp''" "SafeRelPath ''en'' = Inr ''en''"
      "CHR ''/'' \<notin> set ''jp''" "CHR ''/'' \<notin> set ''en''"
    by code_simp+
  show ?thesis
    using storage_keys_separated [OF h(1) h(1) h(2) h(3) h(4) h(5)] by blast
qed

text \<open>The hand-written \<open>itoa\<close> prints the decimal digits of its argument, without leading
  zeros, and never needs more than the ten bytes of its buffer, for every 32-bit value.\<close>

theorem itoa_correct:
  "itoa u = formatNat (unat u) \<and> length (itoa u) \<le> 10 \<and> digitsVal (itoa u) = unat u"
proof -
  have "unat u < 2 ^ LENGTH(32)" by (rule unsigned_less)
  then have "unat u < 10 ^ 10" by simp
  then show ?thesis
    by (simp add: itoa_formatNat formatNat_length)
qed

text \<open>The public path an upload is stored under is always accepted by \<open>SafeRelPath\<close>, carries
  no byte below 0x20, and is the (stripped) bundle path itself or lies below it. For printable
  ASCII bundle paths, feeding the public path back in gives the same public path.\<close>

theorem canonicalAssetPath_sound:
  assumes "canonicalAssetPath b a = Inr p"
  shows "SafeRelPath p = Inr p
    \<and> (\<forall>c \<in> set p. 32 \<le> (of_char c :: nat))
    \<and> (p = safeStripInvisible b \<or> hasPrefix p (safeStripInvisible b @ ''/''))
    \<and> (printableAscii b \<and> printableAscii p \<longrightarrow> canonicalAssetPath b p = Inr p)"
proof -
  let ?b = "safeStripInvisible b" and ?a = "safeStripInvisible a"
  have sb: "safeSpec ?b" and sp: "safeSpec p"
    and p: "p = (if ?a = ?b \<or> hasPrefix ?a (?b @ ''/'') then ?a else ?b @ ''/'' @ ?a)"
    using canonicalAssetPath_InrD [OF assms] by (simp_all add: Let_def)
  have chars: "\<forall>c \<in> set p. 32 \<le> (of_char c :: nat)"
    using p by (auto split: if_splits dest: strip_no_control)
  have below: "p = ?b \<or> hasPrefix p (?b @ ''/'')"
    using p by (auto simp: hasPrefix_iff split: if_splits)
  have "canonicalAssetPath b p = Inr p" if "printableAscii b" "printableAscii p"
    using that below sp sb
    by (simp add: canonicalAssetPath_def strip_ascii SafeRelPath_eq)
  with sp chars below show ?thesis by (simp add: SafeRelPath_eq)
qed

theorem canonicalAssetPath_sound_witness:
  "SafeRelPath ''event/foo/bg.webp'' = Inr ''event/foo/bg.webp''
   \<and> canonicalAssetPath ''event/foo'' ''event/foo/bg.webp'' = Inr ''event/foo/bg.webp''"
proof -
  have h: "canonicalAssetPath ''event/foo'' ''bg.webp'' = Inr ''event/foo/bg.webp''"
      "printableAscii ''event/foo''" "printableAscii ''event/foo/bg.webp''"
    by code_simp+
  show ?thesis
    using canonicalAssetPath_sound [OF h(1)] h(2,3) by blast
qed

end
