(* ===== verification/Schema.thy ===== *)
theory Schema
  imports GoStrings
begin

text \<open>
  The SQLite tables of \<^verbatim>\<open>internal/store/schema.go\<close> as lists of rows, the Go structs that mirror
  them, and the database as the record of its tables. A unique key of the schema is a
  projection; what an upsert sets on conflict is an update function. Each table interprets
  the locale \<open>upsert_table\<close> of theory Prelude (\<open>replace_table\<close> where the conflict clause sets every
  column). \<^verbatim>\<open>AUTOINCREMENT\<close> is a counter per table that every \<^verbatim>\<open>INSERT\<close> advances, also one
  that ends in its conflict clause, as the engine draws the rowid before it checks
  constraints. Sizes, ids and Unix times are mathematical integers.
\<close>

section \<open>Rows\<close>

record asset =
  a_id :: int
  a_server :: string
  a_bundle_path :: string
  a_path :: string
  a_version :: string
  a_fingerprint :: string
  a_sha256 :: string
  a_size :: int
  a_is_override :: bool
  a_storage_key :: string
  a_created_at :: int

record cur_row =
  c_server :: string
  c_bundle_path :: string
  c_path :: string
  c_version :: string
  c_fingerprint :: string
  c_sha256 :: string
  c_size :: int
  c_is_override :: bool
  c_storage_key :: string
  c_updated_at :: int

record shared_row =
  s_path :: string
  s_bundle_path :: string
  s_version :: string
  s_fingerprint :: string
  s_sha256 :: string
  s_size :: int
  s_storage_key :: string
  s_updated_at :: int

record shared_bundle =
  sb_bundle_path :: string
  sb_fingerprint :: string
  sb_file_count :: int
  sb_total_size :: int
  sb_updated_at :: int

record override_bundle =
  ob_server :: string
  ob_bundle_path :: string
  ob_fingerprint :: string
  ob_file_count :: int
  ob_total_size :: int
  ob_updated_at :: int

record meta_row =
  m_key :: string
  m_value :: string

record version =
  v_id :: int
  v_server :: string
  v_app_version :: string
  v_asset_version :: string
  v_asset_hash :: string
  v_bundle_count :: int
  v_committed_at :: int
  v_stats_json :: string

record bundle_completion =
  bc_id :: int
  bc_version_id :: int
  bc_server :: string
  bc_asset_version :: string
  bc_asset_hash :: string
  bc_bundle_path :: string
  bc_fingerprint :: string
  bc_source :: string
  bc_completed_at :: int

record db =
  db_assets :: "asset list"
  db_asset_seq :: int
  db_current :: "cur_row list"
  db_shared :: "shared_row list"
  db_sbundles :: "shared_bundle list"
  db_obundles :: "override_bundle list"
  db_meta :: "meta_row list"
  db_versions :: "version list"
  db_version_seq :: int
  db_completions :: "bundle_completion list"
  db_completion_seq :: int

definition empty_db :: db where
  "empty_db = \<lparr>db_assets = [], db_asset_seq = 0, db_current = [], db_shared = [], db_sbundles = [],
     db_obundles = [], db_meta = [], db_versions = [], db_version_seq = 0, db_completions = [],
     db_completion_seq = 0\<rparr>"

text \<open>An asset row as a client's upload makes it, for concrete examples.\<close>

definition mkAsset :: "string \<Rightarrow> string \<Rightarrow> string \<Rightarrow> string \<Rightarrow> string \<Rightarrow> bool \<Rightarrow> string \<Rightarrow> asset" where
  "mkAsset server bp path ver fp ovr key = \<lparr>a_id = 0, a_server = server, a_bundle_path = bp, a_path = path,
     a_version = ver, a_fingerprint = fp, a_sha256 = fp, a_size = 10, a_is_override = ovr,
     a_storage_key = key, a_created_at = 0\<rparr>"

section \<open>Keys and conflict clauses\<close>

definition assetKey :: "asset \<Rightarrow> string \<times> string \<times> string" where
  "assetKey a = (a_server a, a_path a, a_version a)"

definition updAsset :: "asset \<Rightarrow> asset \<Rightarrow> asset" where
  "updAsset new old = old\<lparr>a_bundle_path := a_bundle_path new, a_fingerprint := a_fingerprint new,
     a_sha256 := a_sha256 new, a_size := a_size new, a_is_override := a_is_override new,
     a_storage_key := a_storage_key new\<rparr>"

definition curKey :: "cur_row \<Rightarrow> string \<times> string" where
  "curKey r = (c_server r, c_path r)"

definition updCur :: "cur_row \<Rightarrow> cur_row \<Rightarrow> cur_row" where
  "updCur new old = old\<lparr>c_bundle_path := c_bundle_path new, c_version := c_version new,
     c_fingerprint := c_fingerprint new, c_sha256 := c_sha256 new, c_size := c_size new,
     c_is_override := c_is_override new, c_storage_key := c_storage_key new,
     c_updated_at := c_updated_at new\<rparr>"

definition updShared :: "shared_row \<Rightarrow> shared_row \<Rightarrow> shared_row" where
  "updShared new old = old\<lparr>s_bundle_path := s_bundle_path new, s_version := s_version new,
     s_fingerprint := s_fingerprint new, s_sha256 := s_sha256 new, s_size := s_size new,
     s_storage_key := s_storage_key new, s_updated_at := s_updated_at new\<rparr>"

definition updSBundle :: "shared_bundle \<Rightarrow> shared_bundle \<Rightarrow> shared_bundle" where
  "updSBundle new old = old\<lparr>sb_fingerprint := sb_fingerprint new, sb_file_count := sb_file_count new,
     sb_total_size := sb_total_size new, sb_updated_at := sb_updated_at new\<rparr>"

definition obKey :: "override_bundle \<Rightarrow> string \<times> string" where
  "obKey r = (ob_server r, ob_bundle_path r)"

definition updOBundle :: "override_bundle \<Rightarrow> override_bundle \<Rightarrow> override_bundle" where
  "updOBundle new old = old\<lparr>ob_fingerprint := ob_fingerprint new, ob_file_count := ob_file_count new,
     ob_total_size := ob_total_size new, ob_updated_at := ob_updated_at new\<rparr>"

definition updMeta :: "meta_row \<Rightarrow> meta_row \<Rightarrow> meta_row" where
  "updMeta new old = old\<lparr>m_value := m_value new\<rparr>"

definition versionKey :: "version \<Rightarrow> string \<times> string \<times> string" where
  "versionKey v = (v_server v, v_asset_version v, v_asset_hash v)"

definition updVersion :: "version \<Rightarrow> version \<Rightarrow> version" where
  "updVersion new old = old\<lparr>v_app_version := v_app_version new, v_bundle_count := v_bundle_count new,
     v_committed_at := v_committed_at new, v_stats_json := v_stats_json new\<rparr>"

definition completionKey :: "bundle_completion \<Rightarrow> string \<times> string \<times> string \<times> string" where
  "completionKey c = (bc_server c, bc_asset_version c, bc_asset_hash c, bc_bundle_path c)"

definition updCompletion :: "bundle_completion \<Rightarrow> bundle_completion \<Rightarrow> bundle_completion" where
  "updCompletion new old = old\<lparr>bc_version_id := bc_version_id new, bc_fingerprint := bc_fingerprint new,
     bc_source := bc_source new, bc_completed_at := bc_completed_at new\<rparr>"

section \<open>The tables satisfy the upsert contract\<close>

interpretation assets_tbl: upsert_table assetKey updAsset
  by unfold_locales (simp add: assetKey_def updAsset_def)

interpretation current_tbl: replace_table curKey updCur
  by unfold_locales (simp_all add: curKey_def updCur_def)

interpretation shared_tbl: replace_table s_path updShared
  by unfold_locales (simp_all add: updShared_def)

interpretation sbundles_tbl: replace_table sb_bundle_path updSBundle
  by unfold_locales (simp_all add: updSBundle_def)

interpretation obundles_tbl: replace_table obKey updOBundle
  by unfold_locales (simp_all add: obKey_def updOBundle_def)

interpretation meta_tbl: replace_table m_key updMeta
  by unfold_locales (simp_all add: updMeta_def)

interpretation versions_tbl: upsert_table versionKey updVersion
  by unfold_locales (simp add: versionKey_def updVersion_def)

interpretation completions_tbl: upsert_table completionKey updCompletion
  by unfold_locales (simp add: completionKey_def updCompletion_def)

text \<open>The integrity constraints of the schema: unique keys, and ids drawn from the counters.\<close>

definition db_wf :: "db \<Rightarrow> bool" where
  "db_wf d \<longleftrightarrow> tbl_unique assetKey (db_assets d) \<and> tbl_unique a_id (db_assets d)
     \<and> list_all (\<lambda>a. 0 < a_id a \<and> a_id a \<le> db_asset_seq d) (db_assets d) \<and> 0 \<le> db_asset_seq d
     \<and> tbl_unique curKey (db_current d) \<and> tbl_unique s_path (db_shared d)
     \<and> tbl_unique sb_bundle_path (db_sbundles d) \<and> tbl_unique obKey (db_obundles d)
     \<and> tbl_unique m_key (db_meta d)
     \<and> tbl_unique versionKey (db_versions d) \<and> tbl_unique v_id (db_versions d)
     \<and> list_all (\<lambda>v. 0 < v_id v \<and> v_id v \<le> db_version_seq d) (db_versions d) \<and> 0 \<le> db_version_seq d
     \<and> tbl_unique completionKey (db_completions d)"

lemma db_wf_empty: "db_wf empty_db"
  by (simp add: db_wf_def empty_db_def tbl_unique_def)

end
