(* ===== verification/AssetStore.thy ===== *)
theory AssetStore
  imports Schema
begin

text \<open>
  The write side of \<^verbatim>\<open>internal/store\<close>: \<^verbatim>\<open>assets.go\<close>, \<^verbatim>\<open>bundles.go\<close>, \<^verbatim>\<open>versions.go\<close>, the index
  maintenance of \<^verbatim>\<open>readpath.go\<close> and the bundle aggregates of \<^verbatim>\<open>bundlebrowse.go\<close>. Every function
  takes the fault oracle of its statements (one number per statement of its body) and the
  clock value it reads, and returns the engine's error or its result.
\<close>

section \<open>Definitions\<close>

subsection \<open>bundlebrowse.go: aggregates of the current tables\<close>

definition sharedAgg :: "string \<Rightarrow> shared_row list \<Rightarrow> shared_bundle option" where
  "sharedAgg bp t =
     (let rows = filter (\<lambda>r. s_bundle_path r = bp) t
      in map_option (\<lambda>r. \<lparr>sb_bundle_path = bp, sb_fingerprint = s_fingerprint r,
             sb_file_count = int (length rows), sb_total_size = sum_list (map s_size rows),
             sb_updated_at = Max (set (map s_updated_at rows))\<rparr>)
           (first_by (\<lambda>r. (- s_updated_at r, s_path r)) rows))"

definition overrideAgg :: "string \<Rightarrow> string \<Rightarrow> cur_row list \<Rightarrow> override_bundle option" where
  "overrideAgg server bp t =
     (let rows = filter (\<lambda>r. c_server r = server \<and> c_bundle_path r = bp \<and> c_is_override r) t
      in map_option (\<lambda>r. \<lparr>ob_server = server, ob_bundle_path = bp, ob_fingerprint = c_fingerprint r,
             ob_file_count = int (length rows), ob_total_size = sum_list (map c_size rows),
             ob_updated_at = Max (set (map c_updated_at rows))\<rparr>)
           (first_by (\<lambda>r. (- c_updated_at r, c_path r)) rows))"

definition refreshBundleAggregates :: "sqlfault \<Rightarrow> asset \<Rightarrow> db \<Rightarrow> db result" where
  "refreshBundleAggregates f a d =
     (if a_bundle_path a = [] then Inr d
      else
        bindR (if a_is_override a then Inr d
               else exec (f 0)
                 (case sharedAgg (a_bundle_path a) (db_shared d) of
                    None \<Rightarrow> d
                  | Some b \<Rightarrow> d\<lparr>db_sbundles := tbl_upsert sb_bundle_path updSBundle b (db_sbundles d)\<rparr>))
          (\<lambda>d. bindR (exec (f 1)
                 (if \<exists>r \<in> set (db_current d). c_server r = a_server a \<and> c_bundle_path r = a_bundle_path a \<and> c_is_override r
                  then d
                  else d\<lparr>db_obundles := filter (\<lambda>b. obKey b \<noteq> (a_server a, a_bundle_path a)) (db_obundles d)\<rparr>))
             (\<lambda>d. exec (f 2)
                 (case overrideAgg (a_server a) (a_bundle_path a) (db_current d) of
                    None \<Rightarrow> d
                  | Some b \<Rightarrow> d\<lparr>db_obundles := tbl_upsert obKey updOBundle b (db_obundles d)\<rparr>))))"

subsection \<open>readpath.go: index maintenance\<close>

definition curOfAsset :: "asset \<Rightarrow> cur_row" where
  "curOfAsset a = \<lparr>c_server = a_server a, c_bundle_path = a_bundle_path a, c_path = a_path a,
     c_version = a_version a, c_fingerprint = a_fingerprint a, c_sha256 = a_sha256 a, c_size = a_size a,
     c_is_override = a_is_override a, c_storage_key = a_storage_key a, c_updated_at = a_created_at a\<rparr>"

definition sharedOfAsset :: "asset \<Rightarrow> shared_row" where
  "sharedOfAsset a = \<lparr>s_path = a_path a, s_bundle_path = a_bundle_path a, s_version = a_version a,
     s_fingerprint = a_fingerprint a, s_sha256 = a_sha256 a, s_size = a_size a,
     s_storage_key = a_storage_key a, s_updated_at = a_created_at a\<rparr>"

definition upsertCurrentAsset :: "string option \<Rightarrow> asset \<Rightarrow> db \<Rightarrow> db result" where
  "upsertCurrentAsset flt a d =
     exec flt (d\<lparr>db_current := tbl_upsert curKey updCur (curOfAsset a) (db_current d)\<rparr>)"

definition upsertCurrentSharedAsset :: "string option \<Rightarrow> asset \<Rightarrow> db \<Rightarrow> db result" where
  "upsertCurrentSharedAsset flt a d =
     exec flt (d\<lparr>db_shared := tbl_upsert s_path updShared (sharedOfAsset a) (db_shared d)\<rparr>)"

definition readIndexMaxAssetID :: string where
  "readIndexMaxAssetID = ''current_assets_max_id_v2''"

definition maxAssetID :: "db \<Rightarrow> int option" where
  "maxAssetID d = (if db_assets d = [] then None else Some (Max (set (map a_id (db_assets d)))))"

text \<open>\<^verbatim>\<open>SELECT MAX(id)\<close> with the NULL and negative cases mapped to 0.\<close>

definition LatestAssetID :: "sqlfault \<Rightarrow> db \<Rightarrow> nat result" where
  "LatestAssetID f d =
     bindR (exec (f 0) (maxAssetID d))
       (\<lambda>id. case id of None \<Rightarrow> Inr 0 | Some i \<Rightarrow> if i < 0 then Inr 0 else Inr (nat i))"

definition readIndexMetaMaxID :: "sqlfault \<Rightarrow> db \<Rightarrow> nat result" where
  "readIndexMetaMaxID f d =
     bindR (exec (f 0) (tbl_lookup m_key readIndexMaxAssetID (db_meta d)))
       (\<lambda>row. case row of
                None \<Rightarrow> Inr 0
              | Some r \<Rightarrow> (case parseUint64 (m_value r) of None \<Rightarrow> Inr 0 | Some v \<Rightarrow> Inr v))"

definition setReadIndexMetaMaxID :: "string option \<Rightarrow> nat \<Rightarrow> db \<Rightarrow> db result" where
  "setReadIndexMetaMaxID flt maxID d =
     exec flt (d\<lparr>db_meta := tbl_upsert m_key updMeta
        \<lparr>m_key = readIndexMaxAssetID, m_value = formatNat maxID\<rparr> (db_meta d)\<rparr>)"

definition MarkReadIndexCurrent :: "sqlfault \<Rightarrow> db \<Rightarrow> db result" where
  "MarkReadIndexCurrent f d =
     bindR (exec (f 0) (maxAssetID d))
       (\<lambda>id. case id of
                None \<Rightarrow> setReadIndexMetaMaxID (f 1) 0 d
              | Some i \<Rightarrow> if i < 0 then setReadIndexMetaMaxID (f 1) 0 d
                          else setReadIndexMetaMaxID (f 1) (nat i) d)"

subsection \<open>assets.go\<close>

record check_decision =
  cd_skip :: bool
  cd_placement :: string
  cd_shared_storage_key :: string
  cd_shared_reuse :: bool
  cd_bundle_reuse :: bool

definition cd_zero :: check_decision where
  "cd_zero = \<lparr>cd_skip = False, cd_placement = [], cd_shared_storage_key = [], cd_shared_reuse = False,
     cd_bundle_reuse = False\<rparr>"

definition CheckPath :: "sqlfault \<Rightarrow> db \<Rightarrow> string \<Rightarrow> string \<Rightarrow> string \<Rightarrow> check_decision result" where
  "CheckPath f d server path fingerprint =
     bindR (exec (f 0) (\<exists>a \<in> set (db_assets d). a_server a = server \<and> a_path a = path \<and> a_fingerprint a = fingerprint))
       (\<lambda>own. if own then Inr (cd_zero\<lparr>cd_skip := True\<rparr>)
        else bindR (exec (f 1) (first_by a_id (filter
                 (\<lambda>a. a_path a = path \<and> a_fingerprint a = fingerprint \<and> \<not> a_is_override a) (db_assets d))))
          (\<lambda>exact. case exact of
             Some r \<Rightarrow> Inr (cd_zero\<lparr>cd_skip := True, cd_shared_reuse := True, cd_shared_storage_key := a_storage_key r\<rparr>)
           | None \<Rightarrow>
               bindR (exec (f 2) (first_by (\<lambda>a. - a_id a) (filter
                   (\<lambda>a. a_path a = path \<and> \<not> a_is_override a) (db_assets d))))
                 (\<lambda>newest. case newest of
                    None \<Rightarrow> Inr (cd_zero\<lparr>cd_placement := ''SHARED''\<rparr>)
                  | Some r \<Rightarrow>
                      if a_fingerprint r = fingerprint
                      then Inr (cd_zero\<lparr>cd_skip := True, cd_shared_reuse := True, cd_shared_storage_key := a_storage_key r\<rparr>)
                      else Inr (cd_zero\<lparr>cd_placement := ''OVERRIDE''\<rparr>))))"

definition BundleCompleted :: "sqlfault \<Rightarrow> db \<Rightarrow> string \<Rightarrow> string \<Rightarrow> string \<Rightarrow> bool result" where
  "BundleCompleted f d server bundlePath fingerprint =
     exec (f 0) (\<exists>c \<in> set (db_completions d). bc_server c = server \<and> bc_bundle_path c = bundlePath
                    \<and> bc_fingerprint c = fingerprint)"

definition CheckBundle :: "sqlfault \<Rightarrow> db \<Rightarrow> string \<Rightarrow> string \<Rightarrow> string \<Rightarrow> check_decision result" where
  "CheckBundle f d server bundlePath fingerprint =
     bindR (BundleCompleted f d server bundlePath fingerprint)
       (\<lambda>completed. if completed then Inr (cd_zero\<lparr>cd_skip := True\<rparr>)
        else bindR (exec (f 1) (\<exists>a \<in> set (db_assets d). a_server a = server \<and> a_bundle_path a = bundlePath
                      \<and> a_fingerprint a = fingerprint))
          (\<lambda>own. if own then Inr (cd_zero\<lparr>cd_skip := True\<rparr>)
           else bindR (exec (f 2) (\<exists>a \<in> set (db_assets d). a_bundle_path a = bundlePath \<and> a_fingerprint a = fingerprint))
             (\<lambda>any. if any then Inr (cd_zero\<lparr>cd_skip := True, cd_bundle_reuse := True\<rparr>)
              else bindR (exec (f 3) (\<exists>c \<in> set (db_completions d). bc_bundle_path c = bundlePath \<and> bc_fingerprint c = fingerprint))
                (\<lambda>anyc. if anyc then Inr (cd_zero\<lparr>cd_skip := True, cd_bundle_reuse := True\<rparr>)
                 else bindR (exec (f 4) (first_by (\<lambda>a. - a_id a) (filter
                          (\<lambda>a. a_bundle_path a = bundlePath \<and> \<not> a_is_override a) (db_assets d))))
                   (\<lambda>newest. case newest of
                      None \<Rightarrow> Inr (cd_zero\<lparr>cd_placement := ''SHARED''\<rparr>)
                    | Some r \<Rightarrow>
                        if a_fingerprint r = fingerprint then Inr (cd_zero\<lparr>cd_skip := True\<rparr>)
                        else Inr (cd_zero\<lparr>cd_placement := ''OVERRIDE''\<rparr>))))))"

text \<open>The loop of \<open>ReusableBundleAssets\<close>: keep the first row of each path.\<close>

fun firstPerPath :: "string list \<Rightarrow> asset list \<Rightarrow> asset list" where
  "firstPerPath seen [] = []"
| "firstPerPath seen (a # as) =
     (if a_path a \<in> set seen then firstPerPath seen as
      else a # firstPerPath (a_path a # seen) as)"

definition ReusableBundleAssets :: "sqlfault \<Rightarrow> db \<Rightarrow> string \<Rightarrow> string \<Rightarrow> asset list result" where
  "ReusableBundleAssets f d bundlePath fingerprint =
     bindR (exec (f 0) (sort_key (\<lambda>a. (a_path a, a_is_override a, a_id a))
              (filter (\<lambda>a. a_bundle_path a = bundlePath \<and> a_fingerprint a = fingerprint \<and> a_storage_key a \<noteq> [])
                 (db_assets d))))
       (\<lambda>rows. exec (f 1) (firstPerPath [] rows))"

definition insertAssetRow :: "asset \<Rightarrow> db \<Rightarrow> db" where
  "insertAssetRow a d =
     d\<lparr>db_assets := tbl_upsert assetKey updAsset (a\<lparr>a_id := db_asset_seq d + 1\<rparr>) (db_assets d),
       db_asset_seq := db_asset_seq d + 1\<rparr>"

definition InsertAsset :: "sqlfault \<Rightarrow> int \<Rightarrow> asset \<Rightarrow> db \<Rightarrow> db result" where
  "InsertAsset f now a0 d =
     (let a = (if a_created_at a0 = 0 then a0\<lparr>a_created_at := now\<rparr> else a0)
      in bindR (exec (f 0) (insertAssetRow a d))
           (\<lambda>d. bindR (upsertCurrentAsset (f 1) a d)
             (\<lambda>d. bindR (if a_is_override a then Inr d else upsertCurrentSharedAsset (f 2) a d)
               (\<lambda>d. refreshBundleAggregates (\<lambda>i. f (3 + i)) a d))))"

definition ReusableAssetBySHA :: "sqlfault \<Rightarrow> db \<Rightarrow> string \<Rightarrow> asset option result" where
  "ReusableAssetBySHA f d sha =
     (if sha = [] then Inr None
      else exec (f 0) (first_by (\<lambda>a. (a_is_override a, a_id a))
             (filter (\<lambda>a. a_sha256 a = sha \<and> a_storage_key a \<noteq> []) (db_assets d))))"

definition CurrentByServerPath :: "sqlfault \<Rightarrow> db \<Rightarrow> string \<Rightarrow> string \<Rightarrow> asset option result" where
  "CurrentByServerPath f d server path =
     exec (f 0) (first_by (\<lambda>a. - a_id a) (filter (\<lambda>a. a_server a = server \<and> a_path a = path) (db_assets d)))"

subsection \<open>bundles.go and versions.go\<close>

definition BundleCompletionSourceUploaded :: string where
  "BundleCompletionSourceUploaded = ''uploaded''"

definition BundleCompletionSourceZeroFile :: string where
  "BundleCompletionSourceZeroFile = ''zero_file''"

definition BundleCompletionSourceCheckSkip :: string where
  "BundleCompletionSourceCheckSkip = ''check_skip''"

definition InsertBundleCompletion :: "sqlfault \<Rightarrow> int \<Rightarrow> bundle_completion \<Rightarrow> db \<Rightarrow> db result" where
  "InsertBundleCompletion f now c0 d =
     (let c = (if bc_completed_at c0 = 0 then c0\<lparr>bc_completed_at := now\<rparr> else c0)
      in exec (f 0) (d\<lparr>db_completions := tbl_upsert completionKey updCompletion
             (c\<lparr>bc_id := db_completion_seq d + 1\<rparr>) (db_completions d),
           db_completion_seq := db_completion_seq d + 1\<rparr>))"

definition InsertVersion :: "sqlfault \<Rightarrow> int \<Rightarrow> version \<Rightarrow> db \<Rightarrow> (int \<times> db) result" where
  "InsertVersion f now v0 d =
     (let v = (if v_committed_at v0 = 0 then v0\<lparr>v_committed_at := now\<rparr> else v0)
      in bindR (exec (f 0) (d\<lparr>db_versions := tbl_upsert versionKey updVersion
             (v\<lparr>v_id := db_version_seq d + 1\<rparr>) (db_versions d), db_version_seq := db_version_seq d + 1\<rparr>))
           (\<lambda>d. bindR (exec (f 1) (tbl_lookup versionKey (versionKey v) (db_versions d)))
             (\<lambda>row. case row of None \<Rightarrow> Inl ''sql: no rows in result set'' | Some r \<Rightarrow> Inr (v_id r, d))))"

definition KnownVersion :: "sqlfault \<Rightarrow> db \<Rightarrow> string \<Rightarrow> string \<Rightarrow> string \<Rightarrow> bool result" where
  "KnownVersion f d server assetVersion assetHash =
     exec (f 0) (\<exists>v \<in> set (db_versions d). v_server v = server \<and> v_asset_version v = assetVersion
                    \<and> v_asset_hash v = assetHash)"

section \<open>Writing one asset\<close>

text \<open>The row an insert leaves under its key, and the frame: nothing else of the tables changes.\<close>

definition stamped :: "int \<Rightarrow> asset \<Rightarrow> asset" where
  "stamped now a = (if a_created_at a = 0 then a\<lparr>a_created_at := now\<rparr> else a)"

lemma stamped_simps [simp]:
  "a_server (stamped now a) = a_server a" "a_path (stamped now a) = a_path a"
  "a_version (stamped now a) = a_version a" "a_bundle_path (stamped now a) = a_bundle_path a"
  "a_fingerprint (stamped now a) = a_fingerprint a" "a_sha256 (stamped now a) = a_sha256 a"
  "a_size (stamped now a) = a_size a" "a_is_override (stamped now a) = a_is_override a"
  "a_storage_key (stamped now a) = a_storage_key a"
  by (simp_all add: stamped_def)

lemma refreshBundleAggregates_frame:
  assumes "refreshBundleAggregates f a d = Inr d'"
  shows "db_assets d' = db_assets d" "db_asset_seq d' = db_asset_seq d" "db_current d' = db_current d"
    "db_shared d' = db_shared d" "db_meta d' = db_meta d" "db_versions d' = db_versions d"
    "db_version_seq d' = db_version_seq d" "db_completions d' = db_completions d"
    "db_completion_seq d' = db_completion_seq d"
  using assms
  by (auto simp: refreshBundleAggregates_def bindR_Inr_iff exec_Inr_iff split: if_splits option.splits)

lemma InsertAsset_tables:
  assumes "InsertAsset f now a d = Inr d'"
  shows "db_assets d' = tbl_upsert assetKey updAsset ((stamped now a)\<lparr>a_id := db_asset_seq d + 1\<rparr>) (db_assets d)"
    and "db_asset_seq d' = db_asset_seq d + 1"
    and "db_current d' = tbl_upsert curKey updCur (curOfAsset (stamped now a)) (db_current d)"
    and "db_shared d' = (if a_is_override a then db_shared d
           else tbl_upsert s_path updShared (sharedOfAsset (stamped now a)) (db_shared d))"
    and "db_meta d' = db_meta d" "db_versions d' = db_versions d" "db_version_seq d' = db_version_seq d"
    and "db_completions d' = db_completions d" "db_completion_seq d' = db_completion_seq d"
proof -
  let ?a = "stamped now a"
  let ?d2 = "(insertAssetRow ?a d)\<lparr>db_current := tbl_upsert curKey updCur (curOfAsset ?a) (db_current d)\<rparr>"
  let ?d3 = "if a_is_override a then ?d2
    else ?d2\<lparr>db_shared := tbl_upsert s_path updShared (sharedOfAsset ?a) (db_shared d)\<rparr>"
  from assms have "refreshBundleAggregates (\<lambda>i. f (3 + i)) ?a ?d3 = Inr d'"
    by (auto simp: InsertAsset_def Let_def stamped_def [symmetric] bindR_Inr_iff exec_Inr_iff
        upsertCurrentAsset_def upsertCurrentSharedAsset_def insertAssetRow_def split: if_splits)
  from refreshBundleAggregates_frame [OF this] show
    "db_assets d' = tbl_upsert assetKey updAsset (?a\<lparr>a_id := db_asset_seq d + 1\<rparr>) (db_assets d)"
    "db_asset_seq d' = db_asset_seq d + 1"
    "db_current d' = tbl_upsert curKey updCur (curOfAsset ?a) (db_current d)"
    "db_shared d' = (if a_is_override a then db_shared d
       else tbl_upsert s_path updShared (sharedOfAsset ?a) (db_shared d))"
    "db_meta d' = db_meta d" "db_versions d' = db_versions d" "db_version_seq d' = db_version_seq d"
    "db_completions d' = db_completions d" "db_completion_seq d' = db_completion_seq d"
    by (simp_all add: insertAssetRow_def)
qed

lemma InsertAsset_total: "\<exists>d'. InsertAsset no_fault now a d = Inr d'"
  by (simp add: InsertAsset_def Let_def upsertCurrentAsset_def upsertCurrentSharedAsset_def
      refreshBundleAggregates_def)

lemma InsertAsset_row:
  assumes "InsertAsset f now a d = Inr d'"
  shows "\<exists>r. tbl_lookup assetKey (assetKey a) (db_assets d') = Some r \<and> a_server r = a_server a
    \<and> a_path r = a_path a \<and> a_version r = a_version a \<and> a_bundle_path r = a_bundle_path a
    \<and> a_fingerprint r = a_fingerprint a \<and> a_sha256 r = a_sha256 a \<and> a_size r = a_size a
    \<and> a_is_override r = a_is_override a \<and> a_storage_key r = a_storage_key a"
proof -
  let ?new = "(stamped now a)\<lparr>a_id := db_asset_seq d + 1\<rparr>"
  have k: "assetKey ?new = assetKey a" by (simp add: assetKey_def)
  then have "tbl_lookup assetKey (assetKey a) (db_assets d') =
      Some (case tbl_lookup assetKey (assetKey a) (db_assets d) of None \<Rightarrow> ?new | Some old \<Rightarrow> updAsset ?new old)"
    using InsertAsset_tables(1) [OF assms] assets_tbl.lookup_upsert [of "assetKey a" ?new "db_assets d"]
    by simp
  then show ?thesis
    by (auto simp: updAsset_def assetKey_def dest!: tbl_lookup_SomeD split: option.splits)
qed

section \<open>Choosing reusable rows\<close>

lemma firstPerPath_subset: "set (firstPerPath seen as) \<subseteq> set as"
  by (induction seen as rule: firstPerPath.induct) auto

lemma firstPerPath_paths: "a_path ` set (firstPerPath seen as) = a_path ` set as - set seen"
  by (induction seen as rule: firstPerPath.induct) auto

lemma firstPerPath_least:
  fixes key :: "asset \<Rightarrow> 'k::linorder"
  assumes "sorted (map key as)" and "a \<in> set (firstPerPath seen as)" and "b \<in> set as" and "a_path b = a_path a"
  shows "key a \<le> key b"
  using assms
proof (induction seen as rule: firstPerPath.induct)
  case (2 seen c as)
  have notin: "a_path a \<notin> set seen"
    using "2.prems"(2) firstPerPath_paths [of seen "c # as"] by blast
  show ?case
  proof (cases "a = c")
    case True
    with "2.prems" show ?thesis by auto
  next
    case False
    with "2.prems"(2) firstPerPath_paths [of "a_path c # seen" as]
    have "b \<noteq> c \<and> a \<in> set (if a_path c \<in> set seen then firstPerPath seen as else firstPerPath (a_path c # seen) as)"
      using "2.prems"(4) notin by (auto split: if_splits)
    with 2 show ?thesis by (auto split: if_splits)
  qed
qed simp

lemma firstPerPath_sorted:
  assumes "sorted (map a_path as)"
  shows "sorted_wrt (<) (map a_path (firstPerPath seen as))"
  using assms
proof (induction seen as rule: firstPerPath.induct)
  case (2 seen c as)
  have "a_path c < a_path x" if "x \<in> set (firstPerPath (a_path c # seen) as)" for x
  proof -
    have "x \<in> set as" and "a_path x \<noteq> a_path c"
      using that firstPerPath_subset firstPerPath_paths [of "a_path c # seen" as] by fastforce+
    then show ?thesis using "2.prems" by (auto simp: order.order_iff_strict)
  qed
  with 2 show ?case by auto
qed simp

lemma sorted_lex_fst: "sorted (map (\<lambda>a. (f a, g a)) as) \<Longrightarrow> sorted (map f as)"
  by (induction as) (auto simp: less_eq_prod_def order.order_iff_strict)

section \<open>Decisions\<close>

text \<open>A decision reached despite the fault oracle is the decision without faults.\<close>

lemma CheckPath_fault_free: "CheckPath f d server path fp = Inr dec \<Longrightarrow> CheckPath no_fault d server path fp = Inr dec"
  by (auto simp: CheckPath_def bindR_Inr_iff exec_Inr_iff split: if_splits option.splits)

lemma CheckBundle_fault_free:
  "CheckBundle f d server bp fp = Inr dec \<Longrightarrow> CheckBundle no_fault d server bp fp = Inr dec"
  by (auto simp: CheckBundle_def BundleCompleted_def bindR_Inr_iff exec_Inr_iff split: if_splits option.splits)

lemma CheckPath_total: "\<exists>dec. CheckPath no_fault d server path fp = Inr dec"
  by (simp add: CheckPath_def split: option.splits)

lemma CheckBundle_total: "\<exists>dec. CheckBundle no_fault d server bp fp = Inr dec"
  by (simp add: CheckBundle_def BundleCompleted_def split: option.splits)

lemma first_by_filter_None: "first_by key (filter P t) = None \<longleftrightarrow> (\<forall>a \<in> set t. \<not> P a)"
  by (auto simp: first_by_None_iff filter_empty_conv)

lemma first_by_filter_SomeD:
  assumes "first_by key (filter P t) = Some r"
  shows "r \<in> set t" "P r" "\<And>x. x \<in> set t \<Longrightarrow> P x \<Longrightarrow> key r \<le> key x"
  using first_by_SomeD [OF assms] by auto

text \<open>The four ways \<open>CheckPath\<close> decides.\<close>

lemma CheckPath_cases:
  assumes "CheckPath f d server path fp = Inr dec"
  obtains (own) "\<exists>a \<in> set (db_assets d). a_server a = server \<and> a_path a = path \<and> a_fingerprint a = fp" "dec = cd_zero\<lparr>cd_skip := True\<rparr>"
  | (reuse) r where "\<not> (\<exists>a \<in> set (db_assets d). a_server a = server \<and> a_path a = path \<and> a_fingerprint a = fp)"
      "first_by a_id (filter (\<lambda>a. a_path a = path \<and> a_fingerprint a = fp \<and> \<not> a_is_override a) (db_assets d)) = Some r"
      "dec = cd_zero\<lparr>cd_skip := True, cd_shared_reuse := True, cd_shared_storage_key := a_storage_key r\<rparr>"
  | (fresh) "\<not> (\<exists>a \<in> set (db_assets d). a_server a = server \<and> a_path a = path \<and> a_fingerprint a = fp)"
      "\<forall>a \<in> set (db_assets d). \<not> (a_path a = path \<and> \<not> a_is_override a)" "dec = cd_zero\<lparr>cd_placement := ''SHARED''\<rparr>"
  | (differs) r where "\<not> (\<exists>a \<in> set (db_assets d). a_server a = server \<and> a_path a = path \<and> a_fingerprint a = fp)"
      "\<forall>a \<in> set (db_assets d). \<not> (a_path a = path \<and> a_fingerprint a = fp \<and> \<not> a_is_override a)"
      "r \<in> set (db_assets d)" "a_path r = path" "\<not> a_is_override r" "dec = cd_zero\<lparr>cd_placement := ''OVERRIDE''\<rparr>"
proof -
  let ?own = "\<exists>a \<in> set (db_assets d). a_server a = server \<and> a_path a = path \<and> a_fingerprint a = fp"
  let ?exact = "first_by a_id (filter (\<lambda>a. a_path a = path \<and> a_fingerprint a = fp \<and> \<not> a_is_override a) (db_assets d))"
  let ?base = "first_by (\<lambda>a. - a_id a) (filter (\<lambda>a. a_path a = path \<and> \<not> a_is_override a) (db_assets d))"
  note dec = CheckPath_fault_free [OF assms]
  consider ?own | r where "\<not> ?own" "?exact = Some r" | "\<not> ?own" "?exact = None" "?base = None" | r where "\<not> ?own" "?exact = None" "?base = Some r"
    by fastforce
  then show thesis
  proof cases
    case 4
    have r: "r \<in> set (db_assets d)" "a_path r = path" "\<not> a_is_override r" using first_by_filter_SomeD [OF 4(3)] by auto
    moreover have "a_fingerprint r \<noteq> fp" using r 4(2) by (auto simp: first_by_filter_None)
    moreover from this have "dec = cd_zero\<lparr>cd_placement := ''OVERRIDE''\<rparr>" 
      using dec 4(2,3) unfolding CheckPath_def exec_simps bindR_simps if_not_P [OF 4(1)] by simp
    moreover have "\<forall>a \<in> set (db_assets d). \<not> (a_path a = path \<and> a_fingerprint a = fp \<and> \<not> a_is_override a)"
      using 4(2) unfolding first_by_filter_None .
    ultimately show thesis using 4(1) by (intro differs [of r])
  next
    case 1
    then have "dec = cd_zero\<lparr>cd_skip := True\<rparr>" using dec by (simp add: CheckPath_def)
    with 1 show thesis by (rule own)
  next
    case (2 r)
    then have "dec = cd_zero\<lparr>cd_skip := True, cd_shared_reuse := True, cd_shared_storage_key := a_storage_key r\<rparr>"
      using dec unfolding CheckPath_def exec_simps bindR_simps if_not_P [OF 2(1)] by simp
    with 2 show thesis by (rule reuse)
  next
    case 3
    then have "dec = cd_zero\<lparr>cd_placement := ''SHARED''\<rparr>"
      using dec unfolding CheckPath_def exec_simps bindR_simps if_not_P [OF 3(1)] by simp
    then show thesis using 3(1) 3(3) [unfolded first_by_filter_None] by (intro fresh)
  qed
qed

section \<open>Properties\<close>

text \<open>C7: The placement decision for one file, on every branch: the server skips exactly when this
  region already has the (path, fingerprint) or some region's shared row has it; it records a
  shared reuse exactly in the second case, and then with the storage key of the oldest such
  row; otherwise the file goes to the shared baseline if the path has none and to an override
  if it has one. The branch that compares the newest baseline's fingerprint never decides
  anything new, and an engine error is the only way to get no decision.\<close>

theorem CheckPath_decision:
  assumes "CheckPath f d server path fp = Inr dec"
  shows "(let own = \<exists>a \<in> set (db_assets d). a_server a = server \<and> a_path a = path \<and> a_fingerprint a = fp;
              exact = {a \<in> set (db_assets d). a_path a = path \<and> a_fingerprint a = fp \<and> \<not> a_is_override a};
              base = {a \<in> set (db_assets d). a_path a = path \<and> \<not> a_is_override a}
          in (cd_skip dec \<longleftrightarrow> own \<or> exact \<noteq> {})
             \<and> (cd_shared_reuse dec \<longleftrightarrow> \<not> own \<and> exact \<noteq> {})
             \<and> (if cd_shared_reuse dec
                then \<exists>a \<in> exact. cd_shared_storage_key dec = a_storage_key a \<and> (\<forall>b \<in> exact. a_id a \<le> a_id b)
                else cd_shared_storage_key dec = [])
             \<and> cd_placement dec = (if cd_skip dec then [] else if base = {} then ''SHARED'' else ''OVERRIDE'')
             \<and> \<not> cd_bundle_reuse dec)"
using assms
proof (cases rule: CheckPath_cases)
  case (reuse r)
  have "r \<in> {a \<in> set (db_assets d). a_path a = path \<and> a_fingerprint a = fp \<and> \<not> a_is_override a}"
    "\<forall>b \<in> {a \<in> set (db_assets d). a_path a = path \<and> a_fingerprint a = fp \<and> \<not> a_is_override a}. a_id r \<le> a_id b"
    using first_by_filter_SomeD [OF reuse(2)] by auto
  then show ?thesis using reuse by (simp add: Let_def cd_zero_def) blast
next
  case (differs r)
  then have "{a \<in> set (db_assets d). a_path a = path \<and> \<not> a_is_override a} \<noteq> {}" by blast
  then show ?thesis using differs(1,2,6) by (auto simp: Let_def cd_zero_def)
next
  case fresh
  then have "{a \<in> set (db_assets d). a_path a = path \<and> \<not> a_is_override a} = {}" by blast
  then show ?thesis using fresh by (auto simp: Let_def cd_zero_def)
qed (simp add: Let_def cd_zero_def)

theorem CheckPath_decision_witness:
  "\<exists>d dec. InsertAsset no_fault 7 (mkAsset ''jp'' ''a'' ''a/b'' ''v1'' ''f1'' False ''/shared-assets/a/b'') empty_db = Inr d
     \<and> CheckPath no_fault d ''en'' ''a/b'' ''f1'' = Inr dec
     \<and> cd_shared_reuse dec \<and> cd_shared_storage_key dec = ''/shared-assets/a/b''"
proof -
  obtain d where d: "InsertAsset no_fault 7 (mkAsset ''jp'' ''a'' ''a/b'' ''v1'' ''f1'' False ''/shared-assets/a/b'') empty_db = Inr d"
    using InsertAsset_total by blast
  obtain dec where h: "CheckPath no_fault d ''en'' ''a/b'' ''f1'' = Inr dec"
    using CheckPath_total by blast
  have "db_assets d = [(mkAsset ''jp'' ''a'' ''a/b'' ''v1'' ''f1'' False ''/shared-assets/a/b'')\<lparr>a_created_at := 7, a_id := 1\<rparr>]"
    using InsertAsset_tables(1) [OF d] by (simp add: empty_db_def mkAsset_def stamped_def tbl_upsert_def)
  then show ?thesis
    using CheckPath_decision [OF h] h d by (auto simp: Let_def mkAsset_def)
qed

text \<open>The pre-download decision for one bundle, on every branch: skip exactly when some region
  has committed this bundle fingerprint, as an asset row or as a completion; a metadata clone
  is scheduled exactly when only other regions have; otherwise shared or override placement by
  whether the bundle has a shared row.\<close>

theorem CheckBundle_decision:
  assumes "CheckBundle f d server bp fp = Inr dec"
  shows "(let rows = {a \<in> set (db_assets d). a_bundle_path a = bp \<and> a_fingerprint a = fp};
              done = {c \<in> set (db_completions d). bc_bundle_path c = bp \<and> bc_fingerprint c = fp};
              own = (\<exists>a \<in> rows. a_server a = server) \<or> (\<exists>c \<in> done. bc_server c = server);
              base = {a \<in> set (db_assets d). a_bundle_path a = bp \<and> \<not> a_is_override a}
          in (cd_skip dec \<longleftrightarrow> rows \<noteq> {} \<or> done \<noteq> {})
             \<and> (cd_bundle_reuse dec \<longleftrightarrow> cd_skip dec \<and> \<not> own)
             \<and> cd_placement dec = (if cd_skip dec then [] else if base = {} then ''SHARED'' else ''OVERRIDE'')
             \<and> \<not> cd_shared_reuse dec)"
proof -
  let ?rows = "{a \<in> set (db_assets d). a_bundle_path a = bp \<and> a_fingerprint a = fp}"
  let ?done = "{c \<in> set (db_completions d). bc_bundle_path c = bp \<and> bc_fingerprint c = fp}"
  let ?Q = "\<lambda>a. a_bundle_path a = bp \<and> \<not> a_is_override a"
  have dec: "CheckBundle no_fault d server bp fp = Inr dec"
    using assms by (rule CheckBundle_fault_free)
  show ?thesis
  proof (cases "?rows = {} \<and> ?done = {}")
    case True
    then have no: "\<forall>a \<in> set (db_assets d). \<not> (a_bundle_path a = bp \<and> a_fingerprint a = fp)"
      "\<forall>c \<in> set (db_completions d). \<not> (bc_bundle_path c = bp \<and> bc_fingerprint c = fp)"
      by auto
    have "dec = cd_zero\<lparr>cd_placement := (if {a \<in> set (db_assets d). ?Q a} = {} then ''SHARED'' else ''OVERRIDE'')\<rparr>"
    proof (cases "first_by (\<lambda>a. - a_id a) (filter ?Q (db_assets d))")
      case None
      then have "{a \<in> set (db_assets d). ?Q a} = {}" by (auto simp: first_by_filter_None)
      with None show ?thesis
        using dec no by (simp add: CheckBundle_def BundleCompleted_def)
    next
      case (Some r)
      have r: "r \<in> set (db_assets d)" "?Q r" using first_by_filter_SomeD [OF Some] by auto
      then have "{a \<in> set (db_assets d). ?Q a} \<noteq> {}" "a_fingerprint r \<noteq> fp" using no by blast+
      with Some show ?thesis
        using dec no by (auto simp: CheckBundle_def BundleCompleted_def)
    qed
    with True show ?thesis by (simp add: Let_def cd_zero_def)
  next
    case False
    let ?own = "(\<exists>a \<in> ?rows. a_server a = server) \<or> (\<exists>c \<in> ?done. bc_server c = server)"
    have "dec = cd_zero\<lparr>cd_skip := True, cd_bundle_reuse := \<not> ?own\<rparr>"
    proof (cases ?own)
      case True
      then consider "\<exists>c \<in> set (db_completions d). bc_server c = server \<and> bc_bundle_path c = bp \<and> bc_fingerprint c = fp"
        | "\<exists>a \<in> set (db_assets d). a_server a = server \<and> a_bundle_path a = bp \<and> a_fingerprint a = fp"
        by blast
      then have "dec = cd_zero\<lparr>cd_skip := True\<rparr>"
        using dec by cases (simp_all add: CheckBundle_def BundleCompleted_def split: if_splits)
      with True show ?thesis by (simp add: cd_zero_def)
    next
      case no: False
      then have "\<not> (\<exists>c \<in> set (db_completions d). bc_server c = server \<and> bc_bundle_path c = bp \<and> bc_fingerprint c = fp)"
        "\<not> (\<exists>a \<in> set (db_assets d). a_server a = server \<and> a_bundle_path a = bp \<and> a_fingerprint a = fp)"
        by blast+
      note own = this
      from False consider "\<exists>a \<in> set (db_assets d). a_bundle_path a = bp \<and> a_fingerprint a = fp"
        | "\<exists>c \<in> set (db_completions d). bc_bundle_path c = bp \<and> bc_fingerprint c = fp"
        by blast
      then have "dec = cd_zero\<lparr>cd_skip := True, cd_bundle_reuse := True\<rparr>"
        using dec own by cases (simp_all add: CheckBundle_def BundleCompleted_def split: if_splits)
      with no show ?thesis by simp
    qed
    with False show ?thesis by (auto simp: Let_def cd_zero_def)
  qed
qed

theorem CheckBundle_decision_witness:
  "\<exists>d dec. InsertAsset no_fault 7 (mkAsset ''jp'' ''a'' ''a/b'' ''v1'' ''f1'' False ''/shared-assets/a/b'') empty_db = Inr d
     \<and> CheckBundle no_fault d ''en'' ''a'' ''f2'' = Inr dec \<and> cd_placement dec = ''OVERRIDE''"
proof -
  obtain d where d: "InsertAsset no_fault 7 (mkAsset ''jp'' ''a'' ''a/b'' ''v1'' ''f1'' False ''/shared-assets/a/b'') empty_db = Inr d"
    using InsertAsset_total by blast
  obtain dec where h: "CheckBundle no_fault d ''en'' ''a'' ''f2'' = Inr dec"
    using CheckBundle_total by blast
  have "db_assets d = [(mkAsset ''jp'' ''a'' ''a/b'' ''v1'' ''f1'' False ''/shared-assets/a/b'')\<lparr>a_created_at := 7, a_id := 1\<rparr>]"
    "db_completions d = []"
    using InsertAsset_tables(1,8) [OF d] by (simp_all add: empty_db_def mkAsset_def stamped_def tbl_upsert_def)
  then show ?thesis
    using CheckBundle_decision [OF h] h d by (auto simp: Let_def mkAsset_def)
qed

text \<open>\<open>ReusableBundleAssets\<close> returns one row per public path of the bundle fingerprint, in strictly
  increasing path order, covering every such path that has a storage key, and for each path the
  best row: a shared one if there is one, the oldest among equals.\<close>

theorem ReusableBundleAssets_best:
  assumes "ReusableBundleAssets f d bp fp = Inr out"
  shows "(let rows = {a \<in> set (db_assets d). a_bundle_path a = bp \<and> a_fingerprint a = fp \<and> a_storage_key a \<noteq> []}
          in set out \<subseteq> rows \<and> a_path ` set out = a_path ` rows
             \<and> sorted_wrt (<) (map a_path out)
             \<and> (\<forall>a \<in> set out. \<forall>b \<in> rows. a_path b = a_path a \<longrightarrow>
                   (a_is_override a, a_id a) \<le> (a_is_override b, a_id b)))"
proof -
  let ?P = "\<lambda>a. a_bundle_path a = bp \<and> a_fingerprint a = fp \<and> a_storage_key a \<noteq> []"
  let ?key = "\<lambda>a. (a_path a, a_is_override a, a_id a)"
  let ?rows = "sort_key ?key (filter ?P (db_assets d))"
  from assms have out: "out = firstPerPath [] ?rows"
    by (simp add: ReusableBundleAssets_def bindR_Inr_iff exec_Inr_iff)
  have sorted: "sorted (map ?key ?rows)" by (rule sorted_sort_key)
  have set: "set ?rows = {a \<in> set (db_assets d). ?P a}" by auto
  have "set out \<subseteq> {a \<in> set (db_assets d). ?P a}"
    using firstPerPath_subset [of "[]" ?rows] set out by simp
  moreover have "a_path ` set out = a_path ` {a \<in> set (db_assets d). ?P a}"
    using firstPerPath_paths [of "[]" ?rows] set out by simp
  moreover have "sorted_wrt (<) (map a_path out)"
    unfolding out by (rule firstPerPath_sorted) (rule sorted_lex_fst [OF sorted])
  moreover have "(a_is_override a, a_id a) \<le> (a_is_override b, a_id b)"
    if "a \<in> set out" "b \<in> {a \<in> set (db_assets d). ?P a}" "a_path b = a_path a" for a b
  proof -
    have "?key a \<le> ?key b"
      using firstPerPath_least [OF sorted, of a "[]" b] that set out by blast
    with that(3) show ?thesis by (simp add: less_eq_prod_def)
  qed
  ultimately show ?thesis unfolding Let_def by blast
qed

theorem ReusableBundleAssets_best_witness:
  "\<exists>d out. InsertAsset no_fault 7 (mkAsset ''jp'' ''a'' ''a/b'' ''v1'' ''f1'' False ''/shared-assets/a/b'') empty_db = Inr d
     \<and> ReusableBundleAssets no_fault d ''a'' ''f1'' = Inr out \<and> a_path ` set out = {''a/b''}"
proof -
  obtain d where d: "InsertAsset no_fault 7 (mkAsset ''jp'' ''a'' ''a/b'' ''v1'' ''f1'' False ''/shared-assets/a/b'') empty_db = Inr d"
    using InsertAsset_total by blast
  obtain out where h: "ReusableBundleAssets no_fault d ''a'' ''f1'' = Inr out"
    by (simp add: ReusableBundleAssets_def)
  have rows: "db_assets d = [(mkAsset ''jp'' ''a'' ''a/b'' ''v1'' ''f1'' False ''/shared-assets/a/b'')\<lparr>a_created_at := 7, a_id := 1\<rparr>]"
    using InsertAsset_tables(1) [OF d] by (simp add: empty_db_def mkAsset_def stamped_def tbl_upsert_def)
  then have "{a \<in> set (db_assets d). a_bundle_path a = ''a'' \<and> a_fingerprint a = ''f1'' \<and> a_storage_key a \<noteq> []} = set (db_assets d)"
    by (auto simp: mkAsset_def)
  with rows show ?thesis
    using ReusableBundleAssets_best [OF h] h d by (auto simp: Let_def mkAsset_def)
qed

text \<open>A version row keeps its identity: the id \<open>InsertVersion\<close> returns is the id stored under
  (server, asset version, asset hash), a re-commit of the same triple returns the same id
  whatever else it carries, the first commit of a triple gets an id no row had before, and
  afterwards \<open>KnownVersion\<close> answers true.\<close>

theorem InsertVersion_identity:
  assumes "InsertVersion f now v d = Inr (i, d')" and "db_wf d"
  shows "(\<exists>r. tbl_lookup versionKey (versionKey v) (db_versions d') = Some r \<and> v_id r = i)
    \<and> (case tbl_lookup versionKey (versionKey v) (db_versions d) of
          Some old \<Rightarrow> i = v_id old
        | None \<Rightarrow> \<forall>w \<in> set (db_versions d). v_id w < i)
    \<and> KnownVersion no_fault d' (v_server v) (v_asset_version v) (v_asset_hash v) = Inr True"
proof -
  let ?v = "(if v_committed_at v = 0 then v\<lparr>v_committed_at := now\<rparr> else v)\<lparr>v_id := db_version_seq d + 1\<rparr>"
  have k: "versionKey ?v = versionKey v" by (simp add: versionKey_def)
  from assms(1) obtain r where
      r: "tbl_lookup versionKey (versionKey v) (db_versions d') = Some r" "v_id r = i"
    and d': "db_versions d' = tbl_upsert versionKey updVersion ?v (db_versions d)"
    by (auto simp: InsertVersion_def Let_def bindR_Inr_iff exec_Inr_iff versionKey_def
        split: option.splits if_splits)
  have "r = (case tbl_lookup versionKey (versionKey v) (db_versions d) of None \<Rightarrow> ?v | Some old \<Rightarrow> updVersion ?v old)"
    using r(1) d' versions_tbl.lookup_upsert [of "versionKey v" ?v "db_versions d"] k by simp
  moreover have "\<forall>w \<in> set (db_versions d). v_id w < db_version_seq d + 1"
    using assms(2) by (auto simp: db_wf_def list_all_iff)
  moreover have "r \<in> set (db_versions d') \<and> versionKey r = versionKey v"
    using r(1) by (auto dest: tbl_lookup_SomeD)
  then have "KnownVersion no_fault d' (v_server v) (v_asset_version v) (v_asset_hash v) = Inr True"
    by (auto simp: KnownVersion_def versionKey_def)
  ultimately show ?thesis
    using r by (auto simp: updVersion_def split: option.splits)
qed

theorem InsertVersion_identity_witness:
  "\<exists>i d'. InsertVersion no_fault 5 \<lparr>v_id = 0, v_server = ''jp'', v_app_version = ''6'', v_asset_version = ''6.0'',
       v_asset_hash = ''h'', v_bundle_count = 0, v_committed_at = 0, v_stats_json = []\<rparr> empty_db = Inr (i, d')
     \<and> KnownVersion no_fault d' ''jp'' ''6.0'' ''h'' = Inr True"
proof -
  let ?v = "\<lparr>v_id = 0, v_server = ''jp'', v_app_version = ''6'', v_asset_version = ''6.0'',
       v_asset_hash = ''h'', v_bundle_count = 0, v_committed_at = 0, v_stats_json = []\<rparr>"
  obtain i d' where h: "InsertVersion no_fault 5 ?v empty_db = Inr (i, d')"
    by (simp add: InsertVersion_def Let_def empty_db_def tbl_upsert_def versionKey_def)
  show ?thesis
    using InsertVersion_identity [OF h db_wf_empty] h by auto
qed

end
