(* ===== verification/ReadPath.thy ===== *)
theory ReadPath
  imports AssetStore
begin

text \<open>
  The read side of \<^verbatim>\<open>internal/store/readpath.go\<close>: which stored object answers a public path for
  a server, and the materialised tables that make the answer cheap. \<open>EnsureReadIndexes\<close>
  recomputes the tables from the asset history; \<open>InsertAsset\<close> (theory AssetStore) maintains
  them row by row. The invariants \<open>index_ok\<close> and \<open>bundles_ok\<close> say that the tables are what the
  recomputation would give.
\<close>

section \<open>Definitions\<close>

record placement =
  p_found :: bool
  p_from_shared :: bool
  p_fingerprint :: string
  p_storage_key :: string
  p_sha256 :: string
  p_version :: string
  p_size :: int

definition placement_zero :: placement where
  "placement_zero = \<lparr>p_found = False, p_from_shared = False, p_fingerprint = [], p_storage_key = [],
     p_sha256 = [], p_version = [], p_size = 0\<rparr>"

definition placementFromAsset :: "asset \<Rightarrow> bool \<Rightarrow> placement" where
  "placementFromAsset a fromShared = \<lparr>p_found = True, p_from_shared = fromShared,
     p_fingerprint = a_fingerprint a, p_storage_key = a_storage_key a, p_sha256 = a_sha256 a,
     p_version = a_version a, p_size = a_size a\<rparr>"

definition CurrentSharedByPath :: "sqlfault \<Rightarrow> db \<Rightarrow> string \<Rightarrow> asset option result" where
  "CurrentSharedByPath f d path =
     exec (f 0) (first_by (\<lambda>a. - a_id a) (filter (\<lambda>a. a_path a = path \<and> \<not> a_is_override a) (db_assets d)))"

text \<open>\<open>scanCurrentAssetRow\<close> fills an \<open>Asset\<close> from the columns selected; id and bundle path keep
  their zero values.\<close>

definition scanCurrentAssetRow :: "cur_row \<Rightarrow> asset" where
  "scanCurrentAssetRow r = \<lparr>a_id = 0, a_server = c_server r, a_bundle_path = [], a_path = c_path r,
     a_version = c_version r, a_fingerprint = c_fingerprint r, a_sha256 = c_sha256 r, a_size = c_size r,
     a_is_override = c_is_override r, a_storage_key = c_storage_key r, a_created_at = c_updated_at r\<rparr>"

text \<open>\<^verbatim>\<open>SELECT '' AS server, ..., 0 AS is_override\<close> of a shared row.\<close>

definition selectShared :: "shared_row \<Rightarrow> cur_row" where
  "selectShared r = \<lparr>c_server = [], c_bundle_path = s_bundle_path r, c_path = s_path r, c_version = s_version r,
     c_fingerprint = s_fingerprint r, c_sha256 = s_sha256 r, c_size = s_size r, c_is_override = False,
     c_storage_key = s_storage_key r, c_updated_at = s_updated_at r\<rparr>"

definition CurrentIndexedByServerPath :: "sqlfault \<Rightarrow> db \<Rightarrow> string \<Rightarrow> string \<Rightarrow> asset option result" where
  "CurrentIndexedByServerPath f d server path =
     exec (f 0) (map_option scanCurrentAssetRow (tbl_lookup curKey (server, path) (db_current d)))"

definition CurrentIndexedSharedByPath :: "sqlfault \<Rightarrow> db \<Rightarrow> string \<Rightarrow> asset option result" where
  "CurrentIndexedSharedByPath f d path =
     exec (f 0) (map_option (\<lambda>r. scanCurrentAssetRow (selectShared r)) (tbl_lookup s_path path (db_shared d)))"

definition LookupPlacement :: "sqlfault \<Rightarrow> db \<Rightarrow> string \<Rightarrow> string \<Rightarrow> placement result" where
  "LookupPlacement f d server path =
     bindR (CurrentIndexedByServerPath f d server path) (\<lambda>current.
       case filter_option a_is_override current of
         Some a \<Rightarrow> Inr (placementFromAsset a False)
       | None \<Rightarrow>
     bindR (CurrentIndexedSharedByPath (\<lambda>_. f 1) d path) (\<lambda>shared.
       case shared of
         Some a \<Rightarrow> Inr (placementFromAsset a True)
       | None \<Rightarrow>
     bindR (CurrentByServerPath (\<lambda>_. f 2) d server path) (\<lambda>current.
       case filter_option a_is_override current of
         Some a \<Rightarrow> Inr (placementFromAsset a False)
       | None \<Rightarrow>
     bindR (CurrentSharedByPath (\<lambda>_. f 3) d path) (\<lambda>shared.
       case shared of
         Some a \<Rightarrow> Inr (placementFromAsset a True)
       | None \<Rightarrow> Inr placement_zero))))"

text \<open>The \<^verbatim>\<open>INSERT ... SELECT\<close> statements of \<open>EnsureReadIndexes\<close>.\<close>

definition rebuildCurrent :: "asset list \<Rightarrow> cur_row list" where
  "rebuildCurrent t = map curOfAsset (filter
     (\<lambda>a. \<forall>b \<in> set t. a_server b = a_server a \<and> a_path b = a_path a \<longrightarrow> a_id b \<le> a_id a) t)"

definition rebuildShared :: "asset list \<Rightarrow> shared_row list" where
  "rebuildShared t = map sharedOfAsset (filter
     (\<lambda>a. \<not> a_is_override a \<and> (\<forall>b \<in> set t. \<not> a_is_override b \<and> a_path b = a_path a \<longrightarrow> a_id b \<le> a_id a)) t)"

definition rebuildSharedBundles :: "shared_row list \<Rightarrow> shared_bundle list" where
  "rebuildSharedBundles t =
     List.map_filter (\<lambda>bp. sharedAgg bp t) (remdups (filter (\<lambda>bp. bp \<noteq> []) (map s_bundle_path t)))"

definition rebuildOverrideBundles :: "cur_row list \<Rightarrow> override_bundle list" where
  "rebuildOverrideBundles t =
     List.map_filter (\<lambda>(server, bp). overrideAgg server bp t)
       (remdups (map (\<lambda>r. (c_server r, c_bundle_path r)) (filter (\<lambda>r. c_is_override r \<and> c_bundle_path r \<noteq> []) t)))"

definition EnsureReadIndexes :: "sqlfault \<Rightarrow> db \<Rightarrow> db result" where
  "EnsureReadIndexes f d =
     bindR (LatestAssetID f d) (\<lambda>latest.
     bindR (readIndexMetaMaxID (\<lambda>_. f 1) d) (\<lambda>indexed.
     if indexed = latest then Inr d
     else
     bindR (exec (f 2) d) (\<lambda>tx.
     bindR (exec (f 3) (tx\<lparr>db_current := []\<rparr>)) (\<lambda>tx.
     bindR (exec (f 4) (tx\<lparr>db_shared := []\<rparr>)) (\<lambda>tx.
     bindR (exec (f 5) (tx\<lparr>db_sbundles := []\<rparr>)) (\<lambda>tx.
     bindR (exec (f 6) (tx\<lparr>db_obundles := []\<rparr>)) (\<lambda>tx.
     bindR (exec (f 7) (tx\<lparr>db_current := rebuildCurrent (db_assets tx)\<rparr>)) (\<lambda>tx.
     bindR (exec (f 8) (tx\<lparr>db_shared := rebuildShared (db_assets tx)\<rparr>)) (\<lambda>tx.
     bindR (exec (f 9) (tx\<lparr>db_sbundles := rebuildSharedBundles (db_shared tx)\<rparr>)) (\<lambda>tx.
     bindR (exec (f 10) (tx\<lparr>db_obundles := rebuildOverrideBundles (db_current tx)\<rparr>)) (\<lambda>tx.
     bindR (setReadIndexMetaMaxID (f 11) latest tx) (\<lambda>tx.
     exec (f 12) tx))))))))))))"

section \<open>The newest row of a path\<close>

text \<open>What the read path means: the newest row of a server's path, and the newest shared row of a
  path, in the asset history.\<close>

definition newestRow :: "asset list \<Rightarrow> string \<Rightarrow> string \<Rightarrow> asset option" where
  "newestRow t server path = first_by (\<lambda>a. - a_id a) (filter (\<lambda>a. a_server a = server \<and> a_path a = path) t)"

definition newestShared :: "asset list \<Rightarrow> string \<Rightarrow> asset option" where
  "newestShared t path = first_by (\<lambda>a. - a_id a) (filter (\<lambda>a. a_path a = path \<and> \<not> a_is_override a) t)"

definition placementSpec :: "asset list \<Rightarrow> string \<Rightarrow> string \<Rightarrow> placement" where
  "placementSpec t server path =
     (case filter_option a_is_override (newestRow t server path) of
        Some a \<Rightarrow> placementFromAsset a False
      | None \<Rightarrow>
          (case newestShared t path of
             Some a \<Rightarrow> placementFromAsset a True
           | None \<Rightarrow> placement_zero))"

definition index_ok :: "db \<Rightarrow> bool" where
  "index_ok d \<longleftrightarrow>
     (\<forall>server path. tbl_lookup curKey (server, path) (db_current d)
        = map_option curOfAsset (newestRow (db_assets d) server path))
     \<and> (\<forall>path. tbl_lookup s_path path (db_shared d) = map_option sharedOfAsset (newestShared (db_assets d) path))"

definition bundles_ok :: "db \<Rightarrow> bool" where
  "bundles_ok d \<longleftrightarrow>
     (\<forall>bp. tbl_lookup sb_bundle_path bp (db_sbundles d) = (if bp = [] then None else sharedAgg bp (db_shared d)))
     \<and> (\<forall>server bp. tbl_lookup obKey (server, bp) (db_obundles d)
          = (if bp = [] then None else overrideAgg server bp (db_current d)))"

lemma tbl_lookup_map_filter_unique:
  assumes "\<And>a. key (g a) = k a"
    and "\<And>a b. a \<in> set t \<Longrightarrow> b \<in> set t \<Longrightarrow> k a = k b \<Longrightarrow> Q a \<Longrightarrow> Q b \<Longrightarrow> a = b"
  shows "tbl_lookup key x (map g (filter Q t)) = Some r \<longleftrightarrow> (\<exists>a \<in> set t. Q a \<and> k a = x \<and> r = g a)"
proof -
  have "(\<exists>a \<in> set t. Q a \<and> k a = x \<and> r = g a)" if "tbl_lookup key x (map g (filter Q t)) = Some r"
    using tbl_lookup_SomeD [OF that] assms(1) by auto
  moreover have "tbl_lookup key x (map g (filter Q t)) = Some (g a)" if "a \<in> set t" "Q a" "k a = x" for a
  proof -
    have "tbl_lookup key x (map g (filter Q t)) \<noteq> None"
      using that assms(1) by (auto simp: tbl_lookup_None_iff)
    then obtain r' where r': "tbl_lookup key x (map g (filter Q t)) = Some r'" by blast
    then obtain b where "b \<in> set t" "Q b" "r' = g b" "k b = x"
      using assms(1) by (auto dest!: tbl_lookup_SomeD)
    with that assms(2) [of b a] r' show ?thesis by simp
  qed
  ultimately show ?thesis by blast
qed

lemma newest_filter_Some_iff:
  assumes "tbl_unique a_id t"
  shows "first_by (\<lambda>a. - a_id a) (filter P t) = Some r
    \<longleftrightarrow> r \<in> set t \<and> P r \<and> (\<forall>b \<in> set t. P b \<longrightarrow> a_id b \<le> a_id r)"
proof
  assume "first_by (\<lambda>a. - a_id a) (filter P t) = Some r"
  from first_by_filter_SomeD [OF this] show "r \<in> set t \<and> P r \<and> (\<forall>b \<in> set t. P b \<longrightarrow> a_id b \<le> a_id r)"
    by auto
next
  assume r: "r \<in> set t \<and> P r \<and> (\<forall>b \<in> set t. P b \<longrightarrow> a_id b \<le> a_id r)"
  have "inj_on (\<lambda>a. - a_id a) (set (filter P t))"
    using assms by (auto simp: tbl_unique_def distinct_map inj_on_def)
  with r show "first_by (\<lambda>a. - a_id a) (filter P t) = Some r"
    by (intro first_by_eqI) auto
qed

lemma unique_id_eq: "tbl_unique a_id t \<Longrightarrow> a \<in> set t \<Longrightarrow> b \<in> set t \<Longrightarrow> a_id a = a_id b \<Longrightarrow> a = b"
  by (auto simp: tbl_unique_def distinct_map dest: inj_onD)

lemma option_eqI: "(\<And>r. x = Some r \<longleftrightarrow> y = Some r) \<Longrightarrow> x = y"
  by (cases x; cases y) auto

lemma lookup_rebuildCurrent:
  assumes "tbl_unique a_id t"
  shows "tbl_lookup curKey (server, path) (rebuildCurrent t) = map_option curOfAsset (newestRow t server path)"
proof (rule option_eqI)
  fix r
  let ?Q = "\<lambda>a. \<forall>b \<in> set t. a_server b = a_server a \<and> a_path b = a_path a \<longrightarrow> a_id b \<le> a_id a"
  have uniq: "a = b" if "a \<in> set t" "b \<in> set t" "(a_server a, a_path a) = (a_server b, a_path b)" "?Q a" "?Q b" for a b
    using that by (intro unique_id_eq [OF assms]) (auto intro: antisym)
  have "tbl_lookup curKey (server, path) (rebuildCurrent t) = Some r
      \<longleftrightarrow> (\<exists>a \<in> set t. ?Q a \<and> (a_server a, a_path a) = (server, path) \<and> r = curOfAsset a)"
    unfolding rebuildCurrent_def
    by (rule tbl_lookup_map_filter_unique) (auto simp: curKey_def curOfAsset_def intro: uniq)
  also have "\<dots> \<longleftrightarrow> map_option curOfAsset (newestRow t server path) = Some r"
    by (auto simp: newestRow_def newest_filter_Some_iff [OF assms])
  finally show "tbl_lookup curKey (server, path) (rebuildCurrent t) = Some r
      \<longleftrightarrow> map_option curOfAsset (newestRow t server path) = Some r" .
qed

lemma lookup_rebuildShared:
  assumes "tbl_unique a_id t"
  shows "tbl_lookup s_path path (rebuildShared t) = map_option sharedOfAsset (newestShared t path)"
proof (rule option_eqI)
  fix r
  let ?Q = "\<lambda>a. \<not> a_is_override a \<and> (\<forall>b \<in> set t. \<not> a_is_override b \<and> a_path b = a_path a \<longrightarrow> a_id b \<le> a_id a)"
  have uniq: "a = b" if "a \<in> set t" "b \<in> set t" "a_path a = a_path b" "?Q a" "?Q b" for a b
    using that by (intro unique_id_eq [OF assms]) (auto intro: antisym)
  have "tbl_lookup s_path path (rebuildShared t) = Some r
      \<longleftrightarrow> (\<exists>a \<in> set t. ?Q a \<and> a_path a = path \<and> r = sharedOfAsset a)"
    unfolding rebuildShared_def
    by (rule tbl_lookup_map_filter_unique) (auto simp: sharedOfAsset_def intro: uniq)
  also have "\<dots> \<longleftrightarrow> map_option sharedOfAsset (newestShared t path) = Some r"
    by (auto simp: newestShared_def newest_filter_Some_iff [OF assms])
  finally show "tbl_lookup s_path path (rebuildShared t) = Some r
      \<longleftrightarrow> map_option sharedOfAsset (newestShared t path) = Some r" .
qed

section \<open>Maintaining the index row by row\<close>

lemma first_by_snoc_new:
  assumes "\<And>x. x \<in> set t \<Longrightarrow> ord new < ord x"
  shows "first_by ord (t @ [new]) = Some new"
proof -
  obtain r where r: "first_by ord (t @ [new]) = Some r"
    using first_by_Some_ex [of "t @ [new]" ord] by blast
  have "r \<in> set (t @ [new])" "ord r \<le> ord new"
    using first_by_SomeD [OF r] by auto
  with assms have "r = new" by (auto simp: not_le [symmetric])
  with r show ?thesis by simp
qed

lemma newestRow_snoc:
  assumes "\<And>x. x \<in> set t \<Longrightarrow> a_id x < a_id new"
  shows "newestRow (t @ [new]) server path =
     (if a_server new = server \<and> a_path new = path then Some new else newestRow t server path)"
  using assms by (auto simp: newestRow_def intro!: first_by_snoc_new)

lemma newestShared_snoc:
  assumes "\<And>x. x \<in> set t \<Longrightarrow> a_id x < a_id new"
  shows "newestShared (t @ [new]) path =
     (if \<not> a_is_override new \<and> a_path new = path then Some new else newestShared t path)"
  using assms by (auto simp: newestShared_def intro!: first_by_snoc_new)

lemma curOfAsset_id [simp]: "curOfAsset (a\<lparr>a_id := i\<rparr>) = curOfAsset a"
  by (simp add: curOfAsset_def)

lemma sharedOfAsset_id [simp]: "sharedOfAsset (a\<lparr>a_id := i\<rparr>) = sharedOfAsset a"
  by (simp add: sharedOfAsset_def)

lemma InsertAsset_fresh_assets:
  assumes "InsertAsset f now a d = Inr d'" and "assetKey a \<notin> assetKey ` set (db_assets d)"
  shows "db_assets d' = db_assets d @ [(stamped now a)\<lparr>a_id := db_asset_seq d + 1\<rparr>]"
proof -
  have "assetKey ((stamped now a)\<lparr>a_id := db_asset_seq d + 1\<rparr>) = assetKey a"
    by (simp add: assetKey_def)
  with assms(2) show ?thesis
    using InsertAsset_tables(1) [OF assms(1)] assets_tbl.set_upsert_fresh by metis
qed

lemma InsertAsset_index_ok:
  assumes ins: "InsertAsset f now a d = Inr d'" and wf: "db_wf d" and ok: "index_ok d"
    and fresh: "assetKey a \<notin> assetKey ` set (db_assets d)"
  shows "index_ok d'"
proof -
  let ?new = "(stamped now a)\<lparr>a_id := db_asset_seq d + 1\<rparr>"
  have below: "\<And>x. x \<in> set (db_assets d) \<Longrightarrow> a_id x < a_id ?new"
    using wf by (auto simp: db_wf_def list_all_iff)
  have cur: "newestRow (db_assets d') server path =
      (if a_server a = server \<and> a_path a = path then Some ?new else newestRow (db_assets d) server path)" for server path
    using newestRow_snoc [of "db_assets d" ?new, OF below]
    by (simp add: InsertAsset_fresh_assets [OF ins fresh])
  have shr: "newestShared (db_assets d') path =
      (if \<not> a_is_override a \<and> a_path a = path then Some ?new else newestShared (db_assets d) path)" for path
    using newestShared_snoc [of "db_assets d" ?new, OF below]
    by (simp add: InsertAsset_fresh_assets [OF ins fresh])
  have keys: "curKey (curOfAsset (stamped now a)) = (a_server a, a_path a)" "s_path (sharedOfAsset (stamped now a)) = a_path a"
    by (simp_all add: curKey_def curOfAsset_def sharedOfAsset_def)
  show ?thesis
    using ok by (auto simp: index_ok_def cur shr keys InsertAsset_tables(3,4) [OF ins]
        current_tbl.lookup_replace shared_tbl.lookup_replace)
qed

lemma refresh_unique:
  assumes "refreshBundleAggregates f a d = Inr d'"
    and "tbl_unique sb_bundle_path (db_sbundles d)" and "tbl_unique obKey (db_obundles d)"
  shows "tbl_unique sb_bundle_path (db_sbundles d') \<and> tbl_unique obKey (db_obundles d')"
  using assms
  by (auto simp: refreshBundleAggregates_def bindR_Inr_iff exec_Inr_iff sbundles_tbl.unique_upsert
      obundles_tbl.unique_upsert tbl_unique_filter split: if_splits option.splits)

lemma ids_upsert:
  "map a_id (tbl_upsert assetKey updAsset new t) =
     (if assetKey new \<in> assetKey ` set t then map a_id t else map a_id t @ [a_id new])"
  by (simp add: tbl_upsert_def ex_key_image updAsset_def)

lemma InsertAsset_aggregates:
  assumes "InsertAsset f now a d = Inr d'"
  obtains d3 where "refreshBundleAggregates (\<lambda>i. f (3 + i)) (stamped now a) d3 = Inr d'"
    and "db_sbundles d3 = db_sbundles d" and "db_obundles d3 = db_obundles d"
    and "db_current d3 = db_current d'" and "db_shared d3 = db_shared d'"
proof -
  from assms obtain d3 where d3: "refreshBundleAggregates (\<lambda>i. f (3 + i)) (stamped now a) d3 = Inr d'"
    and "db_sbundles d3 = db_sbundles d" "db_obundles d3 = db_obundles d"
    by (auto simp: InsertAsset_def Let_def stamped_def [symmetric] bindR_Inr_iff exec_Inr_iff
        upsertCurrentAsset_def upsertCurrentSharedAsset_def insertAssetRow_def split: if_splits)
  with refreshBundleAggregates_frame [OF d3] show ?thesis by (intro that) simp_all
qed

lemma InsertAsset_wf:
  assumes ins: "InsertAsset f now a d = Inr d'" and wf: "db_wf d"
  shows "db_wf d'"
proof -
  let ?new = "(stamped now a)\<lparr>a_id := db_asset_seq d + 1\<rparr>"
  obtain d3 where d3: "refreshBundleAggregates (\<lambda>i. f (3 + i)) (stamped now a) d3 = Inr d'"
    "db_sbundles d3 = db_sbundles d" "db_obundles d3 = db_obundles d"
    using InsertAsset_aggregates [OF ins] by metis
  have bundles: "tbl_unique sb_bundle_path (db_sbundles d') \<and> tbl_unique obKey (db_obundles d')"
    using wf d3 by (intro refresh_unique [OF d3(1)]) (simp_all add: db_wf_def)
  have ids: "set (map a_id (db_assets d')) \<subseteq> insert (db_asset_seq d + 1) (set (map a_id (db_assets d)))"
    unfolding InsertAsset_tables(1) [OF ins] ids_upsert by auto
  have range: "list_all (\<lambda>a. 0 < a_id a \<and> a_id a \<le> db_asset_seq d') (db_assets d')"
    using ids wf by (force simp: list_all_iff db_wf_def InsertAsset_tables(2) [OF ins])
  have "db_asset_seq d + 1 \<notin> set (map a_id (db_assets d))"
    using wf by (auto simp: db_wf_def list_all_iff)
  then have "tbl_unique a_id (db_assets d')"
    using wf unfolding tbl_unique_def InsertAsset_tables(1) [OF ins] ids_upsert
    by (simp add: db_wf_def tbl_unique_def)
  with bundles range wf show ?thesis
    by (simp add: db_wf_def InsertAsset_tables [OF ins] assets_tbl.unique_upsert current_tbl.unique_upsert
        shared_tbl.unique_upsert)
qed

section \<open>Maintaining the bundle aggregates\<close>

text \<open>The asset's path does not move to another bundle by this insert.\<close>

definition sameBundle :: "asset \<Rightarrow> db \<Rightarrow> bool" where
  "sameBundle a d \<longleftrightarrow>
     (\<forall>r \<in> set (db_current d). c_server r = a_server a \<and> c_path r = a_path a \<and> c_is_override r
         \<longrightarrow> c_bundle_path r = a_bundle_path a)
     \<and> (a_is_override a \<or> (\<forall>r \<in> set (db_shared d). s_path r = a_path a \<longrightarrow> s_bundle_path r = a_bundle_path a))"

lemma sharedAgg_other:
  assumes "sameBundle a d" and "bp \<noteq> a_bundle_path a" and "\<not> a_is_override a"
  shows "sharedAgg bp (tbl_upsert s_path updShared (sharedOfAsset (stamped now a)) (db_shared d)) = sharedAgg bp (db_shared d)"
proof -
  have "filter (\<lambda>r. s_bundle_path r = bp) (tbl_upsert s_path updShared (sharedOfAsset (stamped now a)) (db_shared d))
      = filter (\<lambda>r. s_bundle_path r = bp) (db_shared d)"
    using assms by (intro filter_upsert_other) (auto simp: sharedOfAsset_def updShared_def sameBundle_def)
  then show ?thesis by (simp add: sharedAgg_def)
qed

lemma overrideAgg_other:
  assumes "sameBundle a d" and "(server, bp) \<noteq> (a_server a, a_bundle_path a)"
  shows "overrideAgg server bp (tbl_upsert curKey updCur (curOfAsset (stamped now a)) (db_current d))
    = overrideAgg server bp (db_current d)"
proof -
  let ?P = "\<lambda>r. c_server r = server \<and> c_bundle_path r = bp \<and> c_is_override r"
  have "filter ?P (tbl_upsert curKey updCur (curOfAsset (stamped now a)) (db_current d)) = filter ?P (db_current d)"
    using assms by (intro filter_upsert_other) (auto simp: curOfAsset_def updCur_def curKey_def sameBundle_def)
  then show ?thesis by (simp add: overrideAgg_def)
qed

lemma sharedAgg_None_iff: "sharedAgg bp t = None \<longleftrightarrow> (\<forall>r \<in> set t. s_bundle_path r \<noteq> bp)"
  by (auto simp: sharedAgg_def Let_def first_by_None_iff filter_empty_conv)

lemma overrideAgg_None_iff:
  "overrideAgg server bp t = None \<longleftrightarrow> (\<forall>r \<in> set t. \<not> (c_server r = server \<and> c_bundle_path r = bp \<and> c_is_override r))"
  by (auto simp: overrideAgg_def Let_def first_by_None_iff filter_empty_conv)

lemma sharedAgg_key: "sharedAgg bp t = Some b \<Longrightarrow> sb_bundle_path b = bp"
  by (auto simp: sharedAgg_def Let_def)

lemma overrideAgg_key: "overrideAgg server bp t = Some b \<Longrightarrow> obKey b = (server, bp)"
  by (auto simp: overrideAgg_def Let_def obKey_def)

lemma refresh_lookup_shared:
  assumes "refreshBundleAggregates f a d = Inr d'" and "a_bundle_path a \<noteq> []"
  shows "tbl_lookup sb_bundle_path bp (db_sbundles d') =
     (if \<not> a_is_override a \<and> bp = a_bundle_path a \<and> sharedAgg bp (db_shared d) \<noteq> None
      then sharedAgg bp (db_shared d) else tbl_lookup sb_bundle_path bp (db_sbundles d))"
  using assms
  by (auto simp: refreshBundleAggregates_def bindR_Inr_iff exec_Inr_iff sbundles_tbl.lookup_replace
      dest: sharedAgg_key split: if_splits option.splits)

lemma refresh_lookup_override:
  assumes "refreshBundleAggregates f a d = Inr d'" and "a_bundle_path a \<noteq> []"
  shows "tbl_lookup obKey k (db_obundles d') =
     (if k = (a_server a, a_bundle_path a) then overrideAgg (a_server a) (a_bundle_path a) (db_current d)
      else tbl_lookup obKey k (db_obundles d))"
proof -
  let ?k0 = "(a_server a, a_bundle_path a)" and ?agg = "overrideAgg (a_server a) (a_bundle_path a) (db_current d)"
  have "db_obundles d' = (case ?agg of
          None \<Rightarrow> filter (\<lambda>b. obKey b \<noteq> ?k0) (db_obundles d)
        | Some b \<Rightarrow> tbl_upsert obKey updOBundle b (db_obundles d))"
  proof (cases ?agg)
    case None
    moreover from None have "\<not> (\<exists>r \<in> set (db_current d). c_server r = a_server a \<and> c_bundle_path r = a_bundle_path a \<and> c_is_override r)"
      by (auto simp: overrideAgg_None_iff)
    ultimately show ?thesis
      using assms by (auto simp: refreshBundleAggregates_def bindR_Inr_iff exec_Inr_iff split: if_splits option.splits)
  next
    case (Some b)
    then have "\<exists>r \<in> set (db_current d). c_server r = a_server a \<and> c_bundle_path r = a_bundle_path a \<and> c_is_override r"
      using overrideAgg_None_iff by (metis option.distinct(1))
    with Some show ?thesis
      using assms by (auto simp: refreshBundleAggregates_def bindR_Inr_iff exec_Inr_iff split: if_splits option.splits)
  qed
  then show ?thesis
    by (auto simp: tbl_lookup_filter_neq obundles_tbl.lookup_replace dest: overrideAgg_key split: option.splits)
qed

lemma InsertAsset_bundles_ok:
  assumes ins: "InsertAsset f now a d = Inr d'" and ok: "bundles_ok d" and same: "sameBundle a d"
  shows "bundles_ok d'"
proof -
  obtain d3 where d3: "refreshBundleAggregates (\<lambda>i. f (3 + i)) (stamped now a) d3 = Inr d'"
    "db_sbundles d3 = db_sbundles d" "db_obundles d3 = db_obundles d"
    "db_current d3 = db_current d'" "db_shared d3 = db_shared d'"
    using InsertAsset_aggregates [OF ins] by metis
  have shared: "sharedAgg bp (db_shared d') = sharedAgg bp (db_shared d)"
    if "bp \<noteq> a_bundle_path a \<or> a_is_override a" for bp
    using that sharedAgg_other [OF same] by (auto simp: InsertAsset_tables(4) [OF ins])
  have current: "overrideAgg server bp (db_current d') = overrideAgg server bp (db_current d)"
    if "(server, bp) \<noteq> (a_server a, a_bundle_path a)" for server bp
    using overrideAgg_other [OF same that] by (simp add: InsertAsset_tables(3) [OF ins])
  show ?thesis
  proof (cases "a_bundle_path a = []")
    case True
    then have "d' = d3" using d3(1) by (simp add: refreshBundleAggregates_def)
    with True ok d3 shared current show ?thesis by (simp add: bundles_ok_def)
  next
    case False
    have some: "sharedAgg (a_bundle_path a) (db_shared d') \<noteq> None" if "\<not> a_is_override a"
      using that by (auto simp: sharedAgg_None_iff InsertAsset_tables(4) [OF ins] shared_tbl.set_replace sharedOfAsset_def)
    have "tbl_lookup sb_bundle_path bp (db_sbundles d') = (if bp = [] then None else sharedAgg bp (db_shared d'))" for bp
      using ok False refresh_lookup_shared [OF d3(1), of bp] some shared [of bp]
      by (cases "bp = a_bundle_path a \<and> \<not> a_is_override a") (auto simp: bundles_ok_def d3)
    moreover have "tbl_lookup obKey (server, bp) (db_obundles d')
        = (if bp = [] then None else overrideAgg server bp (db_current d'))" for server bp
      using ok False refresh_lookup_override [OF d3(1), of "(server, bp)"] current [of server bp]
      by (cases "(server, bp) = (a_server a, a_bundle_path a)") (auto simp: bundles_ok_def d3)
    ultimately show ?thesis by (simp add: bundles_ok_def)
  qed
qed

section \<open>Rebuilding\<close>

lemma tbl_lookup_map_filter:
  assumes "\<And>x b. g x = Some b \<Longrightarrow> key b = x"
  shows "tbl_lookup key k (List.map_filter g xs) = (if k \<in> set xs then g k else None)"
proof (induction xs)
  case (Cons x xs)
  then show ?case
    using assms by (cases "g x") (auto simp: List.map_filter_simps tbl_lookup_def split: option.splits)
qed (simp add: List.map_filter_simps)

lemma lookup_rebuildSharedBundles:
  "tbl_lookup sb_bundle_path bp (rebuildSharedBundles t) = (if bp = [] then None else sharedAgg bp t)"
proof -
  have "sharedAgg bp t = None" if "bp \<notin> s_bundle_path ` set t"
    using that by (auto simp: sharedAgg_None_iff)
  then show ?thesis
    unfolding rebuildSharedBundles_def
    by (subst tbl_lookup_map_filter) (auto dest: sharedAgg_key)
qed

lemma lookup_rebuildOverrideBundles:
  "tbl_lookup obKey (server, bp) (rebuildOverrideBundles t) = (if bp = [] then None else overrideAgg server bp t)"
proof -
  let ?keys = "(\<lambda>r. (c_server r, c_bundle_path r)) ` {r \<in> set t. c_is_override r \<and> c_bundle_path r \<noteq> []}"
  have "overrideAgg server bp t = None" if "bp \<noteq> []" "(server, bp) \<notin> ?keys"
    using that by (force simp: overrideAgg_None_iff)
  moreover have "tbl_lookup obKey (server, bp) (rebuildOverrideBundles t)
      = (if (server, bp) \<in> ?keys then overrideAgg server bp t else None)"
    unfolding rebuildOverrideBundles_def
    by (subst tbl_lookup_map_filter) (auto dest: overrideAgg_key split: prod.splits)
  ultimately show ?thesis by auto
qed

lemma EnsureReadIndexes_cases:
  assumes "EnsureReadIndexes f d = Inr d'"
  obtains (current) "d' = d" "\<exists>n. LatestAssetID f d = Inr n \<and> readIndexMetaMaxID (\<lambda>_. f 1) d = Inr n"
  | (rebuilt) n where "LatestAssetID f d = Inr n"
      "d' = d\<lparr>db_current := rebuildCurrent (db_assets d), db_shared := rebuildShared (db_assets d),
         db_sbundles := rebuildSharedBundles (rebuildShared (db_assets d)),
         db_obundles := rebuildOverrideBundles (rebuildCurrent (db_assets d)),
         db_meta := tbl_upsert m_key updMeta \<lparr>m_key = readIndexMaxAssetID, m_value = formatNat n\<rparr> (db_meta d)\<rparr>"
proof -
  from assms obtain latest indexed where l: "LatestAssetID f d = Inr latest" and i: "readIndexMetaMaxID (\<lambda>_. f 1) d = Inr indexed"
    unfolding EnsureReadIndexes_def bindR_Inr_iff by blast
  show ?thesis
  proof (cases "indexed = latest")
    case True
    with assms l i show ?thesis by (intro current) (auto simp: EnsureReadIndexes_def)
  next
    case False
    show ?thesis
    proof (rule rebuilt [OF l])
      show "d' = d\<lparr>db_current := rebuildCurrent (db_assets d), db_shared := rebuildShared (db_assets d),
         db_sbundles := rebuildSharedBundles (rebuildShared (db_assets d)),
         db_obundles := rebuildOverrideBundles (rebuildCurrent (db_assets d)),
         db_meta := tbl_upsert m_key updMeta \<lparr>m_key = readIndexMaxAssetID, m_value = formatNat latest\<rparr> (db_meta d)\<rparr>"
        using assms l i False
        by (auto simp: EnsureReadIndexes_def bindR_Inr_iff exec_Inr_iff setReadIndexMetaMaxID_def)
    qed
  qed
qed

lemma LatestAssetID_bound:
  assumes "db_wf d" and "LatestAssetID f d = Inr n"
  shows "int n \<le> db_asset_seq d"
proof (cases "db_assets d = []")
  case True
  with assms show ?thesis
    by (auto simp: LatestAssetID_def maxAssetID_def bindR_Inr_iff exec_Inr_iff db_wf_def)
next
  case False
  then have "Max (set (map a_id (db_assets d))) \<in> set (map a_id (db_assets d))"
    by (intro Max_in) auto
  with False assms show ?thesis
    by (auto simp: LatestAssetID_def maxAssetID_def bindR_Inr_iff exec_Inr_iff db_wf_def list_all_iff
        split: if_splits)
qed

lemma LatestAssetID_assets: "db_assets d' = db_assets d \<Longrightarrow> LatestAssetID f d' = LatestAssetID f d"
  by (simp add: LatestAssetID_def maxAssetID_def)

lemma LatestAssetID_fault_free: "LatestAssetID f d = Inr n \<Longrightarrow> LatestAssetID no_fault d = Inr n"
  by (auto simp: LatestAssetID_def bindR_Inr_iff exec_Inr_iff)

section \<open>Properties\<close>

text \<open>C18: \<open>EnsureReadIndexes\<close> leaves the asset history alone; when it rebuilds, every materialised
  table is exactly what the history says (newest row per server and path, newest shared row per
  path, and the bundle aggregates of those), and it records the position so that the next
  start finds nothing to do. When it does not rebuild, the database is untouched and the
  recorded position was the newest asset id.\<close>

theorem EnsureReadIndexes_correct:
  assumes "EnsureReadIndexes f d = Inr d'" and "db_wf d" and "db_asset_seq d < 2 ^ 63"
  shows "db_assets d' = db_assets d \<and> db_versions d' = db_versions d \<and> db_completions d' = db_completions d
    \<and> (d' = d \<and> readIndexMetaMaxID (\<lambda>_. f 1) d = LatestAssetID f d
       \<or> index_ok d' \<and> bundles_ok d' \<and> EnsureReadIndexes no_fault d' = Inr d')"
  using assms(1)
proof (cases rule: EnsureReadIndexes_cases)
  case current
  then show ?thesis by auto
next
  case (rebuilt n)
  have "tbl_unique a_id (db_assets d)" using assms(2) by (simp add: db_wf_def)
  then have ok: "index_ok d' \<and> bundles_ok d'"
    unfolding rebuilt(2) index_ok_def bundles_ok_def
    by (simp add: lookup_rebuildCurrent lookup_rebuildShared lookup_rebuildSharedBundles lookup_rebuildOverrideBundles)
  have "int n < 2 ^ 64"
    using LatestAssetID_bound [OF assms(2) rebuilt(1)] assms(3) by simp
  then have "n < 2 ^ 64" by (simp add: nat_less_iff)
  then have "readIndexMetaMaxID no_fault d' = Inr n"
    by (simp add: rebuilt(2) readIndexMetaMaxID_def meta_tbl.lookup_replace parseUint64_formatNat)
  moreover have "LatestAssetID no_fault d' = Inr n"
    using LatestAssetID_fault_free [OF rebuilt(1)] LatestAssetID_assets [of d' d] rebuilt(2) by simp
  ultimately have "EnsureReadIndexes no_fault d' = Inr d'"
    by (simp add: EnsureReadIndexes_def)
  with ok show ?thesis by (simp add: rebuilt(2))
qed

theorem EnsureReadIndexes_correct_witness:
  "\<exists>d'. EnsureReadIndexes no_fault (empty_db\<lparr>db_assets := [(mkAsset ''jp'' ''a'' ''a/b'' ''v1'' ''f1'' False ''k'')\<lparr>a_id := 1\<rparr>],
           db_asset_seq := 1\<rparr>) = Inr d' \<and> index_ok d' \<and> bundles_ok d'"
proof -
  let ?d = "empty_db\<lparr>db_assets := [(mkAsset ''jp'' ''a'' ''a/b'' ''v1'' ''f1'' False ''k'')\<lparr>a_id := 1\<rparr>], db_asset_seq := 1\<rparr>"
  have "readIndexMetaMaxID (\<lambda>_. None) ?d \<noteq> LatestAssetID no_fault ?d"
    by (simp add: readIndexMetaMaxID_def LatestAssetID_def maxAssetID_def empty_db_def)
  moreover obtain d' where h: "EnsureReadIndexes no_fault ?d = Inr d'"
    by (simp add: EnsureReadIndexes_def readIndexMetaMaxID_def LatestAssetID_def maxAssetID_def empty_db_def
        setReadIndexMetaMaxID_def)
  moreover have "db_wf ?d" "db_asset_seq ?d < 2 ^ 63"
    by (simp_all add: db_wf_def empty_db_def tbl_unique_def)
  ultimately show ?thesis
    using EnsureReadIndexes_correct [OF h] by blast
qed

text \<open>C4: Incremental maintenance equals recomputation: if the materialised tables agree with the
  asset history and the inserted row is new for its (server, path, version), then after
  \<open>InsertAsset\<close> they still agree, with schema integrity kept; if moreover the path stays in its
  bundle, the bundle aggregates stay exact. This is what lets a commit skip the rebuild.\<close>

theorem InsertAsset_refines_rebuild:
  assumes "InsertAsset f now a d = Inr d'" and "db_wf d" and "index_ok d"
    and "\<forall>b \<in> set (db_assets d). (a_server b, a_path b, a_version b) \<noteq> (a_server a, a_path a, a_version a)"
  shows "db_wf d' \<and> index_ok d'
    \<and> (\<forall>server path. tbl_lookup curKey (server, path) (db_current d')
          = tbl_lookup curKey (server, path) (rebuildCurrent (db_assets d')))
    \<and> (\<forall>path. tbl_lookup s_path path (db_shared d') = tbl_lookup s_path path (rebuildShared (db_assets d')))
    \<and> (bundles_ok d \<and> sameBundle a d \<longrightarrow> bundles_ok d')"
proof -
  have "assetKey a \<notin> assetKey ` set (db_assets d)"
    using assms(4) by (auto simp: assetKey_def)
  then have ok: "index_ok d'" by (rule InsertAsset_index_ok [OF assms(1-3)])
  have wf: "db_wf d'" by (rule InsertAsset_wf [OF assms(1,2)])
  then have "tbl_unique a_id (db_assets d')" by (simp add: db_wf_def)
  with ok wf show ?thesis
    using InsertAsset_bundles_ok [OF assms(1)]
    by (simp add: lookup_rebuildCurrent lookup_rebuildShared index_ok_def)
qed

lemma index_ok_empty: "index_ok empty_db" and bundles_ok_empty: "bundles_ok empty_db"
  by (simp_all add: index_ok_def bundles_ok_def empty_db_def newestRow_def newestShared_def
      sharedAgg_def overrideAgg_def Let_def)

theorem InsertAsset_refines_rebuild_witness:
  "\<exists>d'. InsertAsset no_fault 7 (mkAsset ''jp'' ''a'' ''a/b'' ''v1'' ''f1'' True ''k'') empty_db = Inr d'
     \<and> index_ok d' \<and> bundles_ok d'"
proof -
  let ?a = "mkAsset ''jp'' ''a'' ''a/b'' ''v1'' ''f1'' True ''k''"
  obtain d' where h: "InsertAsset no_fault 7 ?a empty_db = Inr d'"
    using InsertAsset_total by blast
  have "\<forall>b \<in> set (db_assets empty_db). (a_server b, a_path b, a_version b) \<noteq> (a_server ?a, a_path ?a, a_version ?a)"
    and "sameBundle ?a empty_db"
    by (simp_all add: empty_db_def sameBundle_def)
  then show ?thesis
    using InsertAsset_refines_rebuild [OF h db_wf_empty index_ok_empty] bundles_ok_empty h by blast
qed

lemma LookupPlacement_total: "\<exists>r. LookupPlacement no_fault d server path = Inr r"
  by (auto simp: LookupPlacement_def CurrentIndexedByServerPath_def CurrentIndexedSharedByPath_def
      CurrentByServerPath_def CurrentSharedByPath_def split: option.splits)

lemma LookupPlacement_cong:
  assumes "CurrentIndexedByServerPath no_fault d' server path = CurrentIndexedByServerPath no_fault d server path"
    and "CurrentIndexedSharedByPath no_fault d' path = CurrentIndexedSharedByPath no_fault d path"
    and "CurrentByServerPath no_fault d' server path = CurrentByServerPath no_fault d server path"
    and "CurrentSharedByPath no_fault d' path = CurrentSharedByPath no_fault d path"
  shows "LookupPlacement no_fault d' server path = LookupPlacement no_fault d server path"
  by (simp only: LookupPlacement_def assms)

lemma InsertAsset_lookups:
  assumes "InsertAsset f now a d = Inr d'"
  shows "tbl_lookup curKey (server, path) (db_current d') =
      (if server = a_server a \<and> path = a_path a then Some (curOfAsset (stamped now a))
       else tbl_lookup curKey (server, path) (db_current d))"
    and "tbl_lookup s_path path (db_shared d') =
      (if \<not> a_is_override a \<and> path = a_path a then Some (sharedOfAsset (stamped now a))
       else tbl_lookup s_path path (db_shared d))"
  by (simp_all add: InsertAsset_tables(3,4) [OF assms] current_tbl.lookup_replace shared_tbl.lookup_replace
      curKey_def curOfAsset_def sharedOfAsset_def)

lemma InsertAsset_elsewhere:
  assumes "InsertAsset f now a d = Inr d'" and "path \<noteq> a_path a"
  shows "LookupPlacement no_fault d' server path = LookupPlacement no_fault d server path"
proof -
  have other: "filter (\<lambda>x. a_path x = path \<and> P x) (db_assets d') = filter (\<lambda>x. a_path x = path \<and> P x) (db_assets d)" for P
    unfolding InsertAsset_tables(1) [OF assms(1)] using assms(2)
    by (intro filter_upsert_other) (auto simp: assetKey_def updAsset_def)
  have swap: "filter (\<lambda>x. a_server x = server \<and> a_path x = path) t = filter (\<lambda>x. a_path x = path \<and> a_server x = server) t"
    for t by (metis (no_types))
  show ?thesis
    by (rule LookupPlacement_cong) (use assms(2) in \<open>simp_all add: CurrentIndexedByServerPath_def
        CurrentIndexedSharedByPath_def CurrentByServerPath_def CurrentSharedByPath_def
        InsertAsset_lookups [OF assms(1)] other swap\<close>)
qed

lemma LookupPlacement_indexed:
  assumes "tbl_lookup s_path path (db_shared d) = Some r"
  shows "LookupPlacement no_fault d server path =
    (case filter_option c_is_override (tbl_lookup curKey (server, path) (db_current d)) of
       Some c \<Rightarrow> Inr (placementFromAsset (scanCurrentAssetRow c) False)
     | None \<Rightarrow> Inr (placementFromAsset (scanCurrentAssetRow (selectShared r)) True))"
  using assms by (cases "tbl_lookup curKey (server, path) (db_current d)")
    (auto simp: LookupPlacement_def CurrentIndexedByServerPath_def CurrentIndexedSharedByPath_def scanCurrentAssetRow_def)

lemma LookupPlacement_spec:
  assumes "index_ok d" and "LookupPlacement f d server path = Inr r"
  shows "r = placementSpec (db_assets d) server path" "LookupPlacement no_fault d server path = Inr r"
proof -
  have scan: "placementFromAsset (scanCurrentAssetRow (curOfAsset a)) x = placementFromAsset a x"
    "placementFromAsset (scanCurrentAssetRow (selectShared (sharedOfAsset a))) x = placementFromAsset a x"
    "a_is_override (scanCurrentAssetRow (curOfAsset a)) = a_is_override a" for a x
    by (simp_all add: placementFromAsset_def scanCurrentAssetRow_def selectShared_def curOfAsset_def sharedOfAsset_def)
  show "r = placementSpec (db_assets d) server path" "LookupPlacement no_fault d server path = Inr r"
    using assms
    by (cases "newestRow (db_assets d) server path"; cases "newestShared (db_assets d) path";
        auto simp: LookupPlacement_def CurrentIndexedByServerPath_def CurrentIndexedSharedByPath_def
        CurrentByServerPath_def CurrentSharedByPath_def index_ok_def placementSpec_def scan
        newestRow_def [symmetric] newestShared_def [symmetric] bindR_Inr_iff exec_Inr_iff
        split: if_splits)+
qed

text \<open>C19: The read path answers as the policy says: while the index agrees with the history, the
  placement returned for a server and a public path is the server's override if its newest row
  is one, else the newest shared row of the path, else not found; without engine errors it
  always answers.\<close>

theorem LookupPlacement_policy:
  assumes "index_ok d" and "LookupPlacement f d server path = Inr r"
  shows "r = (case newestRow (db_assets d) server path of
            Some a \<Rightarrow> if a_is_override a then placementFromAsset a False
                      else placementSpec (db_assets d) server path
          | None \<Rightarrow> placementSpec (db_assets d) server path)
    \<and> (r = placement_zero \<longleftrightarrow>
         (\<forall>a \<in> set (db_assets d). a_path a = path \<longrightarrow> a_is_override a)
         \<and> (\<forall>a. newestRow (db_assets d) server path = Some a \<longrightarrow> \<not> a_is_override a))
    \<and> LookupPlacement no_fault d server path = Inr r"
proof -
  note r = LookupPlacement_spec(1) [OF assms] and nf = LookupPlacement_spec(2) [OF assms]
  have "newestShared (db_assets d) path = None \<longleftrightarrow> (\<forall>a \<in> set (db_assets d). a_path a = path \<longrightarrow> a_is_override a)"
    by (auto simp: newestShared_def first_by_filter_None)
  moreover have "placementFromAsset a x \<noteq> placement_zero" for a x
    by (simp add: placementFromAsset_def placement_zero_def)
  ultimately have zero: "r = placement_zero \<longleftrightarrow>
         (\<forall>a \<in> set (db_assets d). a_path a = path \<longrightarrow> a_is_override a)
         \<and> (\<forall>a. newestRow (db_assets d) server path = Some a \<longrightarrow> \<not> a_is_override a)"
    unfolding r placementSpec_def
    by (cases "newestRow (db_assets d) server path") (auto split: option.splits)
  show ?thesis
    using zero nf
    by (cases "newestRow (db_assets d) server path") (auto simp: r placementSpec_def split: option.splits)
qed

theorem LookupPlacement_policy_witness:
  "\<exists>d' r. InsertAsset no_fault 7 (mkAsset ''jp'' ''a'' ''a/b'' ''v1'' ''f1'' True ''k'') empty_db = Inr d'
     \<and> LookupPlacement no_fault d' ''en'' ''a/b'' = Inr r \<and> r = placement_zero"
proof -
  let ?a = "mkAsset ''jp'' ''a'' ''a/b'' ''v1'' ''f1'' True ''k''"
  obtain d' where h: "InsertAsset no_fault 7 ?a empty_db = Inr d'"
    using InsertAsset_total by blast
  have ok: "index_ok d'"
    by (rule InsertAsset_index_ok [OF h db_wf_empty index_ok_empty]) (simp add: empty_db_def)
  obtain r where r: "LookupPlacement no_fault d' ''en'' ''a/b'' = Inr r"
    using LookupPlacement_total by blast
  have "db_assets d' = [?a\<lparr>a_created_at := 7, a_id := 1\<rparr>]"
    using InsertAsset_tables(1) [OF h] by (simp add: empty_db_def mkAsset_def stamped_def tbl_upsert_def)
  then have "(\<forall>a \<in> set (db_assets d'). a_path a = ''a/b'' \<longrightarrow> a_is_override a)
      \<and> (\<forall>a. newestRow (db_assets d') ''en'' ''a/b'' = Some a \<longrightarrow> \<not> a_is_override a)"
    by (simp add: mkAsset_def newestRow_def)
  then show ?thesis
    using LookupPlacement_policy [OF ok r] h r by blast
qed

text \<open>What one inserted row changes for readers, whatever state the index was in: its own server
  reads the inserted content at once; every other path is unaffected; a server with an override
  for the path keeps reading it; a shared row is what every other server reads then; an
  override row changes nothing for other servers once the path has a shared baseline.\<close>

theorem InsertAsset_visibility:
  assumes "InsertAsset f now a d = Inr d'"
  shows "LookupPlacement no_fault d' (a_server a) (a_path a) = Inr (placementFromAsset a (\<not> a_is_override a))
    \<and> (\<forall>server path. path \<noteq> a_path a \<longrightarrow>
          LookupPlacement no_fault d' server path = LookupPlacement no_fault d server path)
    \<and> (\<forall>server. server \<noteq> a_server a \<longrightarrow>
          (if \<exists>r. tbl_lookup curKey (server, a_path a) (db_current d) = Some r \<and> c_is_override r
           then LookupPlacement no_fault d' server (a_path a) = LookupPlacement no_fault d server (a_path a)
           else if \<not> a_is_override a
           then LookupPlacement no_fault d' server (a_path a) = Inr (placementFromAsset a True)
           else tbl_lookup s_path (a_path a) (db_shared d) \<noteq> None \<longrightarrow>
                LookupPlacement no_fault d' server (a_path a) = LookupPlacement no_fault d server (a_path a)))"
proof -
  let ?a = "stamped now a"
  note cur = InsertAsset_lookups(1) [OF assms] and shr = InsertAsset_lookups(2) [OF assms]
  have pfa: "placementFromAsset (scanCurrentAssetRow (curOfAsset ?a)) x = placementFromAsset a x"
    "placementFromAsset (scanCurrentAssetRow (selectShared (sharedOfAsset ?a))) x = placementFromAsset a x"
    "a_is_override (scanCurrentAssetRow (curOfAsset ?a)) = a_is_override a" for x
    by (simp_all add: placementFromAsset_def scanCurrentAssetRow_def selectShared_def curOfAsset_def sharedOfAsset_def)
  have ovr: "a_is_override (scanCurrentAssetRow r) = c_is_override r" for r
    by (simp add: scanCurrentAssetRow_def)
  note unfold = LookupPlacement_def CurrentIndexedByServerPath_def CurrentIndexedSharedByPath_def
    CurrentByServerPath_def CurrentSharedByPath_def
  have own: "LookupPlacement no_fault d' (a_server a) (a_path a) = Inr (placementFromAsset a (\<not> a_is_override a))"
    by (simp add: unfold cur shr pfa)
  have elsewhere: "LookupPlacement no_fault d' server path = LookupPlacement no_fault d server path"
    if "path \<noteq> a_path a" for server path
    using InsertAsset_elsewhere [OF assms that] .
  have others: "if \<exists>r. tbl_lookup curKey (server, a_path a) (db_current d) = Some r \<and> c_is_override r
      then LookupPlacement no_fault d' server (a_path a) = LookupPlacement no_fault d server (a_path a)
      else if \<not> a_is_override a then LookupPlacement no_fault d' server (a_path a) = Inr (placementFromAsset a True)
      else tbl_lookup s_path (a_path a) (db_shared d) \<noteq> None \<longrightarrow>
           LookupPlacement no_fault d' server (a_path a) = LookupPlacement no_fault d server (a_path a)"
    if "server \<noteq> a_server a" for server
    using that by (cases "tbl_lookup curKey (server, a_path a) (db_current d)")
      (auto simp: unfold cur shr pfa ovr)
  show ?thesis using own elsewhere others by blast
qed

theorem InsertAsset_visibility_witness:
  "\<exists>d'. InsertAsset no_fault 7 (mkAsset ''jp'' ''a'' ''a/b'' ''v1'' ''f1'' False ''k'') empty_db = Inr d'
     \<and> LookupPlacement no_fault d' ''en'' ''a/b'' = Inr (placementFromAsset (mkAsset ''jp'' ''a'' ''a/b'' ''v1'' ''f1'' False ''k'') True)"
proof -
  let ?a = "mkAsset ''jp'' ''a'' ''a/b'' ''v1'' ''f1'' False ''k''"
  obtain d' where h: "InsertAsset no_fault 7 ?a empty_db = Inr d'"
    using InsertAsset_total by blast
  have "''en'' \<noteq> a_server ?a" "a_path ?a = ''a/b''" "\<not> a_is_override ?a" "tbl_lookup curKey (''en'', ''a/b'') (db_current empty_db) = None"
    by (simp_all add: mkAsset_def empty_db_def)
  then show ?thesis
    using InsertAsset_visibility [OF h] h by auto
qed

text \<open>The limit of the equivalence of incremental maintenance and recomputation: re-inserting an
  old (server, path, version) row updates it in place under its old id, so the maintained index
  serves the re-inserted content while the newest row of the history, which a recomputation
  would take, is the later version.\<close>

theorem reinsert_drifts_from_rebuild:
  "\<exists>d1 d2 d3. InsertAsset no_fault 7 (mkAsset ''jp'' ''a'' ''a/b'' ''v1'' ''f1'' False ''k1'') empty_db = Inr d1
     \<and> InsertAsset no_fault 7 (mkAsset ''jp'' ''a'' ''a/b'' ''v2'' ''f2'' False ''k2'') d1 = Inr d2
     \<and> InsertAsset no_fault 7 (mkAsset ''jp'' ''a'' ''a/b'' ''v1'' ''f3'' False ''k3'') d2 = Inr d3
     \<and> LookupPlacement no_fault d3 ''jp'' ''a/b''
         = Inr (placementFromAsset (mkAsset ''jp'' ''a'' ''a/b'' ''v1'' ''f3'' False ''k3'') True)
     \<and> map_option a_version (newestRow (db_assets d3) ''jp'' ''a/b'') = Some ''v2'' \<and> \<not> index_ok d3"
proof -
  let ?a1 = "mkAsset ''jp'' ''a'' ''a/b'' ''v1'' ''f1'' False ''k1''"
  let ?a2 = "mkAsset ''jp'' ''a'' ''a/b'' ''v2'' ''f2'' False ''k2''"
  let ?a3 = "mkAsset ''jp'' ''a'' ''a/b'' ''v1'' ''f3'' False ''k3''"
  obtain d1 where d1: "InsertAsset no_fault 7 ?a1 empty_db = Inr d1" using InsertAsset_total by blast
  obtain d2 where d2: "InsertAsset no_fault 7 ?a2 d1 = Inr d2" using InsertAsset_total by blast
  obtain d3 where d3: "InsertAsset no_fault 7 ?a3 d2 = Inr d3" using InsertAsset_total by blast
  have "db_assets d1 = [?a1\<lparr>a_created_at := 7, a_id := 1\<rparr>]" "db_asset_seq d1 = 1"
    using InsertAsset_tables(1,2) [OF d1] by (simp_all add: empty_db_def mkAsset_def stamped_def tbl_upsert_def)
  then have "db_assets d2 = [?a1\<lparr>a_created_at := 7, a_id := 1\<rparr>, ?a2\<lparr>a_created_at := 7, a_id := 2\<rparr>]" "db_asset_seq d2 = 2"
    using InsertAsset_tables(1,2) [OF d2] by (simp_all add: mkAsset_def stamped_def tbl_upsert_def assetKey_def)
  then have "db_assets d3 = [?a3\<lparr>a_created_at := 7, a_id := 1\<rparr>, ?a2\<lparr>a_created_at := 7, a_id := 2\<rparr>]"
    using InsertAsset_tables(1) [OF d3] by (simp add: mkAsset_def stamped_def tbl_upsert_def assetKey_def updAsset_def)
  then have v2: "map_option a_version (newestRow (db_assets d3) ''jp'' ''a/b'') = Some ''v2''"
    by (simp add: newestRow_def mkAsset_def first_by_def)
  have cur: "tbl_lookup curKey (''jp'', ''a/b'') (db_current d3) = Some (curOfAsset (stamped 7 ?a3))"
    using InsertAsset_tables(3) [OF d3] by (simp add: current_tbl.lookup_replace curKey_def curOfAsset_def mkAsset_def)
  have "\<not> index_ok d3"
    using v2 cur by (auto simp: index_ok_def curOfAsset_def mkAsset_def)
  moreover have "LookupPlacement no_fault d3 ''jp'' ''a/b'' = Inr (placementFromAsset ?a3 True)"
  proof -
    have "tbl_lookup s_path ''a/b'' (db_shared d3) = Some (sharedOfAsset (stamped 7 ?a3))"
      using InsertAsset_tables(4) [OF d3] by (simp add: shared_tbl.lookup_replace sharedOfAsset_def mkAsset_def)
    with cur show ?thesis
      by (simp add: LookupPlacement_def CurrentIndexedByServerPath_def CurrentIndexedSharedByPath_def
          scanCurrentAssetRow_def selectShared_def curOfAsset_def sharedOfAsset_def placementFromAsset_def mkAsset_def)
  qed
  ultimately show ?thesis using d1 d2 d3 v2 by blast
qed

text \<open>The limit of the exactness of the bundle aggregates: when a shared path moves to another
  bundle, only the new bundle is refreshed, so the old bundle keeps its aggregate row with a
  file count of 1 although no current file belongs to it any more.\<close>

theorem moved_path_leaves_stale_aggregate:
  "\<exists>d1 d2. InsertAsset no_fault 7 (mkAsset ''jp'' ''old'' ''a/b'' ''v1'' ''f1'' False ''k1'') empty_db = Inr d1
     \<and> InsertAsset no_fault 7 (mkAsset ''jp'' ''new'' ''a/b'' ''v2'' ''f2'' False ''k2'') d1 = Inr d2
     \<and> bundles_ok d1 \<and> map_option sb_file_count (tbl_lookup sb_bundle_path ''old'' (db_sbundles d2)) = Some 1
     \<and> filter (\<lambda>r. s_bundle_path r = ''old'') (db_shared d2) = [] \<and> \<not> bundles_ok d2"
proof -
  let ?a1 = "mkAsset ''jp'' ''old'' ''a/b'' ''v1'' ''f1'' False ''k1''"
  let ?a2 = "mkAsset ''jp'' ''new'' ''a/b'' ''v2'' ''f2'' False ''k2''"
  obtain d1 where d1: "InsertAsset no_fault 7 ?a1 empty_db = Inr d1" using InsertAsset_total by blast
  obtain d2 where d2: "InsertAsset no_fault 7 ?a2 d1 = Inr d2" using InsertAsset_total by blast
  have "sameBundle ?a1 empty_db" by (simp add: empty_db_def sameBundle_def)
  then have ok: "bundles_ok d1" using InsertAsset_bundles_ok [OF d1 bundles_ok_empty] by simp
  have s1: "db_shared d1 = [sharedOfAsset (stamped 7 ?a1)]"
    using InsertAsset_tables(4) [OF d1] by (simp add: empty_db_def mkAsset_def tbl_upsert_def)
  then have none: "filter (\<lambda>r. s_bundle_path r = ''old'') (db_shared d2) = []"
    using InsertAsset_tables(4) [OF d2]
    by (simp add: mkAsset_def tbl_upsert_def sharedOfAsset_def updShared_def)
  have "tbl_lookup sb_bundle_path ''old'' (db_sbundles d1) = sharedAgg ''old'' (db_shared d1)"
    using ok by (simp add: bundles_ok_def)
  then have old1: "map_option sb_file_count (tbl_lookup sb_bundle_path ''old'' (db_sbundles d1)) = Some 1"
    by (simp add: s1 sharedAgg_def sharedOfAsset_def mkAsset_def)
  obtain d' where "refreshBundleAggregates (\<lambda>i. None) (stamped 7 ?a2) d' = Inr d2" "db_sbundles d' = db_sbundles d1"
    using InsertAsset_aggregates [OF d2] by metis
  then have "tbl_lookup sb_bundle_path ''old'' (db_sbundles d2) = tbl_lookup sb_bundle_path ''old'' (db_sbundles d1)"
    by (subst refresh_lookup_shared) (auto simp: mkAsset_def)
  with old1 have old2: "map_option sb_file_count (tbl_lookup sb_bundle_path ''old'' (db_sbundles d2)) = Some 1" by simp
  have "sharedAgg ''old'' (db_shared d2) = None"
    using none by (simp add: sharedAgg_def)
  with old2 have "tbl_lookup sb_bundle_path ''old'' (db_sbundles d2) \<noteq> sharedAgg ''old'' (db_shared d2)" by auto
  then have "\<not> bundles_ok d2" unfolding bundles_ok_def by (metis list.distinct(1))
  then show ?thesis using d1 d2 ok old2 none by blast
qed

end
