(* ===== verification/Session.thy ===== *)
theory Session
  imports Messages Keys ReadPath
begin

text \<open>
  One HIP connection: \<^verbatim>\<open>internal/hipserver/session.go\<close>, \<^verbatim>\<open>upload.go\<close> and the parts of \<^verbatim>\<open>server.go\<close>
  the session uses. The record \<open>session\<close> has the fields of the Go struct that carry state; the
  record \<open>world\<close> has what the handlers act on: the database, the frames enqueued on the
  writer, the requests made to the object store, the paths reported to the lookup cache and
  the metrics. A handler maps both to an outcome (continue, stop with an error, or blocked on
  a channel) and the new states. What the code does not decide is in the record \<open>env\<close>, one per
  frame: errors of SQL statements, of the writer, of the upload pipe and of the object store,
  the clock, the random session id, the iteration order of Go maps, and whether the session's
  context is found cancelled at the head of the read loop (\<open>e_ctx\<close>), in the wait for an upload
  slot (\<open>e_cancel\<close>) or when the n-th DELETE of a handler is to go out (\<open>e_done\<close>): the HTTP client
  sends nothing under a cancelled context.
\<close>

section \<open>Data\<close>

datatype sessionState = stateHandshake | stateHandshaked | stateRunning | stateCommitting
  | stateFinalized | stateClosed

record config =
  cfg_bearer_token :: string
  cfg_max_frame :: u64
  cfg_max_in_flight_uploads :: u32
  cfg_allowed_servers :: "string list"
  cfg_server_version :: string
  cfg_has_cache :: bool

record shared_reuse =
  sr_server :: string
  sr_bundle_path :: string
  sr_path :: string
  sr_fingerprint :: string
  sr_storage_key :: string

record checked_bundle =
  kb_bundle_path :: string
  kb_fingerprint :: string
  kb_source :: string
  kb_uploaded :: bool
  kb_reuse :: bool

text \<open>\<open>up_hashed\<close> is what the hasher and the pipe have been fed.\<close>

record inflight_upload =
  up_stream_id :: u32
  up_bundle_path :: string
  up_path :: string
  up_fingerprint :: string
  up_content_type :: string
  up_expected_size :: u64
  up_placement :: string
  up_hashed :: "byte list"
  up_total_read :: u64
  up_temp_key :: string
  up_closed :: bool

text \<open>\<open>se_sem\<close> is the semaphore channel: \<open>None\<close> is the nil channel of a session before HELLO,
  \<open>Some n\<close> a channel that holds n tokens.\<close>

record session =
  se_max_frame :: u64
  se_hello :: hello
  se_session_id :: string
  se_state :: sessionState
  se_uploads :: "(u32 \<times> inflight_upload) list"
  se_sem :: "nat option"
  se_pending :: "asset list"
  se_shared_reuse :: "(string \<times> shared_reuse) list"
  se_bundles :: "(string \<times> checked_bundle) list"

text \<open>Requests to the object store, with what the gateway learns of them. \<open>PutStarted\<close> is the call of
  \<open>Put\<close> in the goroutine of an upload, \<open>PutDone\<close> that PUT answered with success after the whole body
  was streamed, \<open>DeleteSent\<close> a DELETE that left the gateway, whatever its answer.\<close>

datatype storage_op = PutStarted string string | PutDone string string "byte list" | PipeAborted string
  | CopyDone string string | CopyFailed string string | DeleteSent string

record world =
  w_db :: db
  w_sent :: "frame list"
  w_storage :: "storage_op list"
  w_invalidated :: "string list list"
  w_uploads_total :: "string list"
  w_bytes_ingested :: "u64 list"

datatype session_error = Fatal string string | SendFailed string | EncodeFailed string
  | PeerBye | PeerFatal | CtxDone string | ReadFailed frame_error

datatype outcome = Continue | Stop session_error | Blocked

record env =
  e_sql :: "string \<Rightarrow> nat \<Rightarrow> sqlfault"
  e_now :: "string \<Rightarrow> nat \<Rightarrow> int"
  e_send :: "string option"
  e_session_id :: string
  e_ctx :: "string option"
  e_cancel :: "string option"
  e_done :: "nat \<Rightarrow> bool"
  e_pipe :: "string option"
  e_put :: "string option"
  e_copy :: "string option"
  e_iter_reuses :: "checked_bundle list \<Rightarrow> checked_bundle list"
  e_iter_completions :: "checked_bundle list \<Rightarrow> checked_bundle list"
  e_iter_shared :: "shared_reuse list \<Rightarrow> shared_reuse list"
  e_iter_uploads :: "inflight_upload list \<Rightarrow> inflight_upload list"

text \<open>A \<^verbatim>\<open>range\<close> over a map visits its entries, in some order.\<close>

definition fair_env :: "env \<Rightarrow> bool" where
  "fair_env e \<longleftrightarrow> (\<forall>xs. set (e_iter_reuses e xs) = set xs) \<and> (\<forall>xs. set (e_iter_completions e xs) = set xs)
     \<and> (\<forall>xs. set (e_iter_shared e xs) = set xs) \<and> (\<forall>xs. set (e_iter_uploads e xs) = set xs)"

section \<open>server.go\<close>

definition NewServer :: "config \<Rightarrow> config" where
  "NewServer cfg =
     (let cfg = (if cfg_max_frame cfg = 0 then cfg\<lparr>cfg_max_frame := 16 * 1024 * 1024\<rparr> else cfg);
          cfg = (if cfg_max_in_flight_uploads cfg = 0 then cfg\<lparr>cfg_max_in_flight_uploads := 8\<rparr> else cfg)
      in if cfg_server_version cfg = [] then cfg\<lparr>cfg_server_version := ''moe-assets-gateway/1''\<rparr> else cfg)"

definition serverAllowed :: "config \<Rightarrow> string \<Rightarrow> bool" where
  "serverAllowed cfg region \<longleftrightarrow> region \<in> set (cfg_allowed_servers cfg)"

section \<open>session.go: bookkeeping\<close>

definition bundleKey :: "string \<Rightarrow> string \<Rightarrow> string" where
  "bundleKey bundlePath fingerprint = bundlePath @ [CHR 0x00] @ fingerprint"

definition rememberCheckedBundle :: "string \<Rightarrow> string \<Rightarrow> string \<Rightarrow> bool \<Rightarrow> session \<Rightarrow> session" where
  "rememberCheckedBundle bundlePath fingerprint source reuse s =
     (let key = bundleKey bundlePath fingerprint
      in s\<lparr>se_bundles := mapSet key
             (case mapGet key (se_bundles s) of
                Some existing \<Rightarrow> existing\<lparr>kb_source := source, kb_reuse := kb_reuse existing \<or> reuse\<rparr>
              | None \<Rightarrow> \<lparr>kb_bundle_path = bundlePath, kb_fingerprint = fingerprint, kb_source = source,
                          kb_uploaded = False, kb_reuse = reuse\<rparr>) (se_bundles s)\<rparr>)"

definition markBundleUploaded :: "string \<Rightarrow> string \<Rightarrow> session \<Rightarrow> session" where
  "markBundleUploaded bundlePath fingerprint s =
     (let key = bundleKey bundlePath fingerprint;
          entry = (case mapGet key (se_bundles s) of
                     Some entry \<Rightarrow> entry
                   | None \<Rightarrow> \<lparr>kb_bundle_path = bundlePath, kb_fingerprint = fingerprint, kb_source = [],
                               kb_uploaded = False, kb_reuse = False\<rparr>)
      in s\<lparr>se_bundles := mapSet key
             (entry\<lparr>kb_uploaded := True, kb_source := BundleCompletionSourceUploaded\<rparr>) (se_bundles s)\<rparr>)"

definition crossRegionReuseKey :: "string \<Rightarrow> string \<Rightarrow> string" where
  "crossRegionReuseKey path fingerprint = path @ [CHR 0x00] @ fingerprint"

definition rememberSharedReuse :: "string \<Rightarrow> string \<Rightarrow> string \<Rightarrow> string \<Rightarrow> session \<Rightarrow> session" where
  "rememberSharedReuse bundlePath path fingerprint storageKey s =
     (if storageKey = [] then s
      else s\<lparr>se_shared_reuse := mapSet (crossRegionReuseKey path fingerprint)
              \<lparr>sr_server = hl_region (se_hello s), sr_bundle_path = bundlePath, sr_path = path,
               sr_fingerprint = fingerprint, sr_storage_key = storageKey\<rparr> (se_shared_reuse s)\<rparr>)"

definition pendingStorageKeyBySHA :: "string \<Rightarrow> session \<Rightarrow> string option" where
  "pendingStorageKeyBySHA sha s =
     (if sha = [] then None
      else map_option a_storage_key (find (\<lambda>a. a_sha256 a = sha \<and> a_storage_key a \<noteq> []) (se_pending s)))"

definition completionOf :: "int \<Rightarrow> session \<Rightarrow> checked_bundle \<Rightarrow> bundle_completion" where
  "completionOf versionID s entry =
     (let source = (if kb_source entry = [] then BundleCompletionSourceZeroFile else kb_source entry);
          source = (if kb_uploaded entry then BundleCompletionSourceUploaded else source)
      in \<lparr>bc_id = 0, bc_version_id = versionID, bc_server = hl_region (se_hello s),
          bc_asset_version = hl_asset_version (se_hello s), bc_asset_hash = hl_asset_hash (se_hello s),
          bc_bundle_path = kb_bundle_path entry, bc_fingerprint = kb_fingerprint entry,
          bc_source = source, bc_completed_at = 0\<rparr>)"

definition bundleCompletions :: "env \<Rightarrow> int \<Rightarrow> session \<Rightarrow> bundle_completion list" where
  "bundleCompletions e versionID s =
     map (completionOf versionID s) (e_iter_completions e (map snd (se_bundles s)))"

definition bundleCompletionSourceRank :: "string \<Rightarrow> nat" where
  "bundleCompletionSourceRank source =
     (if source = BundleCompletionSourceUploaded then 3
      else if source = BundleCompletionSourceCheckSkip then 2
      else if source = BundleCompletionSourceZeroFile then 1
      else 0)"

text \<open>The map of completions by bundle path.\<close>

definition mergeBundleCompletion ::
    "(string \<times> bundle_completion) list \<Rightarrow> bundle_completion \<Rightarrow> (string \<times> bundle_completion) list" where
  "mergeBundleCompletion completions c =
     (if bc_bundle_path c = [] then completions
      else
        case mapGet (bc_bundle_path c) completions of
          Some existing \<Rightarrow>
            if bundleCompletionSourceRank (bc_source existing) > bundleCompletionSourceRank (bc_source c)
            then completions
            else mapSet (bc_bundle_path c) c completions
        | None \<Rightarrow> mapSet (bc_bundle_path c) c completions)"

definition bundleCompletionMap :: "env \<Rightarrow> int \<Rightarrow> session \<Rightarrow> (string \<times> bundle_completion) list" where
  "bundleCompletionMap e versionID s = foldl mergeBundleCompletion [] (bundleCompletions e versionID s)"

definition bundleReuses :: "env \<Rightarrow> session \<Rightarrow> checked_bundle list" where
  "bundleReuses e s = filter kb_reuse (e_iter_reuses e (map snd (se_bundles s)))"

definition normalizeBundleCompletionSource :: "string \<Rightarrow> string" where
  "normalizeBundleCompletionSource source =
     (if source = BundleCompletionSourceUploaded \<or> source = BundleCompletionSourceCheckSkip
         \<or> source = BundleCompletionSourceZeroFile
      then source else BundleCompletionSourceZeroFile)"

text \<open>The entries of the map have distinct bundle paths, so that the sort has one result.\<close>

definition sortedBundleCompletions :: "(string \<times> bundle_completion) list \<Rightarrow> bundle_completion list" where
  "sortedBundleCompletions completions = sort_key bc_bundle_path (map snd completions)"

definition sortedPathKeys :: "string list \<Rightarrow> string list" where
  "sortedPathKeys paths = sort (remdups paths)"

section \<open>session.go: sending\<close>

definition ret :: "session_error option \<Rightarrow> outcome" where
  "ret err = (case err of None \<Rightarrow> Continue | Some x \<Rightarrow> Stop x)"

definition send :: "codec \<Rightarrow> env \<Rightarrow> byte \<Rightarrow> out_msg \<Rightarrow> world \<Rightarrow> session_error option \<times> world" where
  "send cd e t m w =
     (case (case m of MNone \<Rightarrow> Inr [] | _ \<Rightarrow> enc_msg cd m) of
        Inl err \<Rightarrow> (Some (EncodeFailed err), w)
      | Inr payload \<Rightarrow>
          (case e_send e of
             Some err \<Rightarrow> (Some (SendFailed err), w)
           | None \<Rightarrow> (None, w\<lparr>w_sent := w_sent w @ [\<lparr>f_type = t, f_payload = payload\<rparr>]\<rparr>)))"

definition reply :: "codec \<Rightarrow> env \<Rightarrow> byte \<Rightarrow> out_msg \<Rightarrow> session \<Rightarrow> world \<Rightarrow> outcome \<times> session \<times> world" where
  "reply cd e t m s w = (case send cd e t m w of (err, w') \<Rightarrow> (ret err, s, w'))"

definition sendFatal :: "codec \<Rightarrow> env \<Rightarrow> string \<Rightarrow> string \<Rightarrow> session \<Rightarrow> world \<Rightarrow> outcome \<times> session \<times> world" where
  "sendFatal cd e code message s w =
     (Stop (Fatal code message), s,
      snd (send cd e FrameError (MError \<lparr>ep_code = code, ep_message = message, ep_fatal = True\<rparr>) w))"

definition protoViolate :: "codec \<Rightarrow> env \<Rightarrow> string \<Rightarrow> session \<Rightarrow> world \<Rightarrow> outcome \<times> session \<times> world" where
  "protoViolate cd e message s w = sendFatal cd e ErrCodeProtoViolation message s w"

section \<open>session.go: HELLO and CHECK\<close>

definition handleHello ::
    "config \<Rightarrow> codec \<Rightarrow> env \<Rightarrow> byte list \<Rightarrow> session \<Rightarrow> world \<Rightarrow> outcome \<times> session \<times> world" where
  "handleHello cfg cd e payload s w =
     (if se_state s \<noteq> stateHandshake then protoViolate cd e ''HELLO in wrong state'' s w
      else case dec_hello cd payload of
        Inl _ \<Rightarrow> sendFatal cd e ErrCodeProtoViolation ''bad HELLO payload'' s w
      | Inr h \<Rightarrow>
          if hl_proto h \<noteq> ''hip'' \<or> hl_version h \<noteq> 1
            then sendFatal cd e ErrCodeProtoViolation ''unsupported proto/version'' s w
          else if hl_bearer_token h \<noteq> cfg_bearer_token cfg
            then sendFatal cd e ErrCodeAuthFailed ''bearer token rejected'' s w
          else if \<not> serverAllowed cfg (hl_region h)
            then sendFatal cd e ErrCodeProtoViolation ''region not allowed'' s w
          else if hl_run_id h = [] \<or> hl_asset_version h = []
            then sendFatal cd e ErrCodeProtoViolation ''missing HELLO fields'' s w
          else if (hl_region h = ''jp'' \<or> hl_region h = ''en'') \<and> hl_asset_hash h = []
            then sendFatal cd e ErrCodeProtoViolation ''missing HELLO fields'' s w
          else
            let maxFrame = (if hl_expected_max_frame h \<noteq> 0 \<and> hl_expected_max_frame h < se_max_frame s
                            then hl_expected_max_frame h else se_max_frame s);
                s1 = s\<lparr>se_hello := h, se_session_id := e_session_id e, se_max_frame := maxFrame, se_sem := Some 0\<rparr>;
                known = (case KnownVersion (e_sql e ''known'' 0) (w_db w) (hl_region h) (hl_asset_version h) (hl_asset_hash h) of
                           Inl _ \<Rightarrow> False | Inr b \<Rightarrow> b)
            in case send cd e FrameHelloAck (MHelloAck \<lparr>ha_session_id = se_session_id s1,
                      ha_server_version = cfg_server_version cfg, ha_max_frame = maxFrame,
                      ha_max_in_flight_uploads = cfg_max_in_flight_uploads cfg, ha_sha256_required = True,
                      ha_known_version = known\<rparr>) w of
                 (Some err, w') \<Rightarrow> (Stop err, s1, w')
               | (None, w') \<Rightarrow> (Continue, s1\<lparr>se_state := stateHandshaked\<rparr>, w'))"

fun checkItems ::
    "env \<Rightarrow> db \<Rightarrow> nat \<Rightarrow> check_batch_item list \<Rightarrow> session \<Rightarrow> check_ack_item list
      \<Rightarrow> (string \<times> string) option \<times> session \<times> check_ack_item list" where
  "checkItems e d i [] s acc = (None, s, acc)"
| "checkItems e d i (item # items) s acc =
     (let bundlePath = safeStripInvisible (ci_path item)
      in case SafeRelPath bundlePath of
           Inl _ \<Rightarrow> (Some (ErrCodeProtoViolation, ''unsafe bundle path''), s, acc)
         | Inr _ \<Rightarrow>
             (case CheckBundle (e_sql e ''check'' i) d (hl_region (se_hello s)) bundlePath (ci_fingerprint item) of
                Inl _ \<Rightarrow> (Some (ErrCodeInternal, ''check failed''), s, acc)
              | Inr dec \<Rightarrow>
                  if cd_skip dec
                  then checkItems e d (Suc i) items
                         (rememberCheckedBundle bundlePath (ci_fingerprint item) BundleCompletionSourceCheckSkip
                            (cd_bundle_reuse dec) s)
                         (acc @ [\<lparr>ca_path = bundlePath, ca_action = ActionSkip, ca_placement = []\<rparr>])
                  else checkItems e d (Suc i) items
                         (rememberCheckedBundle bundlePath (ci_fingerprint item) BundleCompletionSourceZeroFile False s)
                         (acc @ [\<lparr>ca_path = bundlePath, ca_action = ActionUpload, ca_placement = cd_placement dec\<rparr>])))"

definition handleCheckBatch ::
    "codec \<Rightarrow> env \<Rightarrow> byte list \<Rightarrow> session \<Rightarrow> world \<Rightarrow> outcome \<times> session \<times> world" where
  "handleCheckBatch cd e payload s w =
     (case dec_check_batch cd payload of
        Inl _ \<Rightarrow> sendFatal cd e ErrCodeProtoViolation ''bad CHECK_BATCH payload'' s w
      | Inr batch \<Rightarrow>
          (case checkItems e (w_db w) 0 (cb_items batch) s [] of
             (Some (code, message), s', _) \<Rightarrow> sendFatal cd e code message s' w
           | (None, s', results) \<Rightarrow>
               reply cd e FrameCheckAck (MCheckResult \<lparr>cr_batch_id = cb_batch_id batch, cr_results = results\<rparr>) s' w))"

section \<open>upload.go\<close>

definition putContentType :: "inflight_upload \<Rightarrow> string" where
  "putContentType u = (if up_content_type u = [] then ''application/octet-stream'' else up_content_type u)"

text \<open>\<open>newInflight\<close> also starts the PUT to the filer, with the content type of the upload or the default.\<close>

definition inflightOf :: "upload_begin \<Rightarrow> string \<Rightarrow> string \<Rightarrow> inflight_upload" where
  "inflightOf begin path tempKey =
     \<lparr>up_stream_id = ub_stream_id begin, up_bundle_path = ub_bundle_path begin, up_path = path,
      up_fingerprint = ub_fingerprint begin, up_content_type = ub_content_type begin,
      up_expected_size = ub_size begin, up_placement = [], up_hashed = [], up_total_read = 0,
      up_temp_key = tempKey, up_closed = False\<rparr>"

definition newInflight :: "upload_begin \<Rightarrow> string \<Rightarrow> string \<Rightarrow> world \<Rightarrow> inflight_upload \<times> world" where
  "newInflight begin path tempKey w =
     (let up = inflightOf begin path tempKey
      in (up, w\<lparr>w_storage := w_storage w @ [PutStarted tempKey (putContentType up)]\<rparr>))"

definition writeChunk :: "env \<Rightarrow> byte list \<Rightarrow> inflight_upload \<Rightarrow> string option \<times> inflight_upload" where
  "writeChunk e data u =
     (e_pipe e, u\<lparr>up_hashed := up_hashed u @ data, up_total_read := up_total_read u + of_nat (length data)\<rparr>)"

text \<open>\<open>finish\<close> closes the pipe and waits for the result of the PUT or the end of the context, of which
  \<open>e_put\<close> is the error.\<close>

definition finish :: "codec \<Rightarrow> env \<Rightarrow> inflight_upload \<Rightarrow> world \<Rightarrow> string result \<times> inflight_upload \<times> world" where
  "finish cd e u w =
     (let u' = u\<lparr>up_closed := True\<rparr>
      in case e_put e of
           Some err \<Rightarrow> (Inl err, u', w)
         | None \<Rightarrow> (Inr (hash_hex cd (up_hashed u)), u',
             w\<lparr>w_storage := w_storage w @ [PutDone (up_temp_key u) (putContentType u) (up_hashed u)]\<rparr>))"

text \<open>\<^verbatim>\<open>storage.Delete(ctx, key)\<close>, whose error every caller drops; n counts the calls of one handler.\<close>

definition deleteLog :: "env \<Rightarrow> nat \<Rightarrow> string \<Rightarrow> storage_op list" where
  "deleteLog e n key = (if e_done e n then [] else [DeleteSent key])"

definition storageDelete :: "env \<Rightarrow> nat \<Rightarrow> string \<Rightarrow> world \<Rightarrow> world" where
  "storageDelete e n key w = w\<lparr>w_storage := w_storage w @ deleteLog e n key\<rparr>"

definition abort :: "env \<Rightarrow> nat \<Rightarrow> inflight_upload \<Rightarrow> world \<Rightarrow> world" where
  "abort e n u w =
     (let w1 = (if up_closed u then w else w\<lparr>w_storage := w_storage w @ [PipeAborted (up_temp_key u)]\<rparr>)
      in if up_temp_key u \<noteq> [] then storageDelete e n (up_temp_key u) w1 else w1)"

definition ackOK :: "u32 \<Rightarrow> string \<Rightarrow> string \<Rightarrow> string \<Rightarrow> upload_ack" where
  "ackOK streamID placement sha storageKey =
     \<lparr>ua_stream_id = streamID, ua_status = UploadStatusOK, ua_placement = placement, ua_server_sha256 = sha,
      ua_storage_key = storageKey, ua_message = []\<rparr>"

definition ackErr :: "u32 \<Rightarrow> string \<Rightarrow> string \<Rightarrow> upload_ack" where
  "ackErr streamID status msg =
     \<lparr>ua_stream_id = streamID, ua_status = status, ua_placement = [], ua_server_sha256 = [],
      ua_storage_key = [], ua_message = msg\<rparr>"

definition verifyEnd :: "codec \<Rightarrow> inflight_upload \<Rightarrow> upload_end \<Rightarrow> (string \<times> string) option" where
  "verifyEnd cd u end =
     (if ue_total_bytes end \<noteq> up_total_read u
        then Some (UploadStatusSizeMismatch, ''client='' @ formatNat (unat (ue_total_bytes end))
               @ '' observed='' @ formatNat (unat (up_total_read u)))
      else if up_expected_size u \<noteq> 0 \<and> up_total_read u \<noteq> up_expected_size u
        then Some (UploadStatusSizeMismatch, ''begin='' @ formatNat (unat (up_expected_size u))
               @ '' observed='' @ formatNat (unat (up_total_read u)))
      else if ue_sha256 end \<noteq> [] \<and> ue_sha256 end \<noteq> hash_hex cd (up_hashed u)
        then Some (UploadStatusShaMismatch, ''client='' @ ue_sha256 end @ '' server='' @ hash_hex cd (up_hashed u))
      else None)"

section \<open>session.go: UPLOAD\<close>

definition semFree :: "config \<Rightarrow> session \<Rightarrow> bool" where
  "semFree cfg s = (case se_sem s of None \<Rightarrow> False | Some n \<Rightarrow> n < unat (cfg_max_in_flight_uploads cfg))"

definition semAcquire :: "session \<Rightarrow> session" where
  "semAcquire s = s\<lparr>se_sem := map_option Suc (se_sem s)\<rparr>"

definition semRelease :: "session \<Rightarrow> session" where
  "semRelease s = s\<lparr>se_sem := map_option (\<lambda>n. n - 1) (se_sem s)\<rparr>"

definition dropInflight :: "u32 \<Rightarrow> session \<Rightarrow> session" where
  "dropInflight streamID s =
     (case mapGet streamID (se_uploads s) of
        None \<Rightarrow> s
      | Some _ \<Rightarrow> semRelease (s\<lparr>se_uploads := mapDel streamID (se_uploads s)\<rparr>))"

definition finishInflight ::
    "codec \<Rightarrow> env \<Rightarrow> u32 \<Rightarrow> string \<Rightarrow> string \<Rightarrow> session \<Rightarrow> world \<Rightarrow> session \<times> world" where
  "finishInflight cd e streamID status msg s w =
     (case mapGet streamID (se_uploads s) of
        None \<Rightarrow> (s, w)
      | Some up \<Rightarrow>
          (dropInflight streamID s,
           snd (send cd e FrameUploadAck (MUploadAck (ackErr streamID status msg)) (abort e 0 up w))))"

definition handleUploadBegin ::
    "config \<Rightarrow> codec \<Rightarrow> env \<Rightarrow> byte list \<Rightarrow> session \<Rightarrow> world \<Rightarrow> outcome \<times> session \<times> world" where
  "handleUploadBegin cfg cd e payload s w =
     (case dec_upload_begin cd payload of
        Inl _ \<Rightarrow> sendFatal cd e ErrCodeProtoViolation ''bad UPLOAD_BEGIN payload'' s w
      | Inr begin \<Rightarrow>
          (case canonicalAssetPath (ub_bundle_path begin) (ub_path begin) of
             Inl _ \<Rightarrow> sendFatal cd e ErrCodeProtoViolation ''unsafe path'' s w
           | Inr canonicalPath \<Rightarrow>
               (case e_cancel e of
                  Some err \<Rightarrow> (Stop (CtxDone err), s, w)
                | None \<Rightarrow>
                    if \<not> semFree cfg s then (Blocked, s, w)
                    else
                      let s1 = semAcquire s
                      in if mapGet (ub_stream_id begin) (se_uploads s1) \<noteq> None
                           then sendFatal cd e ErrCodeProtoViolation ''duplicate stream_id'' (semRelease s1) w
                         else
                           (case CheckPath (e_sql e ''place'' 0) (w_db w) (hl_region (se_hello s1)) canonicalPath
                                   (ub_fingerprint begin) of
                              Inl _ \<Rightarrow> sendFatal cd e ErrCodeInternal ''check for placement'' (semRelease s1) w
                            | Inr dec \<Rightarrow>
                                if cd_skip dec
                                then
                                  let s2 = (if cd_shared_reuse dec
                                            then rememberSharedReuse (ub_bundle_path begin) canonicalPath
                                                   (ub_fingerprint begin) (cd_shared_storage_key dec) s1
                                            else s1)
                                  in reply cd e FrameUploadAck
                                       (MUploadAck (ackErr (ub_stream_id begin) UploadStatusRejected ''already present''))
                                       (semRelease s2) w
                                else
                                  let temp = TempKey (hl_run_id (se_hello s1)) (ub_stream_id begin);
                                      (up0, w1) = newInflight begin canonicalPath temp w;
                                      up = up0\<lparr>up_placement := cd_placement dec\<rparr>
                                  in (Continue, s1\<lparr>se_uploads := mapSet (ub_stream_id begin) up (se_uploads s1)\<rparr>, w1)))))"

definition handleUploadChunk ::
    "codec \<Rightarrow> env \<Rightarrow> byte list \<Rightarrow> session \<Rightarrow> world \<Rightarrow> outcome \<times> session \<times> world" where
  "handleUploadChunk cd e payload s w =
     (case DecodeChunk payload of
        Inl _ \<Rightarrow> sendFatal cd e ErrCodeProtoViolation ''bad UPLOAD_CHUNK payload'' s w
      | Inr (streamID, data) \<Rightarrow>
          (case mapGet streamID (se_uploads s) of
             None \<Rightarrow> sendFatal cd e ErrCodeProtoViolation ''chunk for unknown stream_id'' s w
           | Some up \<Rightarrow>
               (case writeChunk e data up of
                  (err, up') \<Rightarrow>
                    let s1 = s\<lparr>se_uploads := mapSet streamID up' (se_uploads s)\<rparr>
                    in case err of
                         Some msg \<Rightarrow>
                           (case finishInflight cd e streamID UploadStatusRejected (''chunk write failed: '' @ msg) s1 w of
                              (s2, w2) \<Rightarrow> (Continue, s2, w2))
                       | None \<Rightarrow> (Continue, s1, w\<lparr>w_bytes_ingested := w_bytes_ingested w @ [of_nat (length data)]\<rparr>))))"

definition counterUploads :: "string \<Rightarrow> world \<Rightarrow> world" where
  "counterUploads status w = w\<lparr>w_uploads_total := w_uploads_total w @ [status]\<rparr>"

text \<open>The final key: content that is already stored is reused, else placement decides.\<close>

definition reusableKey :: "env \<Rightarrow> string \<Rightarrow> session \<Rightarrow> world \<Rightarrow> string option" where
  "reusableKey e sha s w =
     (case pendingStorageKeyBySHA sha s of
        Some key \<Rightarrow> Some key
      | None \<Rightarrow>
          (case ReusableAssetBySHA (e_sql e ''sha'' 0) (w_db w) sha of
             Inl _ \<Rightarrow> None
           | Inr None \<Rightarrow> None
           | Inr (Some existing) \<Rightarrow> Some (a_storage_key existing)))"

definition finalKeyOf :: "string option \<Rightarrow> inflight_upload \<Rightarrow> session \<Rightarrow> string \<times> bool" where
  "finalKeyOf reused up s =
     (case reused of
        None \<Rightarrow>
          if up_placement up = PlacementShared then (SharedKey (up_path up), False)
          else if up_placement up = PlacementOverride then (OverrideKey (hl_region (se_hello s)) (up_path up), True)
          else (SharedKey (up_path up), False)
      | Some key \<Rightarrow> (key, up_placement up = PlacementOverride))"

definition pendingRow :: "session \<Rightarrow> inflight_upload \<Rightarrow> string \<Rightarrow> bool \<Rightarrow> string \<Rightarrow> asset" where
  "pendingRow s up sha isOverride finalKey =
     \<lparr>a_id = 0, a_server = hl_region (se_hello s), a_bundle_path = up_bundle_path up, a_path = up_path up,
      a_version = hl_asset_version (se_hello s), a_fingerprint = up_fingerprint up, a_sha256 = sha,
      a_size = sint (up_total_read up), a_is_override = isOverride, a_storage_key = finalKey, a_created_at = 0\<rparr>"

definition handleUploadEnd ::
    "codec \<Rightarrow> env \<Rightarrow> byte list \<Rightarrow> session \<Rightarrow> world \<Rightarrow> outcome \<times> session \<times> world" where
  "handleUploadEnd cd e payload s0 w0 =
     (case dec_upload_end cd payload of
        Inl _ \<Rightarrow> sendFatal cd e ErrCodeProtoViolation ''bad UPLOAD_END payload'' s0 w0
      | Inr end \<Rightarrow>
          (case mapGet (ue_stream_id end) (se_uploads s0) of
             None \<Rightarrow> sendFatal cd e ErrCodeProtoViolation ''END for unknown stream_id'' s0 w0
           | Some up0 \<Rightarrow>
               (case finish cd e up0 w0 of
                  (res, up, w) \<Rightarrow>
                    let s = s0\<lparr>se_uploads := mapSet (ue_stream_id end) up (se_uploads s0)\<rparr>
                    in case res of
                         Inl err \<Rightarrow>
                           (case finishInflight cd e (ue_stream_id end) UploadStatusRejected (''put failed: '' @ err) s w of
                              (s', w') \<Rightarrow> (Continue, s', w'))
                       | Inr sha \<Rightarrow>
                           (case verifyEnd cd up end of
                              Some (status, msg) \<Rightarrow>
                                reply cd e FrameUploadAck (MUploadAck (ackErr (ue_stream_id end) status msg))
                                  (dropInflight (ue_stream_id end) s)
                                  (counterUploads (if status = UploadStatusShaMismatch then ''sha_mismatch'' else ''size_mismatch'')
                                    (storageDelete e 0 (up_temp_key up) w))
                            | None \<Rightarrow>
                                let reused = reusableKey e sha s w;
                                    (finalKey, isOverride) = finalKeyOf reused up s
                                in if reused = None \<and> e_copy e \<noteq> None
                                   then reply cd e FrameUploadAck
                                          (MUploadAck (ackErr (ue_stream_id end) UploadStatusRejected ''copy failed''))
                                          (dropInflight (ue_stream_id end) s)
                                          (counterUploads ''upstream_err'' (storageDelete e 0 (up_temp_key up)
                                            (w\<lparr>w_storage := w_storage w @ [CopyFailed (up_temp_key up) finalKey]\<rparr>)))
                                   else
                                     let w1 = (if reused = None
                                               then w\<lparr>w_storage := w_storage w @ [CopyDone (up_temp_key up) finalKey]\<rparr> else w);
                                         s1 = s\<lparr>se_pending := se_pending s @ [pendingRow s up sha isOverride finalKey]\<rparr>;
                                         s2 = markBundleUploaded (up_bundle_path up) (up_fingerprint up) s1
                                     in reply cd e FrameUploadAck
                                          (MUploadAck (ackOK (ue_stream_id end) (up_placement up) sha finalKey))
                                          (dropInflight (ue_stream_id end) s2)
                                          (counterUploads ''ok'' (storageDelete e 0 (up_temp_key up) w1))))))"

text \<open>The cleanup of a session: each upload left over is aborted, in the order of the range over the map, and the directory of
  the run is deleted.\<close>

fun abortUploads :: "env \<Rightarrow> nat \<Rightarrow> inflight_upload list \<Rightarrow> session \<Rightarrow> world \<Rightarrow> session \<times> world" where
  "abortUploads e n [] s w = (s, w)"
| "abortUploads e n (u # us) s w = abortUploads e (Suc n) us (dropInflight (up_stream_id u) s) (abort e n u w)"

definition abortAllUploads :: "env \<Rightarrow> session \<Rightarrow> world \<Rightarrow> session \<times> world" where
  "abortAllUploads e s w =
     (let ups = e_iter_uploads e (map snd (se_uploads s));
          (s', w') = abortUploads e 0 ups s w
      in (s', if hl_run_id (se_hello s) \<noteq> []
              then storageDelete e (length ups) (''/tmp/'' @ hl_run_id (se_hello s)) w' else w'))"

section \<open>session.go: COMMIT\<close>

text \<open>The body of the transaction. \<open>Inl\<close> is a return with \<open>sendFatal\<close> after the rollback.\<close>

definition insertTracked :: "sqlfault \<Rightarrow> int \<Rightarrow> asset \<Rightarrow> db \<times> string list \<Rightarrow> (db \<times> string list) result" where
  "insertTracked f now a dc =
     bindR (InsertAsset f now a (fst dc))
       (\<lambda>d. Inr (d, if a_path a \<noteq> [] then a_path a # snd dc else snd dc))"

definition reuseAsset :: "session \<Rightarrow> asset \<Rightarrow> asset" where
  "reuseAsset s a = a\<lparr>a_id := 0, a_server := hl_region (se_hello s), a_version := hl_asset_version (se_hello s),
     a_created_at := 0\<rparr>"

definition sharedReuseRow :: "session \<Rightarrow> shared_reuse \<Rightarrow> asset" where
  "sharedReuseRow s r =
     \<lparr>a_id = 0, a_server = sr_server r, a_bundle_path = sr_bundle_path r, a_path = sr_path r,
      a_version = hl_asset_version (se_hello s), a_fingerprint = sr_fingerprint r, a_sha256 = [], a_size = 0,
      a_is_override = False, a_storage_key = sr_storage_key r, a_created_at = 0\<rparr>"

definition internalErr :: "string \<Rightarrow> string \<Rightarrow> string \<times> string" where
  "internalErr msg err = (ErrCodeInternal, msg @ err)"

text \<open>The state of the bundle reuse loop also counts the assets inserted.\<close>

definition bundleReuseBody ::
    "env \<Rightarrow> session \<Rightarrow> nat \<Rightarrow> checked_bundle \<Rightarrow> nat \<times> db \<times> string list \<Rightarrow> (string \<times> string) + (nat \<times> db \<times> string list)" where
  "bundleReuseBody e s i br st =
     bindR (mapErr (internalErr ''load bundle reuse assets: '')
              (ReusableBundleAssets (e_sql e ''load'' i) (fst (snd st)) (kb_bundle_path br) (kb_fingerprint br)))
       (\<lambda>assets. foldR (\<lambda>j a st.
            bindR (mapErr (internalErr ''insert bundle reuse asset: '')
                    (insertTracked (e_sql e ''reuse'' (fst st)) (e_now e ''reuse'' (fst st)) (reuseAsset s a) (snd st)))
              (\<lambda>dc. Inr (Suc (fst st), dc))) 0 assets st)"

definition mergeCompleted ::
    "session \<Rightarrow> int \<Rightarrow> nat \<Rightarrow> commit_bundle_completion \<Rightarrow> (string \<times> bundle_completion) list
      \<Rightarrow> (string \<times> string) + (string \<times> bundle_completion) list" where
  "mergeCompleted s versionID i item m =
     (let bundlePath = safeStripInvisible (cc_path item)
      in case SafeRelPath bundlePath of
           Inl _ \<Rightarrow> Inl (ErrCodeProtoViolation, ''unsafe completed bundle path'')
         | Inr _ \<Rightarrow> Inr (mergeBundleCompletion m
             \<lparr>bc_id = 0, bc_version_id = versionID, bc_server = hl_region (se_hello s),
              bc_asset_version = hl_asset_version (se_hello s), bc_asset_hash = hl_asset_hash (se_hello s),
              bc_bundle_path = bundlePath, bc_fingerprint = cc_fingerprint item,
              bc_source = normalizeBundleCompletionSource (cc_source item), bc_completed_at = 0\<rparr>))"

definition commitVersion :: "commit \<Rightarrow> session \<Rightarrow> version" where
  "commitVersion c s =
     \<lparr>v_id = 0, v_server = hl_region (se_hello s), v_app_version = hl_app_version (se_hello s),
      v_asset_version = hl_asset_version (se_hello s), v_asset_hash = hl_asset_hash (se_hello s),
      v_bundle_count = 0, v_committed_at = 0, v_stats_json = marshalCommitStats (cm_stats c)\<rparr>"

definition commitTx ::
    "env \<Rightarrow> commit \<Rightarrow> session \<Rightarrow> db \<Rightarrow> (string \<times> string) + (int \<times> db \<times> string list)" where
  "commitTx e c s d0 =
     bindR (mapErr (internalErr ''begin tx: '') (exec (e_sql e ''begin'' 0 0) d0)) (\<lambda>d.
     bindR (mapErr (internalErr ''insert version: '')
              (InsertVersion (e_sql e ''version'' 0) (e_now e ''version'' 0) (commitVersion c s) d)) (\<lambda>(versionID, d).
     bindR (foldR (\<lambda>i a dc. mapErr (internalErr ''insert asset: '')
              (insertTracked (e_sql e ''pending'' i) (e_now e ''pending'' i) a dc)) 0 (se_pending s) (d, [])) (\<lambda>dc.
     bindR (foldR (bundleReuseBody e s) 0 (bundleReuses e s) (0, dc)) (\<lambda>(_, dc).
     bindR (foldR (\<lambda>i r dc. mapErr (internalErr ''insert reuse asset: '')
              (insertTracked (e_sql e ''shared'' i) (e_now e ''shared'' i) (sharedReuseRow s r) dc))
              0 (e_iter_shared e (map snd (se_shared_reuse s))) dc) (\<lambda>(d, changedPaths).
     bindR (foldR (mergeCompleted s versionID) 0 (cm_completed_bundles c) (bundleCompletionMap e versionID s)) (\<lambda>m.
     bindR (foldR (\<lambda>i completion d. mapErr (internalErr ''insert bundle completion: '')
              (InsertBundleCompletion (e_sql e ''completion'' i) (e_now e ''completion'' i) completion d))
              0 (sortedBundleCompletions m) d) (\<lambda>d.
     bindR (mapErr (internalErr ''mark read index current: '') (MarkReadIndexCurrent (e_sql e ''mark'' 0) d)) (\<lambda>d.
     bindR (mapErr (internalErr ''commit tx: '') (exec (e_sql e ''commit'' 0 0) d)) (\<lambda>d.
     Inr (versionID, d, changedPaths))))))))))"

definition handleCommit ::
    "config \<Rightarrow> codec \<Rightarrow> env \<Rightarrow> byte list \<Rightarrow> session \<Rightarrow> world \<Rightarrow> outcome \<times> session \<times> world" where
  "handleCommit cfg cd e payload s w =
     (case dec_commit cd payload of
        Inl _ \<Rightarrow> sendFatal cd e ErrCodeProtoViolation ''bad COMMIT payload'' s w
      | Inr c \<Rightarrow>
          if se_uploads s \<noteq> []
          then sendFatal cd e ErrCodeProtoViolation
                 (''COMMIT with '' @ formatNat (length (se_uploads s)) @ '' in-flight uploads'') s w
          else
            (case commitTx e c s (w_db w) of
               Inl (code, message) \<Rightarrow> sendFatal cd e code message s w
             | Inr (versionID, d, changedPaths) \<Rightarrow>
                 let invalidatedPaths = sortedPathKeys changedPaths;
                     w1 = w\<lparr>w_db := d\<rparr>;
                     w2 = (if cfg_has_cache cfg \<and> invalidatedPaths \<noteq> []
                           then w1\<lparr>w_invalidated := w_invalidated w1 @ [invalidatedPaths]\<rparr> else w1)
                 in reply cd e FrameCommitAck
                      (MCommitAck \<lparr>ck_version_id = of_int versionID, ck_override_index_rebuilt = True\<rparr>)
                      (s\<lparr>se_state := stateFinalized\<rparr>) w2))"

section \<open>session.go: dispatch and the session loop\<close>

definition dispatch ::
    "config \<Rightarrow> codec \<Rightarrow> env \<Rightarrow> frame \<Rightarrow> session \<Rightarrow> world \<Rightarrow> outcome \<times> session \<times> world" where
  "dispatch cfg cd e f s w =
     (let st = se_state s; t = f_type f
      in if t = FrameHello then handleHello cfg cd e (f_payload f) s w
         else if t = FrameCheckBatch
           then if st \<noteq> stateHandshaked \<and> st \<noteq> stateRunning then protoViolate cd e ''CHECK_BATCH in wrong state'' s w
                else handleCheckBatch cd e (f_payload f) (s\<lparr>se_state := stateRunning\<rparr>) w
         else if t = FrameUploadBegin
           then if st \<noteq> stateHandshaked \<and> st \<noteq> stateRunning then protoViolate cd e ''UPLOAD_BEGIN in wrong state'' s w
                else handleUploadBegin cfg cd e (f_payload f) (s\<lparr>se_state := stateRunning\<rparr>) w
         else if t = FrameUploadChunk
           then if st \<noteq> stateRunning then protoViolate cd e ''UPLOAD_CHUNK in wrong state'' s w
                else handleUploadChunk cd e (f_payload f) s w
         else if t = FrameUploadEnd
           then if st \<noteq> stateRunning then protoViolate cd e ''UPLOAD_END in wrong state'' s w
                else handleUploadEnd cd e (f_payload f) s w
         else if t = FrameCommit
           then if st \<noteq> stateHandshaked \<and> st \<noteq> stateRunning then protoViolate cd e ''COMMIT in wrong state'' s w
                else handleCommit cfg cd e (f_payload f) (s\<lparr>se_state := stateCommitting\<rparr>) w
         else if t = FrameBye then (Stop PeerBye, s, w)
         else if t = FramePing then reply cd e FramePong MNone s w
         else if t = FramePong then (Continue, s, w)
         else if t = FrameError
           then (case dec_error cd (f_payload f) of
                   Inr ep \<Rightarrow> if ep_fatal ep then (Stop PeerFatal, s, w) else (Continue, s, w)
                 | Inl _ \<Rightarrow> (Continue, s, w))
         else protoViolate cd e (''unexpected frame '' @ frameTypeString t) s w)"

definition newSession :: "config \<Rightarrow> session" where
  "newSession cfg = \<lparr>se_max_frame = cfg_max_frame cfg, se_hello = hello_zero, se_session_id = [],
     se_state = stateHandshake, se_uploads = [], se_sem = None, se_pending = [], se_shared_reuse = [],
     se_bundles = []\<rparr>"

text \<open>The n-th iteration of \<open>readLoop\<close> runs in the n-th environment. The loop ends because every frame shortens the input; it
  is left with an error or while a handler waits for an upload slot that nobody will free.\<close>

function readLoop ::
    "config \<Rightarrow> codec \<Rightarrow> (nat \<Rightarrow> env) \<Rightarrow> frame_reader \<Rightarrow> session \<Rightarrow> world \<Rightarrow> outcome \<times> session \<times> world" where
  "readLoop cfg cd es fr s w =
     (case e_ctx (es 0) of
        Some err \<Rightarrow> (Stop (CtxDone err), s, w)
      | None \<Rightarrow>
          (case FrameReader_ReadFrame fr (se_max_frame s) of
             (Inl err, _) \<Rightarrow> (Stop (ReadFailed err), s, w)
           | (Inr f, fr') \<Rightarrow>
               (case dispatch cfg cd (es 0) f s w of
                  (Continue, s', w') \<Rightarrow> readLoop cfg cd (\<lambda>n. es (Suc n)) fr' s' w'
                | (out, s', w') \<Rightarrow> (out, s', w'))))"
  by pat_completeness auto
termination
  by (relation "measure (\<lambda>(cfg, cd, es, fr, s, w). length (st_bytes (fr_stream fr)))") (auto dest!: FrameReader_consumes [OF sym])

declare readLoop.simps [simp del]

definition cleanClose :: "session_error \<Rightarrow> bool" where
  "cleanClose err = (case err of PeerBye \<Rightarrow> True | ReadFailed (IOError EOF) \<Rightarrow> True
     | ReadFailed (IOError (NetError m)) \<Rightarrow> m = ''use of closed network connection'' | _ \<Rightarrow> False)"

definition sessionResult :: "session_error \<Rightarrow> sessionState \<Rightarrow> string" where
  "sessionResult err st =
     (if \<not> cleanClose err then ''abort''
      else if st = stateFinalized \<or> st = stateClosed then ''commit''
      else ''abort'')"

text \<open>The whole connection: the outcome counted for it, and the states after the cleanup, which runs under the context of the
  session: when that was what ended the loop it is still cancelled. A session that stays blocked never reaches the cleanup.\<close>

definition cleanupEnv :: "session_error \<Rightarrow> env \<Rightarrow> env" where
  "cleanupEnv err e = (case err of CtxDone _ \<Rightarrow> e\<lparr>e_done := \<lambda>_. True\<rparr> | _ \<Rightarrow> e)"

definition runSession ::
    "config \<Rightarrow> codec \<Rightarrow> env \<Rightarrow> (nat \<Rightarrow> env) \<Rightarrow> stream \<Rightarrow> world \<Rightarrow> (string \<times> session \<times> world) option" where
  "runSession cfg cd e0 es conn w =
     (case readLoop cfg cd es (NewFrameReader conn) (newSession cfg) w of
        (Stop err, s', w') \<Rightarrow>
          (case abortAllUploads (cleanupEnv err e0) s' w' of (s'', w'') \<Rightarrow> Some (sessionResult err (se_state s''), s'', w''))
      | _ \<Rightarrow> None)"

datatype tick_action = TickIgnored | TickClose | TickPing | TickIdle

text \<open>One tick of \<open>heartbeat\<close>, in nanoseconds since the last frame received and the last PING sent, with the value of the counter
  \<open>processing\<close>. The goroutines that keep and read these values are in theory Watchdog.\<close>

definition second :: int where
  "second = 1000000000"

definition heartbeatTick :: "int \<Rightarrow> int \<Rightarrow> int \<Rightarrow> tick_action" where
  "heartbeatTick sinceLastRecv processing sinceLastPing =
     (if sinceLastRecv > 60 * second
      then if processing > 0 then TickIgnored else TickClose
      else if sinceLastPing > 30 * second then TickPing else TickIdle)"

end
