(* ===== verification/SessionInv.thy ===== *)
theory SessionInv
  imports Session
begin

text \<open>
  Safety of the HIP session: the invariant of the session record, kept by every handler that
  lets the session go on, and the effects each frame can have. The relation \<open>session_run\<close> is the
  connection as a state machine: a frame is handled against whatever the database and the
  rest of the world are at that moment, since other connections act between two frames.
\<close>

section \<open>Sending\<close>

lemma send_world [simp]:
  "w_db (snd (send cd e t m w)) = w_db w" "w_storage (snd (send cd e t m w)) = w_storage w"
  "w_invalidated (snd (send cd e t m w)) = w_invalidated w"
  "w_uploads_total (snd (send cd e t m w)) = w_uploads_total w"
  "w_bytes_ingested (snd (send cd e t m w)) = w_bytes_ingested w"
  by (simp_all add: send_def split: out_msg.splits sum.splits option.splits)

lemma sendFatal_Stop: "sendFatal cd e code msg s w = (out, s', w') \<longleftrightarrow>
    out = Stop (Fatal code msg) \<and> s' = s \<and>
    w' = snd (send cd e FrameError (MError \<lparr>ep_code = code, ep_message = msg, ep_fatal = True\<rparr>) w)"
  by (auto simp: sendFatal_def)

lemma protoViolate_Stop: "protoViolate cd e msg s w = (out, s', w') \<longleftrightarrow>
    out = Stop (Fatal ErrCodeProtoViolation msg) \<and> s' = s \<and>
    w' = snd (send cd e FrameError (MError \<lparr>ep_code = ErrCodeProtoViolation, ep_message = msg, ep_fatal = True\<rparr>) w)"
  by (simp add: protoViolate_def sendFatal_Stop)

lemma reply_eq: "reply cd e t m s w = (out, s', w') \<longleftrightarrow>
    out = ret (fst (send cd e t m w)) \<and> s' = s \<and> w' = snd (send cd e t m w)"
  by (auto simp: reply_def split: prod.splits)

lemma ret_Continue [simp]: "ret err = Continue \<longleftrightarrow> err = None" "Continue = ret err \<longleftrightarrow> err = None"
  by (auto simp: ret_def split: option.splits)

lemmas handler_ends = sendFatal_Stop protoViolate_Stop reply_eq

lemma abort_world [simp]:
  "w_db (abort e n u w) = w_db w" "w_invalidated (abort e n u w) = w_invalidated w" "w_sent (abort e n u w) = w_sent w"
  by (simp_all add: abort_def storageDelete_def Let_def)

lemma storageDelete_world [simp]:
  "w_db (storageDelete e n k w) = w_db w" "w_invalidated (storageDelete e n k w) = w_invalidated w"
  "w_sent (storageDelete e n k w) = w_sent w" "w_storage (storageDelete e n k w) = w_storage w @ deleteLog e n k"
  by (simp_all add: storageDelete_def)

lemma counterUploads_world [simp]:
  "w_db (counterUploads k w) = w_db w" "w_invalidated (counterUploads k w) = w_invalidated w"
  "w_sent (counterUploads k w) = w_sent w" "w_storage (counterUploads k w) = w_storage w"
  by (simp_all add: counterUploads_def)

section \<open>The session invariant\<close>

definition authenticated :: "config \<Rightarrow> hello \<Rightarrow> bool" where
  "authenticated cfg h \<longleftrightarrow> hl_proto h = ''hip'' \<and> hl_version h = 1 \<and> hl_bearer_token h = cfg_bearer_token cfg
     \<and> hl_region h \<in> set (cfg_allowed_servers cfg) \<and> hl_run_id h \<noteq> [] \<and> hl_asset_version h \<noteq> []
     \<and> (hl_region h = ''jp'' \<or> hl_region h = ''en'' \<longrightarrow> hl_asset_hash h \<noteq> [])"

definition upload_ok :: "hello \<Rightarrow> u32 \<Rightarrow> inflight_upload \<Rightarrow> bool" where
  "upload_ok h streamID u \<longleftrightarrow> up_stream_id u = streamID \<and> up_temp_key u = TempKey (hl_run_id h) streamID
     \<and> up_total_read u = of_nat (length (up_hashed u)) \<and> \<not> up_closed u
     \<and> (up_placement u = PlacementShared \<or> up_placement u = PlacementOverride)
     \<and> SafeRelPath (up_path u) = Inr (up_path u)"

definition pending_ok :: "hello \<Rightarrow> asset \<Rightarrow> bool" where
  "pending_ok h a \<longleftrightarrow> a_server a = hl_region h \<and> a_version a = hl_asset_version h
     \<and> SafeRelPath (a_path a) = Inr (a_path a) \<and> a_storage_key a \<noteq> []"

definition reuse_ok :: "hello \<Rightarrow> shared_reuse \<Rightarrow> bool" where
  "reuse_ok h r \<longleftrightarrow> sr_server r = hl_region h \<and> SafeRelPath (sr_path r) = Inr (sr_path r) \<and> sr_storage_key r \<noteq> []"

definition active_ok :: "config \<Rightarrow> session \<Rightarrow> bool" where
  "active_ok cfg s \<longleftrightarrow> authenticated cfg (se_hello s)
     \<and> se_sem s = Some (length (se_uploads s)) \<and> length (se_uploads s) \<le> unat (cfg_max_in_flight_uploads cfg)
     \<and> distinct (map fst (se_uploads s))
     \<and> (\<forall>(i, u) \<in> set (se_uploads s). upload_ok (se_hello s) i u)
     \<and> (\<forall>a \<in> set (se_pending s). pending_ok (se_hello s) a)
     \<and> (\<forall>(k, r) \<in> set (se_shared_reuse s). reuse_ok (se_hello s) r)
     \<and> se_max_frame s \<le> cfg_max_frame cfg"

definition session_inv :: "config \<Rightarrow> session \<Rightarrow> bool" where
  "session_inv cfg s \<longleftrightarrow>
     (case se_state s of
        stateHandshake \<Rightarrow> s = newSession cfg
      | stateHandshaked \<Rightarrow> active_ok cfg s \<and> se_uploads s = [] \<and> se_pending s = [] \<and> se_bundles s = []
      | stateRunning \<Rightarrow> active_ok cfg s
      | stateFinalized \<Rightarrow> active_ok cfg s \<and> se_uploads s = []
      | stateCommitting \<Rightarrow> False
      | stateClosed \<Rightarrow> False)"

lemma session_inv_new: "session_inv cfg (newSession cfg)"
  by (simp add: session_inv_def newSession_def)

lemma active_ok_state [simp]: "active_ok cfg (s\<lparr>se_state := st\<rparr>) = active_ok cfg s"
  by (simp add: active_ok_def)

lemma active_ok_bundles [simp]: "active_ok cfg (s\<lparr>se_bundles := b\<rparr>) = active_ok cfg s"
  by (simp add: active_ok_def)

lemma rememberCheckedBundle_frame:
  "\<exists>b. rememberCheckedBundle bp fp src reuse s = s\<lparr>se_bundles := b\<rparr>"
  by (auto simp: rememberCheckedBundle_def Let_def)

lemma markBundleUploaded_frame: "\<exists>b. markBundleUploaded bp fp s = s\<lparr>se_bundles := b\<rparr>"
  by (auto simp: markBundleUploaded_def Let_def)

lemma active_ok_remember [simp]: "active_ok cfg (rememberCheckedBundle bp fp src reuse s) = active_ok cfg s"
  "se_state (rememberCheckedBundle bp fp src reuse s) = se_state s"
  using rememberCheckedBundle_frame [of bp fp src reuse s] by auto

lemma active_ok_mark [simp]: "active_ok cfg (markBundleUploaded bp fp s) = active_ok cfg s"
  "se_state (markBundleUploaded bp fp s) = se_state s" "se_uploads (markBundleUploaded bp fp s) = se_uploads s"
  "se_pending (markBundleUploaded bp fp s) = se_pending s"
  using markBundleUploaded_frame [of bp fp s] by auto

lemma checkItems_active:
  "checkItems e d i items s acc = (r, s', acc') \<Longrightarrow> active_ok cfg s' = active_ok cfg s \<and> se_state s' = se_state s"
  by (induction e d i items s acc arbitrary: acc' rule: checkItems.induct)
    (auto simp: Let_def split: sum.splits if_splits)

lemma active_ok_drop:
  assumes "active_ok cfg s"
  shows "active_ok cfg (dropInflight i s)" "se_state (dropInflight i s) = se_state s"
proof -
  show "se_state (dropInflight i s) = se_state s"
    by (simp add: dropInflight_def semRelease_def split: option.splits)
  show "active_ok cfg (dropInflight i s)"
    using assms by (auto simp: active_ok_def dropInflight_def semRelease_def length_mapDel set_mapDel
        intro: distinct_mapDel split: option.splits)
qed

lemma active_ok_upload_update:
  assumes "active_ok cfg s" and "mapGet i (se_uploads s) = Some u" and "upload_ok (se_hello s) i u'"
  shows "active_ok cfg (s\<lparr>se_uploads := mapSet i u' (se_uploads s)\<rparr>)"
  using assms by (auto simp: active_ok_def length_mapSet set_mapSet intro: distinct_mapSet)

lemma upload_okI:
  assumes "active_ok cfg s" and "mapGet i (se_uploads s) = Some u"
  shows "upload_ok (se_hello s) i u"
  using assms by (auto simp: active_ok_def dest: mapGet_SomeD)

section \<open>Handlers keep the invariant\<close>

lemma handleHello_Continue:
  assumes "handleHello cfg cd e payload s w = (Continue, s', w')"
  shows "\<exists>h. dec_hello cd payload = Inr h \<and> authenticated cfg h \<and> se_state s = stateHandshake
    \<and> s' = s\<lparr>se_hello := h, se_session_id := e_session_id e, se_sem := Some 0, se_state := stateHandshaked,
          se_max_frame := (if hl_expected_max_frame h \<noteq> 0 \<and> hl_expected_max_frame h < se_max_frame s
                           then hl_expected_max_frame h else se_max_frame s)\<rparr>"
  using assms
  by (auto simp: handleHello_def handler_ends serverAllowed_def authenticated_def Let_def
      split: if_splits sum.splits prod.splits option.splits)

lemma handleHello_inv:
  assumes "handleHello cfg cd e payload s w = (Continue, s', w')" and "session_inv cfg s"
  shows "session_inv cfg s'"
proof -
  from handleHello_Continue [OF assms(1)] obtain h where h: "authenticated cfg h" "se_state s = stateHandshake"
    and s': "s' = s\<lparr>se_hello := h, se_session_id := e_session_id e, se_sem := Some 0, se_state := stateHandshaked,
          se_max_frame := (if hl_expected_max_frame h \<noteq> 0 \<and> hl_expected_max_frame h < se_max_frame s
                           then hl_expected_max_frame h else se_max_frame s)\<rparr>"
    by blast
  with assms(2) have "s = newSession cfg" by (simp add: session_inv_def)
  with h(1) show ?thesis by (auto simp: s' session_inv_def active_ok_def newSession_def)
qed

lemma handleCheckBatch_active:
  assumes "handleCheckBatch cd e payload s w = (out, s', w')"
  shows "active_ok cfg s' = active_ok cfg s" "se_state s' = se_state s" "w_db w' = w_db w"
    "w_storage w' = w_storage w" "w_invalidated w' = w_invalidated w"
proof -
  have "active_ok cfg s' = active_ok cfg s \<and> se_state s' = se_state s"
    using assms by (auto simp: handleCheckBatch_def handler_ends split: sum.splits prod.splits option.splits
        dest: checkItems_active)
  then show "active_ok cfg s' = active_ok cfg s" "se_state s' = se_state s" by simp_all
  show "w_db w' = w_db w" "w_storage w' = w_storage w" "w_invalidated w' = w_invalidated w"
    using assms by (auto simp: handleCheckBatch_def handler_ends split: sum.splits prod.splits option.splits)
qed

lemma CheckPath_placement:
  "CheckPath f d server path fp = Inr dec \<Longrightarrow> \<not> cd_skip dec \<Longrightarrow>
     cd_placement dec = PlacementShared \<or> cd_placement dec = PlacementOverride"
  by (auto simp: CheckPath_def bindR_Inr_iff exec_Inr_iff cd_zero_def PlacementShared_def PlacementOverride_def
      split: if_splits option.splits)

lemma semRelease_acquire [simp]: "semRelease (semAcquire s) = s"
  by (cases "se_sem s") (simp_all add: semRelease_def semAcquire_def)

lemma semRelease_reuse:
  "semRelease (rememberSharedReuse bp p fp k (semAcquire s)) = rememberSharedReuse bp p fp k s"
  by (cases "se_sem s") (simp_all add: semRelease_def semAcquire_def rememberSharedReuse_def)

lemma active_ok_reuse:
  assumes "active_ok cfg s" and "safeSpec p"
  shows "active_ok cfg (rememberSharedReuse bp p fp k s)"
  using assms by (auto simp: active_ok_def rememberSharedReuse_def set_mapSet reuse_ok_def SafeRelPath_eq)

lemma rememberSharedReuse_state [simp]: "se_state (rememberSharedReuse bp p fp k s) = se_state s"
  by (simp add: rememberSharedReuse_def)

text \<open>What an UPLOAD_BEGIN can lead to.\<close>

lemma handleUploadBegin_cases:
  assumes "handleUploadBegin cfg cd e payload s w = (out, s', w')"
  obtains (stopped) "out \<noteq> Continue" and "s' = s" and "w_db w' = w_db w" and "w_storage w' = w_storage w"
      and "w_invalidated w' = w_invalidated w"
  | (rejected) b p k where "dec_upload_begin cd payload = Inr b"
      and "canonicalAssetPath (ub_bundle_path b) (ub_path b) = Inr p" and "semFree cfg s"
      and "s' = s \<or> s' = rememberSharedReuse (ub_bundle_path b) p (ub_fingerprint b) k s"
      and "reply cd e FrameUploadAck
             (MUploadAck (ackErr (ub_stream_id b) UploadStatusRejected ''already present'')) s' w = (out, s', w')"
  | (started) b p and dec :: check_decision where "dec_upload_begin cd payload = Inr b"
      and "canonicalAssetPath (ub_bundle_path b) (ub_path b) = Inr p" and "semFree cfg s"
      and "mapGet (ub_stream_id b) (se_uploads s) = None" and "out = Continue"
      and "w' = w\<lparr>w_storage := w_storage w @ [PutStarted (TempKey (hl_run_id (se_hello s)) (ub_stream_id b))
             (putContentType (inflightOf b p (TempKey (hl_run_id (se_hello s)) (ub_stream_id b))))]\<rparr>"
      and "cd_placement dec = PlacementShared \<or> cd_placement dec = PlacementOverride"
      and "s' = (semAcquire s)\<lparr>se_uploads := mapSet (ub_stream_id b)
             ((inflightOf b p (TempKey (hl_run_id (se_hello s)) (ub_stream_id b)))\<lparr>up_placement := cd_placement dec\<rparr>)
             (se_uploads s)\<rparr>"
proof (cases "\<exists>b p dec. dec_upload_begin cd payload = Inr b \<and> canonicalAssetPath (ub_bundle_path b) (ub_path b) = Inr p
    \<and> e_cancel e = None \<and> semFree cfg s \<and> mapGet (ub_stream_id b) (se_uploads s) = None
    \<and> CheckPath (e_sql e ''place'' 0) (w_db w) (hl_region (se_hello s)) p (ub_fingerprint b) = Inr dec")
  case False
  have acq: "se_uploads (semAcquire s) = se_uploads s" "se_hello (semAcquire s) = se_hello s"
    by (simp_all add: semAcquire_def)
  have "out \<noteq> Continue \<and> s' = s \<and> w_db w' = w_db w \<and> w_storage w' = w_storage w \<and> w_invalidated w' = w_invalidated w"
    using assms False
    by (auto simp: handleUploadBegin_def Let_def acq handler_ends split: sum.splits option.splits if_splits)
  then show thesis using stopped by blast
next
  case True
  then obtain b p dec where h: "dec_upload_begin cd payload = Inr b"
      "canonicalAssetPath (ub_bundle_path b) (ub_path b) = Inr p"
      "e_cancel e = None" "semFree cfg s" "mapGet (ub_stream_id b) (se_uploads s) = None"
      "CheckPath (e_sql e ''place'' 0) (w_db w) (hl_region (se_hello s)) p (ub_fingerprint b) = Inr dec"
    by blast
  have acq: "se_uploads (semAcquire s) = se_uploads s" "se_hello (semAcquire s) = se_hello s"
    by (simp_all add: semAcquire_def)
  show thesis
  proof (cases "cd_skip dec")
    case True
    with h have "handleUploadBegin cfg cd e payload s w = reply cd e FrameUploadAck
             (MUploadAck (ackErr (ub_stream_id b) UploadStatusRejected ''already present''))
             (if cd_shared_reuse dec then rememberSharedReuse (ub_bundle_path b) p (ub_fingerprint b)
                (cd_shared_storage_key dec) s else s) w"
      by (simp add: handleUploadBegin_def acq semRelease_reuse)
    with assms show thesis
      by (intro rejected [OF h(1,2,4), of "cd_shared_storage_key dec"]) (auto simp: reply_eq)
  next
    case False
    with assms h have "out = Continue"
        "w' = w\<lparr>w_storage := w_storage w @ [PutStarted (TempKey (hl_run_id (se_hello s)) (ub_stream_id b))
             (putContentType (inflightOf b p (TempKey (hl_run_id (se_hello s)) (ub_stream_id b))))]\<rparr>"
        "s' = (semAcquire s)\<lparr>se_uploads := mapSet (ub_stream_id b)
        ((inflightOf b p (TempKey (hl_run_id (se_hello s)) (ub_stream_id b)))\<lparr>up_placement := cd_placement dec\<rparr>)
        (se_uploads s)\<rparr>"
      by (simp_all add: handleUploadBegin_def newInflight_def acq Let_def)
    with CheckPath_placement [OF h(6) False] show thesis
      by (intro started [OF h(1,2,4,5), of dec])
  qed
qed

lemma active_ok_begin:
  assumes "active_ok cfg s" and "semFree cfg s" and "mapGet i (se_uploads s) = None" and "upload_ok (se_hello s) i u"
  shows "active_ok cfg ((semAcquire s)\<lparr>se_uploads := mapSet i u (se_uploads s)\<rparr>)"
  using assms
  by (auto simp: active_ok_def semFree_def semAcquire_def length_mapSet set_mapSet intro: distinct_mapSet)

lemma handleUploadBegin_active:
  assumes "handleUploadBegin cfg cd e payload s w = (out, s', w')" and "active_ok cfg s"
  shows "active_ok cfg s' \<and> se_state s' = se_state s \<and> w_db w' = w_db w \<and> w_invalidated w' = w_invalidated w"
  using assms(1)
proof (cases rule: handleUploadBegin_cases)
  case stopped
  with assms(2) show ?thesis by simp
next
  case (rejected b p k)
  have "active_ok cfg (rememberSharedReuse (ub_bundle_path b) p (ub_fingerprint b) k s)"
    using active_ok_reuse [OF assms(2) canonicalAssetPath_InrD(2) [OF rejected(2)]] .
  with rejected(4,5) assms(2) show ?thesis
    by (auto simp: reply_eq)
next
  case (started b p dec)
  have "upload_ok (se_hello s) (ub_stream_id b)
      ((inflightOf b p (TempKey (hl_run_id (se_hello s)) (ub_stream_id b)))\<lparr>up_placement := cd_placement dec\<rparr>)"
    using started(7) canonicalAssetPath_InrD(2) [OF started(2)]
    by (simp add: upload_ok_def inflightOf_def SafeRelPath_eq)
  from active_ok_begin [OF assms(2) started(3,4) this] show ?thesis
    by (simp add: started(6,8) semAcquire_def)
qed

lemma finishInflight_frame:
  assumes "active_ok cfg s" and "finishInflight cd e i status msg s w = (s', w')"
  shows "active_ok cfg s' \<and> se_state s' = se_state s \<and> w_db w' = w_db w \<and> w_invalidated w' = w_invalidated w"
  using assms active_ok_drop [OF assms(1)]
  by (auto simp: finishInflight_def split: option.splits)

lemma writeChunk_ok:
  assumes "upload_ok h i u" and "writeChunk e data u = (err, u')"
  shows "upload_ok h i u'"
  using assms by (auto simp: writeChunk_def upload_ok_def)

lemma handleUploadChunk_active:
  assumes "handleUploadChunk cd e payload s w = (out, s', w')" and "active_ok cfg s"
  shows "active_ok cfg s' \<and> se_state s' = se_state s \<and> w_db w' = w_db w \<and> w_invalidated w' = w_invalidated w"
proof (cases "DecodeChunk payload")
  case (Inl x)
  with assms show ?thesis by (auto simp: handleUploadChunk_def handler_ends)
next
  case (Inr c)
  then obtain i data where c: "DecodeChunk payload = Inr (i, data)" by (cases c) auto
  show ?thesis
  proof (cases "mapGet i (se_uploads s)")
    case None
    with assms c show ?thesis by (auto simp: handleUploadChunk_def handler_ends)
  next
    case (Some u)
    obtain err u' where u': "writeChunk e data u = (err, u')" by (cases "writeChunk e data u")
    let ?s1 = "s\<lparr>se_uploads := mapSet i u' (se_uploads s)\<rparr>"
    have ok: "active_ok cfg ?s1"
      by (rule active_ok_upload_update [OF assms(2) Some writeChunk_ok [OF upload_okI [OF assms(2) Some] u']])
    show ?thesis
    proof (cases err)
      case None
      with assms(1) c Some u' ok show ?thesis by (auto simp: handleUploadChunk_def)
    next
      case (Some msg)
      obtain s2 w2 where f: "finishInflight cd e i UploadStatusRejected (''chunk write failed: '' @ msg) ?s1 w = (s2, w2)"
        by (cases "finishInflight cd e i UploadStatusRejected (''chunk write failed: '' @ msg) ?s1 w")
      with assms(1) c \<open>mapGet i (se_uploads s) = Some u\<close> u' Some have "s' = s2" "w' = w2"
        by (auto simp: handleUploadChunk_def)
      with finishInflight_frame [OF ok f] show ?thesis by simp
    qed
  qed
qed

text \<open>The upload is answered with one UPLOAD_ACK, unless encoding or enqueueing it fails.\<close>

definition acked :: "codec \<Rightarrow> env \<Rightarrow> out_msg \<Rightarrow> world \<Rightarrow> outcome \<Rightarrow> world \<Rightarrow> bool" where
  "acked cd e m w out w' \<longleftrightarrow> out = ret (fst (send cd e FrameUploadAck m w))
     \<and> w_sent w' = w_sent (snd (send cd e FrameUploadAck m w))"

lemma reply_acked:
  assumes "reply cd e FrameUploadAck m s w1 = (out, s', w')" and "w_sent w1 = w_sent w"
  shows "acked cd e m w out w'"
  using assms by (auto simp: acked_def reply_eq send_def split: out_msg.splits sum.splits option.splits)

lemma reply_end:
  assumes "reply cd e FrameUploadAck m s1 w1 = (out, s', w')" and "w_sent w1 = w_sent w"
  shows "s' = s1 \<and> w_db w' = w_db w1 \<and> w_storage w' = w_storage w1 \<and> w_invalidated w' = w_invalidated w1 \<and> acked cd e m w out w'"
  using reply_acked [OF assms] assms(1) by (auto simp: reply_eq)

text \<open>\<open>handleUploadEnd\<close> once the PUT has succeeded: the session with the closed stream, the world with the temporary object, and the
  three answers.\<close>

definition closedStream :: "u32 \<Rightarrow> inflight_upload \<Rightarrow> session \<Rightarrow> session" where
  "closedStream i u s = s\<lparr>se_uploads := mapSet i (u\<lparr>up_closed := True\<rparr>) (se_uploads s)\<rparr>"

definition putWorld :: "inflight_upload \<Rightarrow> world \<Rightarrow> world" where
  "putWorld u w = w\<lparr>w_storage := w_storage w @ [PutDone (up_temp_key u) (putContentType u) (up_hashed u)]\<rparr>"

lemma closedStream_same:
  "reusableKey e sha (closedStream i u s) (putWorld u w) = reusableKey e sha s w"
  "verifyEnd cd (u\<lparr>up_closed := True\<rparr>) n = verifyEnd cd u n" "finalKeyOf r (u\<lparr>up_closed := True\<rparr>) (closedStream i u s) = finalKeyOf r u s"
  "pendingRow (closedStream i u s) (u\<lparr>up_closed := True\<rparr>) x o' k = pendingRow s u x o' k"
  by (simp_all add: closedStream_def putWorld_def reusableKey_def pendingStorageKeyBySHA_def verifyEnd_def finalKeyOf_def pendingRow_def
      split: option.splits)

lemma handleUploadEnd_put:
  assumes "dec_upload_end cd payload = Inr n" and "mapGet (ue_stream_id n) (se_uploads s) = Some u" and "e_put e = None"
    and "sha = hash_hex cd (up_hashed u)" and "finalKeyOf (reusableKey e sha s w) u s = (key, ovr)"
  shows "verifyEnd cd u n = Some (status, msg) \<Longrightarrow> handleUploadEnd cd e payload s w =
      reply cd e FrameUploadAck (MUploadAck (ackErr (ue_stream_id n) status msg)) (dropInflight (ue_stream_id n) (closedStream (ue_stream_id n) u s))
        (counterUploads (if status = UploadStatusShaMismatch then ''sha_mismatch'' else ''size_mismatch'') (storageDelete e 0 (up_temp_key u) (putWorld u w)))"
    and "verifyEnd cd u n = None \<Longrightarrow> reusableKey e sha s w = None \<and> e_copy e \<noteq> None \<Longrightarrow> handleUploadEnd cd e payload s w =
      reply cd e FrameUploadAck (MUploadAck (ackErr (ue_stream_id n) UploadStatusRejected ''copy failed''))
        (dropInflight (ue_stream_id n) (closedStream (ue_stream_id n) u s))
        (counterUploads ''upstream_err'' (storageDelete e 0 (up_temp_key u)
          ((putWorld u w)\<lparr>w_storage := w_storage (putWorld u w) @ [CopyFailed (up_temp_key u) key]\<rparr>)))"
    and "verifyEnd cd u n = None \<Longrightarrow> \<not> (reusableKey e sha s w = None \<and> e_copy e \<noteq> None) \<Longrightarrow> handleUploadEnd cd e payload s w =
      reply cd e FrameUploadAck (MUploadAck (ackOK (ue_stream_id n) (up_placement u) sha key))
        (dropInflight (ue_stream_id n) (markBundleUploaded (up_bundle_path u) (up_fingerprint u)
          ((closedStream (ue_stream_id n) u s)\<lparr>se_pending := se_pending s @ [pendingRow s u sha ovr key]\<rparr>)))
        (counterUploads ''ok'' (storageDelete e 0 (up_temp_key u) (if reusableKey e sha s w = None
          then (putWorld u w)\<lparr>w_storage := w_storage (putWorld u w) @ [CopyDone (up_temp_key u) key]\<rparr> else putWorld u w)))"
  using assms closedStream_same [unfolded closedStream_def putWorld_def]
  by (cases "reusableKey e sha s w"; simp add: handleUploadEnd_def finish_def Let_def closedStream_def putWorld_def)+

text \<open>What an UPLOAD_END can lead to.\<close>

lemma handleUploadEnd_cases:
  assumes "handleUploadEnd cd e payload s w = (out, s', w')"
  obtains (stopped) "\<nexists>n u. dec_upload_end cd payload = Inr n \<and> mapGet (ue_stream_id n) (se_uploads s) = Some u"
      and "out \<noteq> Continue" and "s' = s" and "w_db w' = w_db w" and "w_storage w' = w_storage w"
      and "w_invalidated w' = w_invalidated w"
  | (put_failed) n u err where "dec_upload_end cd payload = Inr n" and "mapGet (ue_stream_id n) (se_uploads s) = Some u"
      and "e_put e = Some err" and "out = Continue"
      and "(s', w') = finishInflight cd e (ue_stream_id n) UploadStatusRejected (''put failed: '' @ err)
             (s\<lparr>se_uploads := mapSet (ue_stream_id n) (u\<lparr>up_closed := True\<rparr>) (se_uploads s)\<rparr>) w"
  | (refused) n u status msg where "dec_upload_end cd payload = Inr n" and "mapGet (ue_stream_id n) (se_uploads s) = Some u"
      and "e_put e = None"
      and "verifyEnd cd u n = Some (status, msg) \<or> verifyEnd cd u n = None \<and> status = UploadStatusRejected
         \<and> reusableKey e (hash_hex cd (up_hashed u)) s w = None \<and> e_copy e \<noteq> None"
      and "s' = dropInflight (ue_stream_id n) (s\<lparr>se_uploads := mapSet (ue_stream_id n) (u\<lparr>up_closed := True\<rparr>) (se_uploads s)\<rparr>)"
      and "w_db w' = w_db w" and "w_invalidated w' = w_invalidated w"
      and "w_storage w' = w_storage w @ [PutDone (up_temp_key u) (putContentType u) (up_hashed u)] @ deleteLog e 0 (up_temp_key u)
         \<or> w_storage w' = w_storage w @ [PutDone (up_temp_key u) (putContentType u) (up_hashed u),
               CopyFailed (up_temp_key u) (fst (finalKeyOf None u s))] @ deleteLog e 0 (up_temp_key u)"
      and "acked cd e (MUploadAck (ackErr (ue_stream_id n) status msg)) w out w'"
  | (stored) n u key ovr where "dec_upload_end cd payload = Inr n" and "mapGet (ue_stream_id n) (se_uploads s) = Some u"
      and "e_put e = None" and "reusableKey e (hash_hex cd (up_hashed u)) s w = None \<longrightarrow> e_copy e = None"
      and "verifyEnd cd u n = None" and "(key, ovr) = finalKeyOf (reusableKey e (hash_hex cd (up_hashed u)) s w) u s"
      and "s' = dropInflight (ue_stream_id n) (markBundleUploaded (up_bundle_path u) (up_fingerprint u)
             (s\<lparr>se_uploads := mapSet (ue_stream_id n) (u\<lparr>up_closed := True\<rparr>) (se_uploads s),
                se_pending := se_pending s @ [pendingRow s u (hash_hex cd (up_hashed u)) ovr key]\<rparr>))"
      and "w_db w' = w_db w" and "w_invalidated w' = w_invalidated w"
      and "w_storage w' = w_storage w @ [PutDone (up_temp_key u) (putContentType u) (up_hashed u)]
             @ (if reusableKey e (hash_hex cd (up_hashed u)) s w = None then [CopyDone (up_temp_key u) key] else [])
             @ deleteLog e 0 (up_temp_key u)"
      and "acked cd e (MUploadAck (ackOK (ue_stream_id n) (up_placement u) (hash_hex cd (up_hashed u)) key)) w out w'"
proof (cases "\<exists>n u. dec_upload_end cd payload = Inr n \<and> mapGet (ue_stream_id n) (se_uploads s) = Some u")
  case False
  have "out \<noteq> Continue \<and> s' = s \<and> w_db w' = w_db w \<and> w_storage w' = w_storage w \<and> w_invalidated w' = w_invalidated w"
    using assms False by (auto simp: handleUploadEnd_def handler_ends split: sum.splits option.splits)
  with False show thesis using stopped by blast
next
  case True
  then obtain n u where n: "dec_upload_end cd payload = Inr n" and u: "mapGet (ue_stream_id n) (se_uploads s) = Some u"
    by blast
  let ?sha = "hash_hex cd (up_hashed u)"
  obtain key ovr where k: "finalKeyOf (reusableKey e ?sha s w) u s = (key, ovr)"
    by (cases "finalKeyOf (reusableKey e ?sha s w) u s")
  note defs = closedStream_def putWorld_def
  show thesis
  proof (cases "e_put e")
    case (Some err)
    with assms n u show thesis
      by (intro put_failed [OF n u Some]) (auto simp: handleUploadEnd_def finish_def Let_def split: prod.splits)
  next
    case put: None
    note eqs = handleUploadEnd_put [OF n u put refl k]
    consider status msg where "verifyEnd cd u n = Some (status, msg)"
      | "verifyEnd cd u n = None" "reusableKey e ?sha s w = None \<and> e_copy e \<noteq> None"
      | "verifyEnd cd u n = None" "\<not> (reusableKey e ?sha s w = None \<and> e_copy e \<noteq> None)"
      by fastforce
    then show thesis
    proof cases
      case (1 status msg)
      from reply_end [OF assms [unfolded eqs(1) [OF 1]], of w] 1 show thesis
        by (intro refused [OF n u put, of status msg]) (auto simp: defs)
    next
      case 2
      from reply_end [OF assms [unfolded eqs(2) [OF 2]], of w] 2 k show thesis
        by (intro refused [OF n u put, of UploadStatusRejected "''copy failed''"]) (auto simp: defs)
    next
      case 3
      from reply_end [OF assms [unfolded eqs(3) [OF 3]], of w] 3 k show thesis
        by (intro stored [OF n u put _ 3(1), of key ovr]) (auto simp: defs)
    qed
  qed
qed

lemma mapDel_mapSet: "mapDel k (mapSet k v m) = mapDel k m"
proof -
  have "filter (\<lambda>x. fst x \<noteq> k) (map (\<lambda>r. if fst r = k then (k, v) else r) m) = filter (\<lambda>x. fst x \<noteq> k) m"
    by (induction m) auto
  then show ?thesis by (simp add: mapDel_def mapSet_def tbl_upsert_def)
qed

lemma dropInflight_set:
  "mapGet i (se_uploads s) = Some u \<Longrightarrow>
     dropInflight i (s\<lparr>se_uploads := mapSet i u' (se_uploads s)\<rparr>) = dropInflight i s"
  by (simp add: dropInflight_def mapDel_mapSet semRelease_def)

lemma reusableKey_nonempty: "reusableKey e sha s w = Some k \<Longrightarrow> k \<noteq> []"
proof -
  have "a_storage_key a \<noteq> []" if "ReusableAssetBySHA f d sha = Inr (Some a)" for f d and a :: asset
    using that by (auto simp: ReusableAssetBySHA_def exec_Inr_iff dest: first_by_filter_SomeD [OF sym] split: if_splits)
  moreover assume "reusableKey e sha s w = Some k"
  ultimately show "k \<noteq> []"
    by (auto simp: reusableKey_def pendingStorageKeyBySHA_def find_Some_iff split: option.splits sum.splits if_splits)
qed

lemma finalKeyOf_nonempty: "finalKeyOf (reusableKey e sha s w) u s = (k, ovr) \<Longrightarrow> k \<noteq> []"
  by (cases "reusableKey e sha s w")
    (auto simp: finalKeyOf_def SharedKey_def OverrideKey_def dest: reusableKey_nonempty split: if_splits)

lemma active_ok_stored:
  assumes "active_ok cfg s" and "mapGet i (se_uploads s) = Some u" and "k \<noteq> []"
  shows "active_ok cfg (dropInflight i (markBundleUploaded bp fp
      (s\<lparr>se_uploads := mapSet i u' (se_uploads s), se_pending := se_pending s @ [pendingRow s u sha ovr k]\<rparr>)))"
proof -
  let ?s = "s\<lparr>se_pending := se_pending s @ [pendingRow s u sha ovr k]\<rparr>"
  have ok: "active_ok cfg ?s"
    using assms(1,3) upload_okI [OF assms(1,2)] by (auto simp: active_ok_def pending_ok_def pendingRow_def upload_ok_def)
  obtain b where b: "markBundleUploaded bp fp
      (s\<lparr>se_uploads := mapSet i u' (se_uploads s), se_pending := se_pending s @ [pendingRow s u sha ovr k]\<rparr>)
      = s\<lparr>se_uploads := mapSet i u' (se_uploads s), se_pending := se_pending s @ [pendingRow s u sha ovr k], se_bundles := b\<rparr>"
    using markBundleUploaded_frame by blast
  let ?s' = "?s\<lparr>se_bundles := b\<rparr>"
  have eq: "s\<lparr>se_uploads := mapSet i u' (se_uploads s), se_pending := se_pending s @ [pendingRow s u sha ovr k], se_bundles := b\<rparr>
      = ?s'\<lparr>se_uploads := mapSet i u' (se_uploads ?s')\<rparr>"
    by (cases s) simp
  have "dropInflight i (markBundleUploaded bp fp
      (s\<lparr>se_uploads := mapSet i u' (se_uploads s), se_pending := se_pending s @ [pendingRow s u sha ovr k]\<rparr>))
      = dropInflight i ?s'"
    unfolding b eq by (rule dropInflight_set) (simp add: assms(2))
  moreover have "active_ok cfg (dropInflight i ?s')"
    using ok by (intro active_ok_drop) simp
  ultimately show ?thesis by (simp only:)
qed

lemma dropInflight_state [simp]: "se_state (dropInflight i s) = se_state s"
  by (simp add: dropInflight_def semRelease_def split: option.splits)

lemma handleUploadEnd_active:
  assumes "handleUploadEnd cd e payload s w = (out, s', w')" and "active_ok cfg s"
  shows "active_ok cfg s' \<and> se_state s' = se_state s \<and> w_db w' = w_db w \<and> w_invalidated w' = w_invalidated w"
  using assms(1)
proof (cases rule: handleUploadEnd_cases)
  case stopped
  with assms(2) show ?thesis by simp
next
  case (put_failed n u err)
  then show ?thesis
    using active_ok_drop [OF assms(2)] by (auto simp: finishInflight_def dropInflight_set)
next
  case (refused n u status msg)
  then show ?thesis
    using active_ok_drop [OF assms(2)] by (simp add: dropInflight_set)
next
  case (stored n u key ovr)
  then show ?thesis
    using active_ok_stored [OF assms(2) stored(2), of key] finalKeyOf_nonempty [OF stored(6) [symmetric]] by simp
qed

lemma handleCommit_cases:
  assumes "handleCommit cfg cd e payload s w = (out, s', w')"
  obtains (stopped) "out \<noteq> Continue" and "s' = s" and "w_db w' = w_db w" and "w_storage w' = w_storage w"
      and "w_invalidated w' = w_invalidated w"
  | (committed) c versionID d changed where "dec_commit cd payload = Inr c" and "se_uploads s = []"
      and "commitTx e c s (w_db w) = Inr (versionID, d, changed)" and "s' = s\<lparr>se_state := stateFinalized\<rparr>"
      and "w_db w' = d" and "w_storage w' = w_storage w"
      and "w_invalidated w' = (if cfg_has_cache cfg \<and> changed \<noteq> []
             then w_invalidated w @ [sortedPathKeys changed] else w_invalidated w)"
      and "out = ret (fst (send cd e FrameCommitAck
             (MCommitAck \<lparr>ck_version_id = of_int versionID, ck_override_index_rebuilt = True\<rparr>) w))"
proof (cases "\<exists>c r. dec_commit cd payload = Inr c \<and> se_uploads s = [] \<and> commitTx e c s (w_db w) = Inr r")
  case False
  have "out \<noteq> Continue \<and> s' = s \<and> w_db w' = w_db w \<and> w_storage w' = w_storage w \<and> w_invalidated w' = w_invalidated w"
    using assms False by (auto simp: handleCommit_def handler_ends split: sum.splits if_splits)
  then show thesis using stopped by blast
next
  case True
  then obtain c versionID d changed where c: "dec_commit cd payload = Inr c" "se_uploads s = []"
      "commitTx e c s (w_db w) = Inr (versionID, d, changed)"
    by (metis prod_cases3)
  have "sortedPathKeys changed = [] \<longleftrightarrow> changed = []"
    by (simp add: sortedPathKeys_def flip: set_empty)
  moreover have "fst (send cd e t m (w\<lparr>w_db := d\<rparr>)) = fst (send cd e t m w)"
      "fst (send cd e t m (w\<lparr>w_db := d, w_invalidated := x\<rparr>)) = fst (send cd e t m w)" for t m x
    by (simp_all add: send_def split: out_msg.splits sum.splits option.splits)
  ultimately show thesis
    using assms c by (intro committed [OF c])
      (auto simp: handleCommit_def Let_def reply_eq split: if_splits)
qed

lemma handleCommit_inv:
  assumes "handleCommit cfg cd e payload s w = (Continue, s', w')" and "active_ok cfg s"
  shows "active_ok cfg s' \<and> se_state s' = stateFinalized \<and> se_uploads s' = []"
  using assms(1) by (cases rule: handleCommit_cases) (use assms(2) in auto)

section \<open>One frame\<close>

lemma dispatch_cases:
  assumes "dispatch cfg cd e f s w = (out, s', w')"
  obtains (hello) "f_type f = FrameHello" and "handleHello cfg cd e (f_payload f) s w = (out, s', w')"
  | (check) "f_type f = FrameCheckBatch" and "se_state s = stateHandshaked \<or> se_state s = stateRunning"
      and "handleCheckBatch cd e (f_payload f) (s\<lparr>se_state := stateRunning\<rparr>) w = (out, s', w')"
  | (begin_upload) "f_type f = FrameUploadBegin" and "se_state s = stateHandshaked \<or> se_state s = stateRunning"
      and "handleUploadBegin cfg cd e (f_payload f) (s\<lparr>se_state := stateRunning\<rparr>) w = (out, s', w')"
  | (chunk) "f_type f = FrameUploadChunk" and "se_state s = stateRunning"
      and "handleUploadChunk cd e (f_payload f) s w = (out, s', w')"
  | (end_upload) "f_type f = FrameUploadEnd" and "se_state s = stateRunning"
      and "handleUploadEnd cd e (f_payload f) s w = (out, s', w')"
  | (commit) "f_type f = FrameCommit" and "se_state s = stateHandshaked \<or> se_state s = stateRunning"
      and "handleCommit cfg cd e (f_payload f) (s\<lparr>se_state := stateCommitting\<rparr>) w = (out, s', w')"
  | (violation) "out \<noteq> Continue" and "s' = s" and "w_db w' = w_db w" and "w_storage w' = w_storage w"
      and "w_invalidated w' = w_invalidated w"
  | (control) "f_type f = FramePing \<or> f_type f = FramePong \<or> f_type f = FrameError \<or> f_type f = FrameBye"
      and "s' = s" and "w_db w' = w_db w" and "w_storage w' = w_storage w" and "w_invalidated w' = w_invalidated w"
proof -
  let ?thesis' = thesis
  show thesis
  proof (cases "f_type f \<in> {FrameHello, FrameCheckBatch, FrameUploadBegin, FrameUploadChunk, FrameUploadEnd, FrameCommit}")
    case False
    then show ?thesis'
      using assms violation control
      by (auto simp: dispatch_def Let_def handler_ends split: if_splits sum.splits)
  next
    case True
    then show ?thesis'
      using assms hello check begin_upload chunk end_upload commit violation
      by (auto simp: dispatch_def Let_def protoViolate_Stop FrameHello_def FrameCheckBatch_def FrameUploadBegin_def
          FrameUploadChunk_def FrameUploadEnd_def FrameCommit_def split: if_splits)
  qed
qed

lemma session_inv_active:
  "session_inv cfg s \<Longrightarrow> se_state s = stateHandshaked \<or> se_state s = stateRunning \<Longrightarrow> active_ok cfg s"
  by (auto simp: session_inv_def)

lemma dispatch_inv:
  assumes "dispatch cfg cd e f s w = (Continue, s', w')" and "session_inv cfg s"
  shows "session_inv cfg s'"
  using assms(1)
proof (cases rule: dispatch_cases)
  case hello
  then show ?thesis using handleHello_inv assms(2) by blast
next
  case check
  with handleCheckBatch_active(1) [OF check(3), of cfg] handleCheckBatch_active(2) [OF check(3)] session_inv_active [OF assms(2)] show ?thesis
    by (simp add: session_inv_def)
next
  case begin_upload
  with handleUploadBegin_active [OF begin_upload(3)] session_inv_active [OF assms(2)] show ?thesis
    by (simp add: session_inv_def)
next
  case chunk
  with handleUploadChunk_active [OF chunk(3)] session_inv_active [OF assms(2)] show ?thesis
    by (simp add: session_inv_def)
next
  case end_upload
  with handleUploadEnd_active [OF end_upload(3)] session_inv_active [OF assms(2)] show ?thesis
    by (simp add: session_inv_def)
next
  case commit
  with handleCommit_inv [OF commit(3)] session_inv_active [OF assms(2)] show ?thesis
    by (simp add: session_inv_def)
qed (use assms(2) in simp_all)

text \<open>Only a COMMIT touches the database and the cache; only upload frames touch the object
  store, and only after the handshake.\<close>

lemma handleHello_quiet:
  assumes "handleHello cfg cd e payload s w = (out, s', w')"
  shows "w_db w' = w_db w" "w_storage w' = w_storage w" "w_invalidated w' = w_invalidated w"
proof -
  have "(send cd e t m w = (x, w'') \<Longrightarrow> w_db w'' = w_db w \<and> w_storage w'' = w_storage w \<and> w_invalidated w'' = w_invalidated w)"
    for t m x w'' using send_world [of cd e t m w] by simp
  with assms show "w_db w' = w_db w" "w_storage w' = w_storage w" "w_invalidated w' = w_invalidated w"
    by (auto simp: handleHello_def handler_ends Let_def split: if_splits sum.splits prod.splits option.splits)
qed

lemma dispatch_effects:
  assumes "dispatch cfg cd e f s w = (out, s', w')" and "session_inv cfg s"
  shows "w_db w' = w_db w \<and> w_invalidated w' = w_invalidated w \<or>
      f_type f = FrameCommit \<and> (se_state s = stateHandshaked \<or> se_state s = stateRunning)
      \<and> se_uploads s = [] \<and> se_state s' = stateFinalized"
    and "w_storage w' = w_storage w \<or>
      (f_type f = FrameUploadBegin \<or> f_type f = FrameUploadChunk \<or> f_type f = FrameUploadEnd) \<and> active_ok cfg s"
proof -
  have "(w_db w' = w_db w \<and> w_invalidated w' = w_invalidated w \<or>
      f_type f = FrameCommit \<and> (se_state s = stateHandshaked \<or> se_state s = stateRunning)
      \<and> se_uploads s = [] \<and> se_state s' = stateFinalized)
    \<and> (w_storage w' = w_storage w \<or>
      (f_type f = FrameUploadBegin \<or> f_type f = FrameUploadChunk \<or> f_type f = FrameUploadEnd) \<and> active_ok cfg s)"
    using assms(1)
  proof (cases rule: dispatch_cases)
    case hello
    then show ?thesis using handleHello_quiet [OF hello(2)] by simp
  next
    case check
    with handleCheckBatch_active(3-5) [OF check(3)] show ?thesis by simp
  next
    case begin_upload
    with handleUploadBegin_active [OF begin_upload(3)] session_inv_active [OF assms(2)] show ?thesis by auto
  next
    case chunk
    with handleUploadChunk_active [OF chunk(3)] session_inv_active [OF assms(2)] show ?thesis by simp
  next
    case end_upload
    with handleUploadEnd_active [OF end_upload(3)] session_inv_active [OF assms(2)] show ?thesis by simp
  next
    case commit
    from commit(3) show ?thesis
      by (cases rule: handleCommit_cases) (use commit in auto)
  qed simp_all
  then show "w_db w' = w_db w \<and> w_invalidated w' = w_invalidated w \<or>
      f_type f = FrameCommit \<and> (se_state s = stateHandshaked \<or> se_state s = stateRunning)
      \<and> se_uploads s = [] \<and> se_state s' = stateFinalized"
    and "w_storage w' = w_storage w \<or>
      (f_type f = FrameUploadBegin \<or> f_type f = FrameUploadChunk \<or> f_type f = FrameUploadEnd) \<and> active_ok cfg s"
    by blast+
qed

section \<open>The connection as a state machine\<close>

text \<open>The trace of the frames handled, each with the world it was handled in and the world it left.\<close>

inductive session_run :: "config \<Rightarrow> codec \<Rightarrow> (frame \<times> world \<times> world) list \<Rightarrow> session \<Rightarrow> bool" where
  run_start: "session_run cfg cd [] (newSession cfg)"
| run_frame: "session_run cfg cd tr s \<Longrightarrow> dispatch cfg cd e f s w = (Continue, s', w')
    \<Longrightarrow> session_run cfg cd (tr @ [(f, w, w')]) s'"

definition commits :: "(frame \<times> world \<times> world) list \<Rightarrow> nat" where
  "commits tr = length (filter (\<lambda>(f, w, w'). f_type f = FrameCommit) tr)"

lemma session_run_inv: "session_run cfg cd tr s \<Longrightarrow> session_inv cfg s"
  by (induction rule: session_run.induct) (auto intro: session_inv_new dispatch_inv)

lemma dispatch_state:
  assumes "dispatch cfg cd e f s w = (Continue, s', w')" and "session_inv cfg s"
  shows "if f_type f = FrameCommit then se_state s \<noteq> stateFinalized \<and> se_state s' = stateFinalized
         else (se_state s' = stateFinalized \<longleftrightarrow> se_state s = stateFinalized)"
  using assms(1)
proof (cases rule: dispatch_cases)
  case hello
  with handleHello_Continue [OF hello(2)] show ?thesis by (auto simp: FrameHello_def FrameCommit_def)
next
  case check
  with handleCheckBatch_active(2) [OF check(3)] show ?thesis by (auto simp: FrameCheckBatch_def FrameCommit_def)
next
  case begin_upload
  with handleUploadBegin_active [OF begin_upload(3)] session_inv_active [OF assms(2)] show ?thesis
    by (auto simp: FrameUploadBegin_def FrameCommit_def)
next
  case chunk
  with handleUploadChunk_active [OF chunk(3)] session_inv_active [OF assms(2)] show ?thesis
    by (auto simp: FrameUploadChunk_def FrameCommit_def)
next
  case end_upload
  with handleUploadEnd_active [OF end_upload(3)] session_inv_active [OF assms(2)] show ?thesis
    by (auto simp: FrameUploadEnd_def FrameCommit_def)
next
  case commit
  with handleCommit_inv [OF commit(3)] session_inv_active [OF assms(2)] show ?thesis by auto
next
  case control
  then show ?thesis
    by (auto simp: FramePing_def FramePong_def FrameError_def FrameBye_def FrameCommit_def)
qed simp

lemma session_run_commits:
  "session_run cfg cd tr s \<Longrightarrow> commits tr = (if se_state s = stateFinalized then 1 else 0)"
proof (induction rule: session_run.induct)
  case (run_start cfg cd)
  then show ?case by (simp add: commits_def newSession_def)
next
  case (run_frame cfg cd tr s e f w s' w')
  from dispatch_state [OF run_frame.hyps(2) session_run_inv [OF run_frame.hyps(1)]] run_frame.IH
  show ?case by (auto simp: commits_def split: if_splits)
qed

lemma session_run_entry:
  assumes "session_run cfg cd tr s" and "(f, w, w') \<in> set tr"
  shows "w_db w' = w_db w \<and> w_invalidated w' = w_invalidated w \<or> f_type f = FrameCommit"
    and "w_storage w' = w_storage w \<or> f_type f = FrameUploadBegin \<or> f_type f = FrameUploadChunk \<or> f_type f = FrameUploadEnd"
proof -
  have "(w_db w' = w_db w \<and> w_invalidated w' = w_invalidated w \<or> f_type f = FrameCommit)
      \<and> (w_storage w' = w_storage w \<or> f_type f = FrameUploadBegin \<or> f_type f = FrameUploadChunk \<or> f_type f = FrameUploadEnd)"
    using assms
  proof (induction rule: session_run.induct)
    case (run_frame cfg cd tr s e f0 w0 s' w0')
    then show ?case
      using dispatch_effects [OF run_frame.hyps(2) session_run_inv [OF run_frame.hyps(1)]] by auto
  qed simp
  then show "w_db w' = w_db w \<and> w_invalidated w' = w_invalidated w \<or> f_type f = FrameCommit"
    and "w_storage w' = w_storage w \<or> f_type f = FrameUploadBegin \<or> f_type f = FrameUploadChunk \<or> f_type f = FrameUploadEnd"
    by blast+
qed

lemma session_run_before_hello:
  assumes "session_run cfg cd tr s" and "\<forall>(f, w, w') \<in> set tr. f_type f \<noteq> FrameHello"
  shows "s = newSession cfg \<and> (\<forall>(f, w, w') \<in> set tr. w_db w' = w_db w \<and> w_storage w' = w_storage w
    \<and> w_invalidated w' = w_invalidated w)"
  using assms
proof (induction rule: session_run.induct)
  case (run_frame cfg cd tr s e f w s' w')
  then have s: "s = newSession cfg" and "f_type f \<noteq> FrameHello" by auto
  from run_frame.hyps(2) have "s' = s \<and> w_db w' = w_db w \<and> w_storage w' = w_storage w \<and> w_invalidated w' = w_invalidated w"
    by (cases rule: dispatch_cases) (use s \<open>f_type f \<noteq> FrameHello\<close> in \<open>auto simp: newSession_def\<close>)
  with run_frame s show ?case by auto
qed simp

section \<open>What reaches the object store\<close>

text \<open>A request a session with this HELLO may make: on its own temporary keys, and copies from them to the final key of a
  path that passed the path check, shared or in its own region.\<close>

definition own_key :: "hello \<Rightarrow> string \<Rightarrow> bool" where
  "own_key h k \<longleftrightarrow> (\<exists>i. k = TempKey (hl_run_id h) i)"

definition final_key :: "hello \<Rightarrow> string \<Rightarrow> bool" where
  "final_key h k \<longleftrightarrow> (\<exists>p. SafeRelPath p = Inr p \<and> (k = SharedKey p \<or> k = OverrideKey (hl_region h) p))"

fun own_op :: "hello \<Rightarrow> storage_op \<Rightarrow> bool" where
  "own_op h (PutStarted k ct) = own_key h k"
| "own_op h (PutDone k ct bs) = own_key h k"
| "own_op h (PipeAborted k) = own_key h k"
| "own_op h (CopyDone src dst) = (own_key h src \<and> final_key h dst)"
| "own_op h (CopyFailed src dst) = (own_key h src \<and> final_key h dst)"
| "own_op h (DeleteSent k) = own_key h k"

definition store_grows :: "hello \<Rightarrow> world \<Rightarrow> world \<Rightarrow> bool" where
  "store_grows h w w' \<longleftrightarrow> (\<exists>ops. w_storage w' = w_storage w @ ops \<and> (\<forall>op \<in> set ops. own_op h op))"

lemma store_grows_same: "w_storage w' = w_storage w \<Longrightarrow> store_grows h w w'"
  by (simp add: store_grows_def)

lemma deleteLog_own: "own_key h k \<Longrightarrow> op \<in> set (deleteLog e n k) \<Longrightarrow> own_op h op"
  by (simp add: deleteLog_def split: if_splits)

lemma upload_own_key: "upload_ok h i u \<Longrightarrow> own_key h (up_temp_key u)"
  by (auto simp: upload_ok_def own_key_def)

lemma abort_grows: "own_key h (up_temp_key u) \<Longrightarrow> store_grows h w (abort e n u w)"
  by (auto simp: store_grows_def abort_def Let_def deleteLog_def)

lemma finishInflight_grows:
  assumes "finishInflight cd e i status msg s w = (s', w')" and "mapGet i (se_uploads s) = Some u" and "own_key h (up_temp_key u)"
  shows "store_grows h w w'"
  using assms abort_grows [OF assms(3), of w e 0] by (auto simp: finishInflight_def store_grows_def)

lemma handleUploadBegin_grows:
  assumes "handleUploadBegin cfg cd e payload s w = (out, s', w')"
  shows "store_grows (se_hello s) w w'"
  using assms
proof (cases rule: handleUploadBegin_cases)
  case (rejected b p k)
  then show ?thesis by (intro store_grows_same) (auto simp: reply_eq)
next
  case (started b p dec)
  then show ?thesis by (auto simp: store_grows_def own_key_def)
qed (simp add: store_grows_same)

lemma handleUploadChunk_grows:
  assumes "handleUploadChunk cd e payload s w = (out, s', w')" and "active_ok cfg s"
  shows "store_grows (se_hello s) w w'"
proof (cases "\<exists>i data u. DecodeChunk payload = Inr (i, data) \<and> mapGet i (se_uploads s) = Some u")
  case False
  with assms(1) show ?thesis
    by (intro store_grows_same) (auto simp: handleUploadChunk_def handler_ends split: sum.splits option.splits)
next
  case True
  then obtain i data u where c: "DecodeChunk payload = Inr (i, data)" and u: "mapGet i (se_uploads s) = Some u" by blast
  obtain err u' where u': "writeChunk e data u = (err, u')" by (cases "writeChunk e data u")
  let ?s1 = "s\<lparr>se_uploads := mapSet i u' (se_uploads s)\<rparr>"
  have key: "own_key (se_hello s) (up_temp_key u')"
    using upload_own_key [OF writeChunk_ok [OF upload_okI [OF assms(2) u] u']] .
  show ?thesis
  proof (cases err)
    case None
    with assms(1) c u u' show ?thesis by (intro store_grows_same) (auto simp: handleUploadChunk_def)
  next
    case (Some msg)
    with assms(1) c u u' have "finishInflight cd e i UploadStatusRejected (''chunk write failed: '' @ msg) ?s1 w = (s', w')"
      by (auto simp: handleUploadChunk_def split: prod.splits)
    from finishInflight_grows [OF this _ key] show ?thesis by simp
  qed
qed

lemma finalKeyOf_final: "finalKeyOf None u s = (k, ovr) \<Longrightarrow> upload_ok (se_hello s) i u \<Longrightarrow> final_key (se_hello s) k"
  by (auto simp: finalKeyOf_def final_key_def upload_ok_def split: if_splits)

lemma handleUploadEnd_grows:
  assumes "handleUploadEnd cd e payload s w = (out, s', w')" and "active_ok cfg s"
  shows "store_grows (se_hello s) w w'"
  using assms(1)
proof (cases rule: handleUploadEnd_cases)
  case stopped
  then show ?thesis by (simp add: store_grows_same)
next
  case (put_failed n u err)
  have "own_key (se_hello s) (up_temp_key (u\<lparr>up_closed := True\<rparr>))"
    using upload_own_key [OF upload_okI [OF assms(2) put_failed(2)]] by simp
  with finishInflight_grows [OF put_failed(5) [symmetric]] show ?thesis by simp
next
  case (refused n u status msg)
  have u: "upload_ok (se_hello s) (ue_stream_id n) u" by (rule upload_okI [OF assms(2) refused(2)])
  have "final_key (se_hello s) (fst (finalKeyOf None u s))" by (rule finalKeyOf_final [OF prod.collapse [symmetric] u])
  with refused(8) upload_own_key [OF u] show ?thesis
    by (auto simp: store_grows_def deleteLog_own)
next
  case (stored n u key ovr)
  have u: "upload_ok (se_hello s) (ue_stream_id n) u" by (rule upload_okI [OF assms(2) stored(2)])
  have "final_key (se_hello s) key" if "reusableKey e (hash_hex cd (up_hashed u)) s w = None"
    using stored(6) finalKeyOf_final [OF _ u] that by metis
  with stored(10) upload_own_key [OF u] show ?thesis
    by (auto simp: store_grows_def deleteLog_own split: if_splits)
qed

section \<open>The session keeps its HELLO\<close>

lemma rememberCheckedBundle_hello [simp]: "se_hello (rememberCheckedBundle bp fp src reuse s) = se_hello s"
  using rememberCheckedBundle_frame [of bp fp src reuse s] by auto

lemma checkItems_hello: "checkItems e d i items s acc = (r, s', acc') \<Longrightarrow> se_hello s' = se_hello s"
  by (induction e d i items s acc arbitrary: acc' rule: checkItems.induct)
    (auto simp: Let_def split: sum.splits if_splits)

lemma dropInflight_hello [simp]: "se_hello (dropInflight i s) = se_hello s"
  by (simp add: dropInflight_def semRelease_def split: option.splits)

lemma markBundleUploaded_hello [simp]: "se_hello (markBundleUploaded bp fp s) = se_hello s"
  using markBundleUploaded_frame [of bp fp s] by auto

lemma finishInflight_hello: "finishInflight cd e i status msg s w = (s', w') \<Longrightarrow> se_hello s' = se_hello s \<and> se_state s' = se_state s"
  by (auto simp: finishInflight_def split: option.splits)

lemma handlers_hello:
  "handleCheckBatch cd e payload s w = (out, s', w') \<Longrightarrow> se_hello s' = se_hello s"
  "handleUploadBegin cfg cd e payload s w = (out, s', w') \<Longrightarrow> se_hello s' = se_hello s"
  "handleUploadChunk cd e payload s w = (out, s', w') \<Longrightarrow> se_hello s' = se_hello s"
  "handleUploadEnd cd e payload s w = (out, s', w') \<Longrightarrow> se_hello s' = se_hello s"
  "handleCommit cfg cd e payload s w = (out, s', w') \<Longrightarrow> se_hello s' = se_hello s"
proof -
  show "se_hello s' = se_hello s" if "handleCheckBatch cd e payload s w = (out, s', w')"
    using that by (auto simp: handleCheckBatch_def handler_ends split: sum.splits prod.splits option.splits dest: checkItems_hello)
  show "se_hello s' = se_hello s" if "handleUploadBegin cfg cd e payload s w = (out, s', w')"
    using that by (cases rule: handleUploadBegin_cases) (auto simp: semAcquire_def rememberSharedReuse_def)
  show "se_hello s' = se_hello s" if "handleUploadChunk cd e payload s w = (out, s', w')"
    using that by (auto simp: handleUploadChunk_def handler_ends Let_def split: sum.splits prod.splits option.splits dest: finishInflight_hello)
  show "se_hello s' = se_hello s" if "handleUploadEnd cd e payload s w = (out, s', w')"
    using that by (cases rule: handleUploadEnd_cases) (auto dest!: finishInflight_hello [OF sym])
  show "se_hello s' = se_hello s" if "handleCommit cfg cd e payload s w = (out, s', w')"
    using that by (cases rule: handleCommit_cases) auto
qed

end
