(* ===== verification/SessionEnd.thy ===== *)
theory SessionEnd
  imports SessionInv
begin

text \<open>
  How a connection ends. The relation \<open>session_over\<close> completes \<open>session_run\<close> by the frame that ends the
  connection (refused, fatal, failed to be answered, or left waiting for an upload slot), so that its
  traces hold every frame that was handled. The read loop only ends in such states, and the
  cleanup of \<open>runSession\<close> starts from them.
\<close>

section \<open>Any frame, whatever its outcome\<close>

lemma not_authenticated_new: "\<not> authenticated cfg (se_hello (newSession cfg))"
  by (simp add: authenticated_def newSession_def hello_zero_def)

lemma session_inv_cases:
  assumes "session_inv cfg s"
  obtains (handshake) "se_state s = stateHandshake" and "s = newSession cfg"
  | (active) "se_state s = stateHandshaked \<or> se_state s = stateRunning \<or> se_state s = stateFinalized" and "active_ok cfg s"
  using assms by (cases "se_state s") (auto simp: session_inv_def)

lemma dispatch_grows:
  assumes "dispatch cfg cd e f s w = (out, s', w')" and "session_inv cfg s"
  shows "store_grows (se_hello s) w w'"
  using assms(1)
proof (cases rule: dispatch_cases)
  case hello
  then show ?thesis using handleHello_quiet [OF hello(2)] by (simp add: store_grows_same)
next
  case check
  with handleCheckBatch_active(4) [OF check(3)] show ?thesis by (simp add: store_grows_same)
next
  case begin_upload
  with handleUploadBegin_grows [OF begin_upload(3)] show ?thesis by simp
next
  case chunk
  with handleUploadChunk_grows [OF chunk(3)] session_inv_active [OF assms(2)] show ?thesis by simp
next
  case end_upload
  with handleUploadEnd_grows [OF end_upload(3)] session_inv_active [OF assms(2)] show ?thesis by simp
next
  case commit
  from commit(3) show ?thesis by (cases rule: handleCommit_cases) (simp_all add: store_grows_same)
qed (simp_all add: store_grows_same)

text \<open>After the handshake no frame changes the HELLO of the session or leads back to the handshake.\<close>

lemma dispatch_hello_kept:
  assumes "dispatch cfg cd e f s w = (out, s', w')" and "session_inv cfg s" and "se_state s \<noteq> stateHandshake"
  shows "se_hello s' = se_hello s \<and> se_state s' \<noteq> stateHandshake \<and> se_state s' \<noteq> stateClosed"
proof -
  have ok: "active_ok cfg s" and st: "se_state s \<noteq> stateClosed"
    using assms(2,3) by (auto elim: session_inv_cases)
  from assms(1) show ?thesis
  proof (cases rule: dispatch_cases)
    case hello
    then show ?thesis using assms(3) st by (simp add: handleHello_def handler_ends)
  next
    case check
    then show ?thesis using handlers_hello(1) [OF check(3)] handleCheckBatch_active(2) [OF check(3)] by simp
  next
    case begin_upload
    then show ?thesis using handlers_hello(2) [OF begin_upload(3)] handleUploadBegin_active [OF begin_upload(3)] ok by simp
  next
    case chunk
    then show ?thesis using handlers_hello(3) [OF chunk(3)] handleUploadChunk_active [OF chunk(3) ok] by simp
  next
    case end_upload
    then show ?thesis using handlers_hello(4) [OF end_upload(3)] handleUploadEnd_active [OF end_upload(3) ok] by simp
  next
    case commit
    from commit(3) show ?thesis by (cases rule: handleCommit_cases) simp_all
  qed (use assms(3) st in simp_all)
qed

lemma handleHello_any:
  assumes "handleHello cfg cd e payload s w = (out, s', w')"
  shows "s' = s \<or> authenticated cfg (se_hello s') \<and> se_uploads s' = se_uploads s \<and> (se_state s' = se_state s \<or> se_state s' = stateHandshaked)"
proof (cases "\<exists>h. dec_hello cd payload = Inr h \<and> authenticated cfg h")
  case True
  then obtain h where h: "dec_hello cd payload = Inr h" "authenticated cfg h" by blast
  have "\<not> (hl_proto h \<noteq> ''hip'' \<or> hl_version h \<noteq> 1)" "hl_bearer_token h = cfg_bearer_token cfg" "serverAllowed cfg (hl_region h)"
      "\<not> (hl_run_id h = [] \<or> hl_asset_version h = [])" "\<not> ((hl_region h = ''jp'' \<or> hl_region h = ''en'') \<and> hl_asset_hash h = [])"
    using h(2) by (auto simp: authenticated_def serverAllowed_def)
  then have "s' = s \<or> se_hello s' = h \<and> se_uploads s' = se_uploads s \<and> (se_state s' = se_state s \<or> se_state s' = stateHandshaked)"
    using assms h(1) by (simp add: handleHello_def handler_ends Let_def split: if_split_asm prod.split_asm option.split_asm) (auto simp: handler_ends)
  with h(2) show ?thesis by auto
next
  case False
  then have "s' = s"
    using assms by (auto simp: handleHello_def handler_ends serverAllowed_def authenticated_def split: if_splits sum.splits)
  then show ?thesis ..
qed

text \<open>A frame handled before the handshake has no effect; it leaves a session without HELLO or with an authenticated one.\<close>

lemma dispatch_handshake:
  assumes "dispatch cfg cd e f (newSession cfg) w = (out, s', w')"
  shows "w_db w' = w_db w \<and> w_storage w' = w_storage w \<and> w_invalidated w' = w_invalidated w"
    and "s' = newSession cfg \<or> authenticated cfg (se_hello s') \<and> se_uploads s' = []
      \<and> (se_state s' = stateHandshake \<or> se_state s' = stateHandshaked)"
proof -
  have "(w_db w' = w_db w \<and> w_storage w' = w_storage w \<and> w_invalidated w' = w_invalidated w)
    \<and> (s' = newSession cfg \<or> authenticated cfg (se_hello s') \<and> se_uploads s' = []
        \<and> (se_state s' = stateHandshake \<or> se_state s' = stateHandshaked))"
    using assms
  proof (cases rule: dispatch_cases)
    case hello
    then show ?thesis using handleHello_any [OF hello(2)] handleHello_quiet [OF hello(2)] by (auto simp: newSession_def)
  qed (simp_all add: newSession_def)
  then show "w_db w' = w_db w \<and> w_storage w' = w_storage w \<and> w_invalidated w' = w_invalidated w"
    and "s' = newSession cfg \<or> authenticated cfg (se_hello s') \<and> se_uploads s' = []
      \<and> (se_state s' = stateHandshake \<or> se_state s' = stateHandshaked)" by blast+
qed

lemma dispatch_finalized:
  assumes "dispatch cfg cd e f s w = (out, s', w')" and "se_state s = stateFinalized"
  shows "s' = s"
  using assms(1)
proof (cases rule: dispatch_cases)
  case hello
  then show ?thesis using assms(2) by (simp add: handleHello_def handler_ends)
qed (use assms(2) in simp_all)

section \<open>Connections that are over\<close>

text \<open>Either no frame could be read any more (the input failed or the context was cancelled), or the last frame did not let
  the session go on.\<close>

inductive session_over :: "config \<Rightarrow> codec \<Rightarrow> (frame \<times> world \<times> world) list \<Rightarrow> session \<Rightarrow> bool" where
  over_read: "session_run cfg cd tr s \<Longrightarrow> session_over cfg cd tr s"
| over_frame: "session_run cfg cd tr s \<Longrightarrow> dispatch cfg cd e f s w = (out, s', w') \<Longrightarrow> out \<noteq> Continue
    \<Longrightarrow> session_over cfg cd (tr @ [(f, w, w')]) s'"

definition untouched :: "world \<Rightarrow> world \<Rightarrow> bool" where
  "untouched w w' \<longleftrightarrow> w_db w' = w_db w \<and> w_storage w' = w_storage w \<and> w_invalidated w' = w_invalidated w"

definition served_change :: "frame \<times> world \<times> world \<Rightarrow> bool" where
  "served_change = (\<lambda>(f, w, w'). w_db w' \<noteq> w_db w \<or> w_invalidated w' \<noteq> w_invalidated w)"

lemma run_handshake:
  "session_run cfg cd tr s \<Longrightarrow> se_state s = stateHandshake \<Longrightarrow> \<forall>(f, w, w') \<in> set tr. untouched w w'"
proof (induction rule: session_run.induct)
  case (run_frame cfg cd tr s e f w s' w')
  have inv: "session_inv cfg s" by (rule session_run_inv [OF run_frame.hyps(1)])
  have st: "se_state s = stateHandshake"
    using dispatch_hello_kept [OF run_frame.hyps(2) inv] run_frame.prems by blast
  then have "s = newSession cfg" using inv by (auto simp: session_inv_def)
  with dispatch_handshake(1) run_frame.hyps(2) have "untouched w w'" by (simp add: untouched_def)
  with run_frame.IH [OF st] show ?case by auto
qed simp

text \<open>One more frame, whatever its outcome, after a run.\<close>

lemma frame_store:
  assumes "session_run cfg cd tr s" and "dispatch cfg cd e f s w = (out, s', w')"
    and "\<forall>(f, w, w') \<in> set tr. store_grows (se_hello s) w w'"
  shows "\<forall>(f, w, w') \<in> set (tr @ [(f, w, w')]). store_grows (se_hello s') w w'"
proof -
  have inv: "session_inv cfg s" by (rule session_run_inv [OF assms(1)])
  then show ?thesis
  proof (cases rule: session_inv_cases)
    case handshake
    have "untouched w w'" using dispatch_handshake(1) assms(2) handshake(2) by (simp add: untouched_def)
    with run_handshake [OF assms(1) handshake(1)] show ?thesis by (auto simp: untouched_def intro: store_grows_same)
  next
    case active
    then have "se_hello s' = se_hello s" using dispatch_hello_kept [OF assms(2) inv] by auto
    with assms(3) dispatch_grows [OF assms(2) inv] show ?thesis by auto
  qed
qed

lemma run_store: "session_run cfg cd tr s \<Longrightarrow> \<forall>(f, w, w') \<in> set tr. store_grows (se_hello s) w w'"
proof (induction rule: session_run.induct)
  case (run_frame cfg cd tr s e f w s' w')
  from frame_store [OF run_frame.hyps run_frame.IH] show ?case .
qed simp

lemma over_store: "session_over cfg cd tr s \<Longrightarrow> \<forall>(f, w, w') \<in> set tr. store_grows (se_hello s) w w'"
  by (induction rule: session_over.induct) (use frame_store run_store in blast)+

lemma over_entry:
  "session_over cfg cd tr s \<Longrightarrow> \<forall>(f, w, w') \<in> set tr. (w_db w' = w_db w \<and> w_invalidated w' = w_invalidated w \<or> f_type f = FrameCommit)
    \<and> (w_storage w' = w_storage w \<or> f_type f = FrameUploadBegin \<or> f_type f = FrameUploadChunk \<or> f_type f = FrameUploadEnd)"
proof (induction rule: session_over.induct)
  case (over_read cfg cd tr s)
  then show ?case using session_run_entry by blast
next
  case (over_frame cfg cd tr s e f w out s' w')
  note last = dispatch_effects [OF over_frame(2) session_run_inv [OF over_frame(1)]]
  have "(w_db w' = w_db w \<and> w_invalidated w' = w_invalidated w \<or> f_type f = FrameCommit)
    \<and> (w_storage w' = w_storage w \<or> f_type f = FrameUploadBegin \<or> f_type f = FrameUploadChunk \<or> f_type f = FrameUploadEnd)"
    using last by blast
  moreover have "\<forall>(f, w, w') \<in> set tr. (w_db w' = w_db w \<and> w_invalidated w' = w_invalidated w \<or> f_type f = FrameCommit)
    \<and> (w_storage w' = w_storage w \<or> f_type f = FrameUploadBegin \<or> f_type f = FrameUploadChunk \<or> f_type f = FrameUploadEnd)"
    using session_run_entry [OF over_frame(1)] by blast
  ultimately show ?case by simp
qed

lemma filter_length_le: "(\<And>x. x \<in> set xs \<Longrightarrow> P x \<Longrightarrow> Q x) \<Longrightarrow> length (filter P xs) \<le> length (filter Q xs)"
  by (induction xs) (auto intro: le_SucI)

lemma run_changes:
  assumes "session_run cfg cd tr s"
  shows "length (filter served_change tr) \<le> (if se_state s = stateFinalized then 1 else 0)"
proof -
  have "length (filter served_change tr) \<le> commits tr"
    unfolding commits_def
  proof (rule filter_length_le)
    fix x
    assume "x \<in> set tr" "served_change x"
    then show "(\<lambda>(f, w, w'). f_type f = FrameCommit) x"
      using session_run_entry(1) [OF assms] by (auto simp: served_change_def)
  qed
  with session_run_commits [OF assms] show ?thesis by simp
qed

lemma over_changes:
  "session_over cfg cd tr s \<Longrightarrow> length (filter served_change tr) \<le> (if se_state s = stateFinalized then 1 else 0)"
proof (induction rule: session_over.induct)
  case (over_read cfg cd tr s)
  then show ?case by (rule run_changes)
next
  case (over_frame cfg cd tr s e f w out s' w')
  from dispatch_effects(1) [OF over_frame(2) session_run_inv [OF over_frame(1)]]
  have "\<not> served_change (f, w, w') \<or> (se_state s \<noteq> stateFinalized \<and> se_state s' = stateFinalized)"
    by (auto simp: served_change_def)
  with run_changes [OF over_frame(1)] dispatch_finalized [OF over_frame(2)] show ?case
    by (auto split: if_splits)
qed

lemma over_hello:
  "session_over cfg cd tr s \<Longrightarrow> authenticated cfg (se_hello s) \<or> s = newSession cfg \<and> (\<forall>(f, w, w') \<in> set tr. untouched w w')"
proof (induction rule: session_over.induct)
  case (over_read cfg cd tr s)
  from session_run_inv [OF over_read] show ?case
    by (cases rule: session_inv_cases) (use run_handshake [OF over_read] in \<open>auto simp: active_ok_def\<close>)
next
  case (over_frame cfg cd tr s e f w out s' w')
  from session_run_inv [OF over_frame(1)] show ?case
  proof (cases rule: session_inv_cases)
    case handshake
    then have d: "dispatch cfg cd e f (newSession cfg) w = (out, s', w')" using over_frame(2) by simp
    have "untouched w w'" "s' = newSession cfg \<or> authenticated cfg (se_hello s')"
      using dispatch_handshake [OF d] by (auto simp: untouched_def)
    with run_handshake [OF over_frame(1) handshake(1)] show ?thesis by auto
  next
    case active
    then have "se_hello s' = se_hello s" using dispatch_hello_kept [OF over_frame(2) session_run_inv [OF over_frame(1)]] by auto
    with active(2) show ?thesis by (simp add: active_ok_def)
  qed
qed

lemma over_not_closed: "session_over cfg cd tr s \<Longrightarrow> se_state s \<noteq> stateClosed"
proof (induction rule: session_over.induct)
  case (over_read cfg cd tr s)
  from session_run_inv [OF over_read] show ?case by (cases rule: session_inv_cases) auto
next
  case (over_frame cfg cd tr s e f w out s' w')
  from session_run_inv [OF over_frame(1)] show ?case
  proof (cases rule: session_inv_cases)
    case handshake
    then have d: "dispatch cfg cd e f (newSession cfg) w = (out, s', w')" using over_frame(2) by simp
    from dispatch_handshake(2) [OF d] show ?thesis by (auto simp: newSession_def)
  next
    case active
    then show ?thesis using dispatch_hello_kept [OF over_frame(2) session_run_inv [OF over_frame(1)]] by auto
  qed
qed

text \<open>Only UPLOAD_BEGIN can leave the reader waiting, and only with a full window.\<close>

lemma ret_not_Blocked [simp]: "ret x \<noteq> Blocked" "Blocked \<noteq> ret x"
  by (simp_all add: ret_def split: option.splits)

lemma handlers_not_Blocked:
  "handleHello cfg cd e payload s w \<noteq> (Blocked, s', w')" "handleCheckBatch cd e payload s w \<noteq> (Blocked, s', w')"
  "handleUploadChunk cd e payload s w \<noteq> (Blocked, s', w')" "handleUploadEnd cd e payload s w \<noteq> (Blocked, s', w')"
  "handleCommit cfg cd e payload s w \<noteq> (Blocked, s', w')"
proof -
  show "handleHello cfg cd e payload s w \<noteq> (Blocked, s', w')"
    by (auto simp: handleHello_def handler_ends Let_def split: if_splits sum.splits prod.splits option.splits)
  show "handleCheckBatch cd e payload s w \<noteq> (Blocked, s', w')"
    by (auto simp: handleCheckBatch_def handler_ends split: sum.splits prod.splits option.splits)
  show "handleUploadChunk cd e payload s w \<noteq> (Blocked, s', w')"
    by (auto simp: handleUploadChunk_def handler_ends Let_def split: sum.splits prod.splits option.splits)
  show "handleUploadEnd cd e payload s w \<noteq> (Blocked, s', w')"
    by (auto simp: handleUploadEnd_def handler_ends Let_def split: sum.splits prod.splits option.splits)
  show "handleCommit cfg cd e payload s w \<noteq> (Blocked, s', w')"
    by (auto simp: handleCommit_def handler_ends Let_def split: sum.splits prod.splits)
qed

lemma dispatch_Blocked:
  assumes "dispatch cfg cd e f s w = (Blocked, s', w')" and "session_inv cfg s"
  shows "f_type f = FrameUploadBegin \<and> length (se_uploads s') = unat (cfg_max_in_flight_uploads cfg)"
proof -
  let ?s = "s\<lparr>se_state := stateRunning\<rparr>"
  have f: "f_type f = FrameUploadBegin" "se_state s = stateHandshaked \<or> se_state s = stateRunning"
      "handleUploadBegin cfg cd e (f_payload f) ?s w = (Blocked, s', w')"
    using assms(1) by (auto simp: dispatch_def Let_def handler_ends handlers_not_Blocked split: if_splits sum.splits)
  have "\<not> semFree cfg ?s \<and> s' = ?s"
    using f(3) by (auto simp: handleUploadBegin_def handler_ends Let_def split: if_splits sum.splits option.splits prod.splits)
  moreover have "active_ok cfg ?s" using session_inv_active [OF assms(2) f(2)] by simp
  ultimately show ?thesis using f(1) by (auto simp: semFree_def active_ok_def)
qed

section \<open>The read loop\<close>

text \<open>The loop comes back with a reason to stop or waits for an upload slot, in a session that is over.\<close>

lemma readLoop_over:
  assumes "readLoop cfg cd es fr s w = (out, s', w')" and "session_run cfg cd tr s"
  shows "out \<noteq> Continue \<and> (out = Blocked \<longrightarrow> length (se_uploads s') = unat (cfg_max_in_flight_uploads cfg))
    \<and> (\<exists>tr'. session_over cfg cd (tr @ tr') s')"
  using assms
proof (induction "length (st_bytes (fr_stream fr))" arbitrary: es fr s w tr rule: less_induct)
  case less
  show ?case
  proof (cases "e_ctx (es 0) = None \<and> (\<exists>f fr'. FrameReader_ReadFrame fr (se_max_frame s) = (Inr f, fr'))")
    case False
    with less.prems(1) have "out \<noteq> Continue \<and> out \<noteq> Blocked \<and> s' = s"
      by (auto simp: readLoop.simps [of cfg cd es] split: option.splits prod.splits sum.splits)
    with over_read [OF less.prems(2)] show ?thesis by (metis append_Nil2)
  next
    case True
    then obtain f fr' where f: "e_ctx (es 0) = None" "FrameReader_ReadFrame fr (se_max_frame s) = (Inr f, fr')" by blast
    obtain o1 s1 w1 where d: "dispatch cfg cd (es 0) f s w = (o1, s1, w1)" by (metis prod_cases3)
    show ?thesis
    proof (cases "o1 = Continue")
      case True
      have "readLoop cfg cd (\<lambda>n. es (Suc n)) fr' s1 w1 = (out, s', w')"
        using less.prems(1) f d True by (simp add: readLoop.simps [of cfg cd es])
      moreover have "length (st_bytes (fr_stream fr')) < length (st_bytes (fr_stream fr))"
        using FrameReader_consumes [OF f(2)] by simp
      ultimately show ?thesis
        using less.hyps run_frame [OF less.prems(2) d [unfolded True]] by (metis append_assoc)
    next
      case False
      with less.prems(1) f d have "out = o1" "s' = s1" by (auto simp: readLoop.simps [of cfg cd es] split: outcome.splits)
      with over_frame [OF less.prems(2) d False] False dispatch_Blocked [of cfg cd "es 0" f s w s' w1] d
        session_run_inv [OF less.prems(2)] show ?thesis by blast
    qed
  qed
qed

section \<open>Cleanup\<close>

definition uploads_keyed :: "session \<Rightarrow> bool" where
  "uploads_keyed s \<longleftrightarrow> distinct (map fst (se_uploads s))
     \<and> (\<forall>(i, u) \<in> set (se_uploads s). up_stream_id u = i \<and> up_temp_key u \<noteq> [])"

lemma TempKey_nonempty: "TempKey r i \<noteq> []"
  by (simp add: TempKey_def)

lemma active_keyed: "active_ok cfg s \<Longrightarrow> uploads_keyed s"
  by (auto simp: active_ok_def uploads_keyed_def upload_ok_def TempKey_nonempty)

lemma session_inv_keyed: "session_inv cfg s \<Longrightarrow> uploads_keyed s"
proof (cases "se_state s = stateHandshake")
  case True
  moreover assume "session_inv cfg s"
  ultimately show ?thesis by (simp add: session_inv_def newSession_def uploads_keyed_def)
next
  case False
  moreover assume "session_inv cfg s"
  ultimately show ?thesis by (intro active_keyed [of cfg]) (auto simp: session_inv_def split: sessionState.splits)
qed

lemma handleHello_uploads: "handleHello cfg cd e payload s w = (out, s', w') \<Longrightarrow> se_uploads s' = se_uploads s"
  by (auto simp: handleHello_def handler_ends Let_def split: if_splits sum.splits prod.splits option.splits)

lemma dispatch_keyed:
  assumes "dispatch cfg cd e f s w = (out, s', w')" and "session_inv cfg s"
  shows "uploads_keyed s'"
  using assms(1)
proof (cases rule: dispatch_cases)
  case hello
  with handleHello_uploads [OF hello(2)] session_inv_keyed [OF assms(2)] show ?thesis by (simp add: uploads_keyed_def)
next
  case check
  with handleCheckBatch_active(1) [OF check(3), of cfg] session_inv_active [OF assms(2)] show ?thesis
    by (auto intro: active_keyed)
next
  case begin_upload
  with handleUploadBegin_active [OF begin_upload(3)] session_inv_active [OF assms(2)] show ?thesis
    by (auto intro: active_keyed)
next
  case chunk
  with handleUploadChunk_active [OF chunk(3)] session_inv_active [OF assms(2)] show ?thesis
    by (auto intro: active_keyed)
next
  case end_upload
  with handleUploadEnd_active [OF end_upload(3)] session_inv_active [OF assms(2)] show ?thesis
    by (auto intro: active_keyed)
next
  case commit
  from commit(3) have "se_uploads s' = [] \<or> se_uploads s' = se_uploads s"
    by (cases rule: handleCommit_cases) auto
  with session_inv_keyed [OF assms(2)] show ?thesis by (auto simp: uploads_keyed_def)
next
  case violation
  then show ?thesis using session_inv_keyed [OF assms(2)] by simp
next
  case control
  then show ?thesis using session_inv_keyed [OF assms(2)] by simp
qed

lemma over_keyed: "session_over cfg cd tr s \<Longrightarrow> uploads_keyed s"
  by (induction rule: session_over.induct) (use session_run_inv dispatch_keyed session_inv_keyed in blast)+

lemma dropInflight_uploads: "se_uploads (dropInflight i s) = filter (\<lambda>e. fst e \<noteq> i) (se_uploads s)"
proof (cases "mapGet i (se_uploads s)")
  case None
  then have "filter (\<lambda>e. fst e \<noteq> i) (se_uploads s) = se_uploads s"
    by (auto simp: mapGet_None_iff filter_id_conv)
  with None show ?thesis by (simp add: dropInflight_def)
qed (simp add: dropInflight_def semRelease_def mapDel_def)

text \<open>What \<open>abortUploads\<close> writes to the log of the object store.\<close>

fun abortLog :: "env \<Rightarrow> nat \<Rightarrow> inflight_upload list \<Rightarrow> storage_op list" where
  "abortLog e n [] = []"
| "abortLog e n (u # us) = (if up_closed u then [] else [PipeAborted (up_temp_key u)])
     @ (if up_temp_key u \<noteq> [] then deleteLog e n (up_temp_key u) else []) @ abortLog e (Suc n) us"

lemma abortUploads_eq:
  "abortUploads e n us s w = (s', w') \<Longrightarrow> se_uploads s' = filter (\<lambda>e. fst e \<notin> up_stream_id ` set us) (se_uploads s)
     \<and> se_state s' = se_state s \<and> se_hello s' = se_hello s \<and> w' = w\<lparr>w_storage := w_storage w @ abortLog e n us\<rparr>"
proof (induction e n us s w rule: abortUploads.induct)
  case (2 e n u us s w)
  then have "se_uploads s' = filter (\<lambda>e. fst e \<notin> up_stream_id ` set us) (se_uploads (dropInflight (up_stream_id u) s))
      \<and> se_state s' = se_state s \<and> se_hello s' = se_hello s
      \<and> w' = (abort e n u w)\<lparr>w_storage := w_storage (abort e n u w) @ abortLog e (Suc n) us\<rparr>" by simp
  then show ?case
    by (auto simp: dropInflight_uploads conj_commute abort_def storageDelete_def Let_def)
qed simp

lemma abortLog_own:
  "op \<in> set (abortLog e n us) \<Longrightarrow> \<exists>u \<in> set us. op = PipeAborted (up_temp_key u) \<or> op = DeleteSent (up_temp_key u)"
  by (induction e n us rule: abortLog.induct) (auto simp: deleteLog_def split: if_splits)

lemma abortLog_deletes:
  assumes "u \<in> set us" and "up_temp_key u \<noteq> []" and "\<forall>n. \<not> e_done e n"
  shows "DeleteSent (up_temp_key u) \<in> set (abortLog e n us)"
  using assms by (induction e n us rule: abortLog.induct) (auto simp: deleteLog_def)

lemma abortLog_cancelled: "\<forall>n. e_done e n \<Longrightarrow> DeleteSent k \<notin> set (abortLog e n us)"
  by (induction e n us rule: abortLog.induct) (auto simp: deleteLog_def)

text \<open>The cleanup leaves no upload, and its requests are those it owes under a live context; under a cancelled one it
  sends none.\<close>

lemma abortAllUploads_clean:
  assumes "uploads_keyed s" and "fair_env e" and "abortAllUploads e s w = (s', w')"
  obtains ops where "se_uploads s' = []" and "se_state s' = se_state s" and "w' = w\<lparr>w_storage := w_storage w @ ops\<rparr>"
    and "\<forall>op \<in> set ops. (\<exists>u \<in> snd ` set (se_uploads s). op = PipeAborted (up_temp_key u) \<or> op = DeleteSent (up_temp_key u))
       \<or> op = DeleteSent (''/tmp/'' @ hl_run_id (se_hello s)) \<and> hl_run_id (se_hello s) \<noteq> []"
    and "\<forall>n. \<not> e_done e n \<Longrightarrow> (\<forall>(i, u) \<in> set (se_uploads s). DeleteSent (up_temp_key u) \<in> set ops)
       \<and> (hl_run_id (se_hello s) \<noteq> [] \<longrightarrow> DeleteSent (''/tmp/'' @ hl_run_id (se_hello s)) \<in> set ops)"
    and "\<forall>n. e_done e n \<Longrightarrow> \<forall>k. DeleteSent k \<notin> set ops"
proof -
  let ?us = "e_iter_uploads e (map snd (se_uploads s))" and ?run = "hl_run_id (se_hello s)"
  have us: "set ?us = snd ` set (se_uploads s)" using assms(2) by (simp add: fair_env_def)
  obtain s1 w1 where l: "abortUploads e 0 ?us s w = (s1, w1)" by (cases "abortUploads e 0 ?us s w")
  note eq = abortUploads_eq [OF l]
  let ?ops = "abortLog e 0 ?us @ (if ?run \<noteq> [] then deleteLog e (length ?us) (''/tmp/'' @ ?run) else [])"
  have "up_stream_id ` set ?us = fst ` set (se_uploads s)"
    unfolding us image_image using assms(1) by (intro image_cong) (auto simp: uploads_keyed_def)
  then have "filter (\<lambda>e. fst e \<notin> up_stream_id ` set ?us) (se_uploads s) = []"
    by (simp add: filter_empty_conv)
  then have "se_uploads s' = []" "se_state s' = se_state s" "w' = w\<lparr>w_storage := w_storage w @ ?ops\<rparr>"
    using assms(3) l eq by (auto simp: abortAllUploads_def Let_def storageDelete_def)
  moreover have "\<forall>op \<in> set ?ops. (\<exists>u \<in> snd ` set (se_uploads s). op = PipeAborted (up_temp_key u) \<or> op = DeleteSent (up_temp_key u))
       \<or> op = DeleteSent (''/tmp/'' @ ?run) \<and> ?run \<noteq> []"
    using abortLog_own [of _ e 0 ?us] unfolding us by (auto simp: deleteLog_def split: if_splits)
  moreover have "(\<forall>(i, u) \<in> set (se_uploads s). DeleteSent (up_temp_key u) \<in> set ?ops)
       \<and> (?run \<noteq> [] \<longrightarrow> DeleteSent (''/tmp/'' @ ?run) \<in> set ?ops)" if live: "\<forall>n. \<not> e_done e n"
  proof -
    have "DeleteSent (up_temp_key u) \<in> set (abortLog e 0 ?us)" if "(i, u) \<in> set (se_uploads s)" for i u
      using that us assms(1) live by (intro abortLog_deletes) (auto simp: uploads_keyed_def intro: rev_image_eqI)
    then show ?thesis using live by (auto simp: deleteLog_def)
  qed
  moreover have "\<forall>k. DeleteSent k \<notin> set ?ops" if "\<forall>n. e_done e n"
    using that abortLog_cancelled [OF that] by (auto simp: deleteLog_def)
  ultimately show thesis by (rule that)
qed

end
