(* ===== verification/SessionSafety.thy ===== *)
theory SessionSafety
  imports SessionEnd
begin

text \<open>
  The safety and liveness properties of one HIP connection, over the definitions of theory
  Session, and a concrete client (configuration, codec and environment) on which they are
  instantiated.
\<close>

section \<open>A concrete connection\<close>

definition demo_cfg :: config where
  "demo_cfg = \<lparr>cfg_bearer_token = ''tok'', cfg_max_frame = 1000, cfg_max_in_flight_uploads = 1,
     cfg_allowed_servers = [''jp'', ''tw''], cfg_server_version = ''v'', cfg_has_cache = True\<rparr>"

definition demo_hello :: hello where
  "demo_hello = hello_zero\<lparr>hl_proto := ''hip'', hl_version := 1, hl_bearer_token := ''tok'', hl_region := ''tw'',
     hl_asset_version := ''6.0'', hl_run_id := ''r1''\<rparr>"

definition demo_begin :: "upload_begin" where
  "demo_begin = \<lparr>ub_stream_id = 1, ub_bundle_path = ''ev'', ub_path = ''a.webp'', ub_fingerprint = ''f1'',
     ub_size = 2, ub_content_type = []\<rparr>"

definition demo_end :: upload_end where
  "demo_end = \<lparr>ue_stream_id = 1, ue_total_bytes = 2, ue_sha256 = []\<rparr>"

definition demo_commit :: commit where
  "demo_commit = \<lparr>cm_bundle_count = 0, cm_stats = \<lparr>cs_skipped_by_layer1 = 0, cs_skipped_by_check = 0,
     cs_uploaded_shared = 1, cs_uploaded_override = 0\<rparr>, cm_completed_bundles = []\<rparr>"

definition demo_codec :: codec where
  "demo_codec = \<lparr>dec_hello = (\<lambda>_. Inr demo_hello), dec_check_batch = (\<lambda>_. Inl ''eof''),
     dec_upload_begin = (\<lambda>p. if p = [] then Inr demo_begin else Inr (demo_begin\<lparr>ub_stream_id := 2\<rparr>)),
     dec_upload_end = (\<lambda>_. Inr demo_end),
     dec_commit = (\<lambda>_. Inr demo_commit),
     dec_error = (\<lambda>_. Inl ''eof''), enc_msg = (\<lambda>_. Inr []), hash_hex = (\<lambda>bs. ''h'' @ formatNat (length bs))\<rparr>"

definition demo_env :: env where
  "demo_env = \<lparr>e_sql = (\<lambda>_ _ _. None), e_now = (\<lambda>_ _. 100), e_send = None, e_session_id = ''s'', e_ctx = None, e_cancel = None, e_done = (\<lambda>_. False),
     e_pipe = None, e_put = None, e_copy = None, e_iter_reuses = id, e_iter_completions = id, e_iter_shared = id,
     e_iter_uploads = id\<rparr>"

definition demo_world :: world where
  "demo_world = \<lparr>w_db = empty_db, w_sent = [], w_storage = [], w_invalidated = [], w_uploads_total = [], w_bytes_ingested = []\<rparr>"

definition demo_upload :: inflight_upload where
  "demo_upload = \<lparr>up_stream_id = 1, up_bundle_path = ''ev'', up_path = ''ev/a.webp'', up_fingerprint = ''f1'',
     up_content_type = [], up_expected_size = 2, up_placement = ''SHARED'', up_hashed = [], up_total_read = 0,
     up_temp_key = ''/tmp/r1/1'', up_closed = False\<rparr>"

text \<open>The session after HELLO, and after the first UPLOAD_BEGIN.\<close>

definition demo_shaken :: session where
  "demo_shaken = (newSession demo_cfg)\<lparr>se_hello := demo_hello, se_session_id := ''s'', se_sem := Some 0,
     se_state := stateHandshaked\<rparr>"

definition demo_uploading :: session where
  "demo_uploading = demo_shaken\<lparr>se_state := stateRunning, se_sem := Some 1, se_uploads := [(1, demo_upload)]\<rparr>"

lemma demo_hello_step:
  "dispatch demo_cfg demo_codec demo_env \<lparr>f_type = FrameHello, f_payload = []\<rparr> (newSession demo_cfg) demo_world
   = (Continue, demo_shaken, demo_world\<lparr>w_sent := [\<lparr>f_type = FrameHelloAck, f_payload = []\<rparr>]\<rparr>)"
  by (simp add: dispatch_def handleHello_def demo_cfg_def demo_codec_def demo_env_def demo_world_def demo_hello_def
      demo_shaken_def newSession_def serverAllowed_def hello_zero_def send_def Let_def)

lemma demo_path: "canonicalAssetPath ''ev'' ''a.webp'' = Inr ''ev/a.webp''"
  by code_simp

lemma demo_temp: "TempKey ''r1'' 1 = ''/tmp/r1/1''"
  by code_simp

lemma demo_begin_step:
  "dispatch demo_cfg demo_codec demo_env \<lparr>f_type = FrameUploadBegin, f_payload = []\<rparr> demo_shaken demo_world
   = (Continue, demo_uploading, demo_world\<lparr>w_storage := [PutStarted ''/tmp/r1/1'' ''application/octet-stream'']\<rparr>)"
  by (simp add: dispatch_def handleUploadBegin_def demo_path demo_temp demo_cfg_def demo_codec_def demo_env_def demo_world_def
      demo_hello_def demo_begin_def demo_upload_def demo_uploading_def demo_shaken_def newSession_def hello_zero_def
      Let_def FrameUploadBegin_def FrameHello_def FrameCheckBatch_def semFree_def semAcquire_def newInflight_def inflightOf_def putContentType_def
      CheckPath_def cd_zero_def empty_db_def mapSet_def tbl_upsert_def)

definition demo_trace :: "(frame \<times> world \<times> world) list" where
  "demo_trace = [(\<lparr>f_type = FrameHello, f_payload = []\<rparr>, demo_world,
       demo_world\<lparr>w_sent := [\<lparr>f_type = FrameHelloAck, f_payload = []\<rparr>]\<rparr>),
     (\<lparr>f_type = FrameUploadBegin, f_payload = []\<rparr>, demo_world,
       demo_world\<lparr>w_storage := [PutStarted ''/tmp/r1/1'' ''application/octet-stream'']\<rparr>)]"

lemma demo_run: "session_run demo_cfg demo_codec demo_trace demo_uploading"
  using run_frame [OF run_frame [OF run_start demo_hello_step] demo_begin_step] by (simp add: demo_trace_def)

definition demo_ready :: session where
  "demo_ready = demo_uploading\<lparr>se_uploads := [(1, demo_upload\<lparr>up_hashed := [7, 8], up_total_read := 2\<rparr>)]\<rparr>"

lemma demo_chunk: "DecodeChunk [0, 0, 0, 1, 7, 8] = Inr (1, [7, 8])"
  by code_simp

lemma demo_chunk_step:
  "dispatch demo_cfg demo_codec demo_env \<lparr>f_type = FrameUploadChunk, f_payload = [0, 0, 0, 1, 7, 8]\<rparr> demo_uploading demo_world
   = (Continue, demo_ready, demo_world\<lparr>w_bytes_ingested := [2]\<rparr>)"
  by (simp add: dispatch_def handleUploadChunk_def demo_chunk demo_ready_def demo_uploading_def demo_upload_def demo_env_def
      demo_world_def FrameHello_def FrameCheckBatch_def FrameUploadBegin_def FrameUploadChunk_def writeChunk_def mapGet_def
      mapSet_def tbl_upsert_def)

lemma demo_ready_run: "\<exists>tr. session_run demo_cfg demo_codec tr demo_ready"
  using run_frame [OF demo_run demo_chunk_step] by blast

section \<open>Properties\<close>

text \<open>C2: The invariant of a connection, after any sequence of frames the session went on from, whatever
  other connections did to the database in between: before HELLO the session is pristine;
  after it the peer is authenticated for an allowed region, the semaphore counts exactly the
  uploads in flight and never exceeds the window, every upload writes to its own temporary
  key and has counted the bytes it hashed, and the rows queued for COMMIT belong to the
  session's region and version under safe paths. The states Committing and Closed are never
  observed between frames.\<close>

theorem session_invariant:
  assumes "session_run cfg cd tr s"
  shows "(if se_state s = stateHandshake then s = newSession cfg
     else authenticated cfg (se_hello s)
       \<and> se_sem s = Some (length (se_uploads s)) \<and> length (se_uploads s) \<le> unat (cfg_max_in_flight_uploads cfg)
       \<and> distinct (map fst (se_uploads s)) \<and> se_max_frame s \<le> cfg_max_frame cfg
       \<and> (\<forall>(i, u) \<in> set (se_uploads s). up_stream_id u = i \<and> up_temp_key u = TempKey (hl_run_id (se_hello s)) i
            \<and> up_total_read u = of_nat (length (up_hashed u)) \<and> SafeRelPath (up_path u) = Inr (up_path u))
       \<and> (\<forall>a \<in> set (se_pending s). a_server a = hl_region (se_hello s) \<and> a_version a = hl_asset_version (se_hello s)
            \<and> SafeRelPath (a_path a) = Inr (a_path a) \<and> a_storage_key a \<noteq> []))
    \<and> se_state s \<noteq> stateCommitting \<and> se_state s \<noteq> stateClosed"
proof -
  have "session_inv cfg s" by (rule session_run_inv [OF assms])
  then show ?thesis
    by (cases "se_state s") (fastforce simp: session_inv_def active_ok_def upload_ok_def pending_ok_def)+
qed

theorem session_invariant_witness:
  "se_sem demo_uploading = Some 1 \<and> authenticated demo_cfg (se_hello demo_uploading)"
  using session_invariant [OF demo_run] by (simp add: demo_uploading_def)

text \<open>C10: What a connection can change, over all the frames it handles, the one that ends it included, and
  its cleanup. The database and the lookup cache change only through a COMMIT frame, through at most one, and the session is then
  finalised. The object store is asked only by upload frames, for the session's own temporary keys and for copies from them to final keys
  of checked paths in its region, and by the cleanup, which aborts what is in flight and deletes its temporary keys and the
  directory of its run. A peer that was not authenticated changes nothing, and the cleanup after it sends nothing.\<close>

theorem session_effects:
  assumes "session_over cfg cd tr s"
  shows "(\<forall>(f, w, w') \<in> set tr. (w_db w' \<noteq> w_db w \<or> w_invalidated w' \<noteq> w_invalidated w \<longrightarrow> f_type f = FrameCommit)
        \<and> (w_storage w' \<noteq> w_storage w \<longrightarrow> f_type f = FrameUploadBegin \<or> f_type f = FrameUploadChunk \<or> f_type f = FrameUploadEnd)
        \<and> (\<exists>ops. w_storage w' = w_storage w @ ops \<and> (\<forall>op \<in> set ops. own_op (se_hello s) op)))
    \<and> length (filter (\<lambda>(f, w, w'). w_db w' \<noteq> w_db w \<or> w_invalidated w' \<noteq> w_invalidated w) tr)
        \<le> (if se_state s = stateFinalized then 1 else 0)
    \<and> (\<forall>e w s' w'. fair_env e \<and> abortAllUploads e s w = (s', w') \<longrightarrow>
         (\<exists>ops. w' = w\<lparr>w_storage := w_storage w @ ops\<rparr> \<and> (\<forall>op \<in> set ops.
            (\<exists>u \<in> snd ` set (se_uploads s). op = PipeAborted (up_temp_key u) \<or> op = DeleteSent (up_temp_key u))
            \<or> op = DeleteSent (''/tmp/'' @ hl_run_id (se_hello s)))))
    \<and> (\<not> authenticated cfg (se_hello s) \<longrightarrow>
         (\<forall>(f, w, w') \<in> set tr. w_db w' = w_db w \<and> w_storage w' = w_storage w \<and> w_invalidated w' = w_invalidated w)
         \<and> (\<forall>e w. fair_env e \<longrightarrow> snd (abortAllUploads e s w) = w))"
proof (intro conjI)
  show "\<forall>(f, w, w') \<in> set tr. (w_db w' \<noteq> w_db w \<or> w_invalidated w' \<noteq> w_invalidated w \<longrightarrow> f_type f = FrameCommit)
        \<and> (w_storage w' \<noteq> w_storage w \<longrightarrow> f_type f = FrameUploadBegin \<or> f_type f = FrameUploadChunk \<or> f_type f = FrameUploadEnd)
        \<and> (\<exists>ops. w_storage w' = w_storage w @ ops \<and> (\<forall>op \<in> set ops. own_op (se_hello s) op))"
    using over_entry [OF assms] over_store [OF assms] unfolding store_grows_def by fast
  show "length (filter (\<lambda>(f, w, w'). w_db w' \<noteq> w_db w \<or> w_invalidated w' \<noteq> w_invalidated w) tr) \<le> (if se_state s = stateFinalized then 1 else 0)"
    using over_changes [OF assms] unfolding served_change_def .
  show "\<forall>e w s' w'. fair_env e \<and> abortAllUploads e s w = (s', w') \<longrightarrow>
         (\<exists>ops. w' = w\<lparr>w_storage := w_storage w @ ops\<rparr> \<and> (\<forall>op \<in> set ops.
            (\<exists>u \<in> snd ` set (se_uploads s). op = PipeAborted (up_temp_key u) \<or> op = DeleteSent (up_temp_key u))
            \<or> op = DeleteSent (''/tmp/'' @ hl_run_id (se_hello s))))"
  proof (intro allI impI, elim conjE)
    fix e w s' w'
    assume "fair_env e" and "abortAllUploads e s w = (s', w')"
    then obtain ops where "w' = w\<lparr>w_storage := w_storage w @ ops\<rparr>"
      "\<forall>op \<in> set ops. (\<exists>u \<in> snd ` set (se_uploads s). op = PipeAborted (up_temp_key u) \<or> op = DeleteSent (up_temp_key u))
       \<or> op = DeleteSent (''/tmp/'' @ hl_run_id (se_hello s)) \<and> hl_run_id (se_hello s) \<noteq> []"
      by (rule abortAllUploads_clean [OF over_keyed [OF assms]])
    then show "\<exists>ops. w' = w\<lparr>w_storage := w_storage w @ ops\<rparr> \<and> (\<forall>op \<in> set ops.
            (\<exists>u \<in> snd ` set (se_uploads s). op = PipeAborted (up_temp_key u) \<or> op = DeleteSent (up_temp_key u))
            \<or> op = DeleteSent (''/tmp/'' @ hl_run_id (se_hello s)))"
      by blast
  qed
  show "\<not> authenticated cfg (se_hello s) \<longrightarrow>
         (\<forall>(f, w, w') \<in> set tr. w_db w' = w_db w \<and> w_storage w' = w_storage w \<and> w_invalidated w' = w_invalidated w)
         \<and> (\<forall>e w. fair_env e \<longrightarrow> snd (abortAllUploads e s w) = w)"
  proof
    assume "\<not> authenticated cfg (se_hello s)"
    then have new: "s = newSession cfg" and tr: "\<forall>(f, w, w') \<in> set tr. untouched w w'" using over_hello [OF assms] by auto
    have "snd (abortAllUploads e s w) = w" if "fair_env e" for e w
    proof -
      have "e_iter_uploads e [] = []" using that by (simp add: fair_env_def flip: set_empty)
      then show ?thesis by (simp add: new newSession_def hello_zero_def abortAllUploads_def)
    qed
    with tr show "(\<forall>(f, w, w') \<in> set tr. w_db w' = w_db w \<and> w_storage w' = w_storage w \<and> w_invalidated w' = w_invalidated w)
         \<and> (\<forall>e w. fair_env e \<longrightarrow> snd (abortAllUploads e s w) = w)"
      by (simp add: untouched_def)
  qed
qed

text \<open>The sample connection is ended by a COMMIT that comes while its upload is in flight.\<close>

lemma demo_early_commit:
  "dispatch demo_cfg demo_codec demo_env \<lparr>f_type = FrameCommit, f_payload = []\<rparr> demo_uploading demo_world
   = (Stop (Fatal ErrCodeProtoViolation (''COMMIT with '' @ formatNat 1 @ '' in-flight uploads'')), demo_uploading\<lparr>se_state := stateCommitting\<rparr>,
      demo_world\<lparr>w_sent := [\<lparr>f_type = FrameError, f_payload = []\<rparr>]\<rparr>)"
  by (simp add: dispatch_def handleCommit_def demo_codec_def demo_env_def demo_uploading_def demo_world_def sendFatal_def send_def
      FrameHello_def FrameCheckBatch_def FrameUploadBegin_def FrameUploadChunk_def FrameUploadEnd_def FrameCommit_def)

theorem session_effects_witness:
  "session_over demo_cfg demo_codec (demo_trace @ [(\<lparr>f_type = FrameCommit, f_payload = []\<rparr>, demo_world,
       demo_world\<lparr>w_sent := [\<lparr>f_type = FrameError, f_payload = []\<rparr>]\<rparr>)]) (demo_uploading\<lparr>se_state := stateCommitting\<rparr>)
   \<and> (\<exists>ops. snd (abortAllUploads demo_env (demo_uploading\<lparr>se_state := stateCommitting\<rparr>) demo_world) = demo_world\<lparr>w_storage := ops\<rparr>
        \<and> set ops \<subseteq> {PipeAborted ''/tmp/r1/1'', DeleteSent ''/tmp/r1/1'', DeleteSent ''/tmp/r1''})"
proof -
  let ?s = "demo_uploading\<lparr>se_state := stateCommitting\<rparr>"
  have over: "session_over demo_cfg demo_codec (demo_trace @ [(\<lparr>f_type = FrameCommit, f_payload = []\<rparr>, demo_world,
       demo_world\<lparr>w_sent := [\<lparr>f_type = FrameError, f_payload = []\<rparr>]\<rparr>)]) ?s"
    by (rule over_frame [OF demo_run demo_early_commit]) simp
  have "fair_env demo_env" by (simp add: fair_env_def demo_env_def)
  moreover obtain s' w' where a: "abortAllUploads demo_env ?s demo_world = (s', w')" by (cases "abortAllUploads demo_env ?s demo_world")
  ultimately obtain ops where ops: "w' = demo_world\<lparr>w_storage := w_storage demo_world @ ops\<rparr>"
      "\<forall>op \<in> set ops. (\<exists>u \<in> snd ` set (se_uploads ?s). op = PipeAborted (up_temp_key u) \<or> op = DeleteSent (up_temp_key u))
            \<or> op = DeleteSent (''/tmp/'' @ hl_run_id (se_hello ?s))"
    using session_effects [OF over] by blast
  have "se_uploads ?s = [(1, demo_upload)]" "up_temp_key demo_upload = ''/tmp/r1/1''" "hl_run_id (se_hello ?s) = ''r1''" "w_storage demo_world = []"
    by (simp_all add: demo_uploading_def demo_shaken_def demo_upload_def demo_hello_def demo_world_def)
  with ops have "set ops \<subseteq> {PipeAborted ''/tmp/r1/1'', DeleteSent ''/tmp/r1/1'', DeleteSent ''/tmp/r1''}" "w' = demo_world\<lparr>w_storage := ops\<rparr>"
    by auto
  with over a show ?thesis by (metis snd_conv)
qed

text \<open>C9: The HELLO gate. A connection leaves the handshake exactly when the payload decodes, names
  protocol version 1, carries the server's token, an allowed region and the required fields,
  and the acknowledgement can be sent; the session then has those values, an empty window and
  the smaller of the two frame limits. Every other HELLO ends the connection with the session
  still in the handshake, and no HELLO touches the database or the object store.\<close>

theorem hello_gate:
  assumes "se_state s = stateHandshake" and "handleHello cfg cd e payload s w = (out, s', w')"
  shows "(out = Continue \<longleftrightarrow> se_state s' = stateHandshaked)
    \<and> (out = Continue \<longrightarrow> (\<exists>h. dec_hello cd payload = Inr h \<and> authenticated cfg h \<and> se_hello s' = h \<and> se_sem s' = Some 0
          \<and> se_max_frame s' = (if hl_expected_max_frame h = 0 then se_max_frame s
                                 else min (hl_expected_max_frame h) (se_max_frame s))))
    \<and> (\<forall>h. dec_hello cd payload = Inr h \<and> authenticated cfg h \<and> e_send e = None \<and> (\<forall>m. \<exists>b. enc_msg cd m = Inr b)
          \<longrightarrow> out = Continue)
    \<and> (\<forall>h. dec_hello cd payload = Inr h \<and> hl_proto h = ''hip'' \<and> hl_version h = 1 \<and> hl_bearer_token h \<noteq> cfg_bearer_token cfg
          \<longrightarrow> out = Stop (Fatal ErrCodeAuthFailed ''bearer token rejected''))
    \<and> w_db w' = w_db w \<and> w_storage w' = w_storage w"
proof -
  have "out = Continue" if c: "dec_hello cd payload = Inr h" "authenticated cfg h" "e_send e = None"
    and enc: "\<forall>m. \<exists>b. enc_msg cd m = Inr b" for h
  proof -
    obtain b where "\<And>m. enc_msg cd m = Inr (b m)" using enc by metis
    with c assms show ?thesis
      by (auto simp: handleHello_def serverAllowed_def authenticated_def Let_def send_def split: if_splits)
  qed
  moreover have "se_state s' \<noteq> stateHandshaked" if "out \<noteq> Continue"
    using that assms
    by (auto simp: handleHello_def handler_ends Let_def split: if_splits sum.splits prod.splits option.splits)
  moreover have "out = Stop (Fatal ErrCodeAuthFailed ''bearer token rejected'')"
    if "dec_hello cd payload = Inr h" "hl_proto h = ''hip''" "hl_version h = 1" "hl_bearer_token h \<noteq> cfg_bearer_token cfg" for h
    using that assms by (auto simp: handleHello_def sendFatal_Stop)
  moreover have "(if a \<noteq> 0 \<and> a < m then a else m) = (if a = 0 then m else min a m)" for a m :: u64
    by (cases "a < m") (auto simp: min_def)
  ultimately show ?thesis
    using handleHello_Continue [of cfg cd e payload s w s' w'] assms(2) handleHello_quiet [OF assms(2)]
    by auto
qed

theorem hello_gate_witness:
  "\<exists>s' w'. handleHello demo_cfg demo_codec demo_env [] (newSession demo_cfg) demo_world = (Continue, s', w')
     \<and> se_state s' = stateHandshaked \<and> w_db w' = empty_db"
proof -
  obtain out s' w' where h: "handleHello demo_cfg demo_codec demo_env [] (newSession demo_cfg) demo_world = (out, s', w')"
    by (metis prod_cases3)
  have st: "se_state (newSession demo_cfg) = stateHandshake" by (simp add: newSession_def)
  have a: "dec_hello demo_codec [] = Inr demo_hello" "authenticated demo_cfg demo_hello" "e_send demo_env = None"
      "\<forall>m. \<exists>b. enc_msg demo_codec m = Inr b" "w_db demo_world = empty_db"
    by (simp_all add: demo_codec_def authenticated_def demo_cfg_def demo_hello_def hello_zero_def demo_env_def demo_world_def)
  have out: "out = Continue" using hello_gate [OF st h] a by simp
  then have "se_state s' = stateHandshaked \<and> w_db w' = empty_db"
    using hello_gate [OF st h] a(5) by simp
  with h out show ?thesis by blast
qed

lemma sint_length: "n < 2 ^ 63 \<Longrightarrow> sint (of_nat n :: u64) = int n"
  by (simp add: signed_of_nat signed_take_bit_int_eq_self)

lemma verifyEnd_None:
  "verifyEnd cd u n = None \<longleftrightarrow> ue_total_bytes n = up_total_read u
     \<and> (up_expected_size u = 0 \<or> up_expected_size u = up_total_read u)
     \<and> (ue_sha256 n = [] \<or> ue_sha256 n = hash_hex cd (up_hashed u))"
  by (auto simp: verifyEnd_def)

lemma finalKeyOf_override:
  "finalKeyOf r u s = (k, ovr) \<Longrightarrow> ovr = (up_placement u = PlacementOverride)"
  by (auto simp: finalKeyOf_def PlacementShared_def PlacementOverride_def split: option.splits if_splits)

lemma dropInflight_gone:
  assumes "active_ok cfg s" and "mapGet i (se_uploads s) = Some u"
  shows "mapGet i (se_uploads (dropInflight i s)) = None" and "se_sem (dropInflight i s) = Some (length (se_uploads s) - 1)"
  using assms by (simp_all add: dropInflight_def semRelease_def active_ok_def)

text \<open>What \<open>verifyEnd\<close> accepts, in terms of the bytes received.\<close>

lemma verifyEnd_received:
  assumes "upload_ok h i u" and "length (up_hashed u) < 2 ^ 63"
  shows "verifyEnd cd u n = None \<longleftrightarrow> unat (ue_total_bytes n) = length (up_hashed u)
    \<and> (up_expected_size u = 0 \<or> up_expected_size u = ue_total_bytes n) \<and> (ue_sha256 n = [] \<or> ue_sha256 n = hash_hex cd (up_hashed u))"
proof -
  have "unat (up_total_read u) = length (up_hashed u)"
    using assms by (simp add: upload_ok_def unat_of_nat take_bit_nat_eq_self_iff)
  then have "ue_total_bytes n = up_total_read u \<longleftrightarrow> unat (ue_total_bytes n) = length (up_hashed u)"
    by (metis word_unat_eq_iff)
  then show ?thesis by (auto simp: verifyEnd_None)
qed

text \<open>A stored upload leaves the session with the new row and without the stream.\<close>

lemma stored_session:
  assumes "active_ok cfg s"
    and "s' = dropInflight i (markBundleUploaded bp fp (s\<lparr>se_uploads := mapSet i u (se_uploads s), se_pending := se_pending s @ [row]\<rparr>))"
    and "mapGet i (se_uploads s) = Some v"
  shows "se_pending s' = se_pending s @ [row]" "mapGet i (se_uploads s') = None" "se_sem s' = Some (length (se_uploads s) - 1)"
proof -
  obtain bs where s': "s' = dropInflight i (s\<lparr>se_uploads := mapSet i u (se_uploads s), se_pending := se_pending s @ [row], se_bundles := bs\<rparr>)"
    using assms(2) markBundleUploaded_frame [of bp fp "s\<lparr>se_uploads := mapSet i u (se_uploads s), se_pending := se_pending s @ [row]\<rparr>"] by auto
  show "se_pending s' = se_pending s @ [row]" "mapGet i (se_uploads s') = None" "se_sem s' = Some (length (se_uploads s) - 1)"
    using assms(1,3) unfolding s' by (simp_all add: dropInflight_def semRelease_def active_ok_def)
qed

text \<open>C5: Upload integrity. An UPLOAD_END queues a row for COMMIT only if the declared size is the number
  of bytes received, a size announced at BEGIN is that number too, and a declared hash is the
  hash of the bytes received; the row then carries that hash and size, the path and placement
  decided at BEGIN, and its storage key is either reused or was just copied from the
  temporary object that had received exactly those bytes, which is then deleted unless the context is
  cancelled. Nothing is copied otherwise. In every case of a known stream the stream ends and its slot is
  released. An END that declares no hash is accepted on its size alone, although the HELLO_ACK announces that
  hashes are required.\<close>

theorem upload_end_integrity:
  assumes "session_run cfg cd tr s" and "se_state s = stateRunning"
    and "handleUploadEnd cd e payload s w = (out, s', w')"
    and "dec_upload_end cd payload = Inr n" and "mapGet (ue_stream_id n) (se_uploads s) = Some u"
    and "length (up_hashed u) < 2 ^ 63"
  shows "mapGet (ue_stream_id n) (se_uploads s') = None \<and> se_sem s' = Some (length (se_uploads s) - 1)
    \<and> (if e_put e = None \<and> unat (ue_total_bytes n) = length (up_hashed u)
          \<and> (up_expected_size u = 0 \<or> up_expected_size u = ue_total_bytes n)
          \<and> (ue_sha256 n = [] \<or> ue_sha256 n = hash_hex cd (up_hashed u))
          \<and> (reusableKey e (hash_hex cd (up_hashed u)) s w = None \<longrightarrow> e_copy e = None)
       then \<exists>row. se_pending s' = se_pending s @ [row] \<and> a_path row = up_path u
              \<and> a_sha256 row = hash_hex cd (up_hashed u) \<and> a_size row = int (length (up_hashed u))
              \<and> a_is_override row = (up_placement u = PlacementOverride)
              \<and> w_storage w' = w_storage w @ [PutDone (up_temp_key u) (putContentType u) (up_hashed u)]
                   @ (case reusableKey e (hash_hex cd (up_hashed u)) s w of
                        None \<Rightarrow> [CopyDone (up_temp_key u) (a_storage_key row)] | Some k \<Rightarrow> [])
                   @ (if e_done e 0 then [] else [DeleteSent (up_temp_key u)])
              \<and> (\<forall>k. reusableKey e (hash_hex cd (up_hashed u)) s w = Some k \<longrightarrow> a_storage_key row = k)
       else se_pending s' = se_pending s \<and> (\<forall>src dst. CopyDone src dst \<in> set (w_storage w') \<longrightarrow> CopyDone src dst \<in> set (w_storage w)))"
proof -
  let ?sha = "hash_hex cd (up_hashed u)" and ?i = "ue_stream_id n"
  let ?s = "s\<lparr>se_uploads := mapSet ?i (u\<lparr>up_closed := True\<rparr>) (se_uploads s)\<rparr>"
  have ok: "active_ok cfg s"
    using session_run_inv [OF assms(1)] session_inv_active assms(2) by blast
  then have up: "upload_ok (se_hello s) ?i u" by (rule upload_okI [OF _ assms(5)])
  note verify = verifyEnd_received [OF up assms(6)]
  have put: "mapGet ?i (se_uploads (dropInflight ?i ?s)) = None \<and> se_sem (dropInflight ?i ?s) = Some (length (se_uploads s) - 1)
      \<and> se_pending (dropInflight ?i ?s) = se_pending s"
    using dropInflight_gone [OF ok assms(5)] dropInflight_set [OF assms(5)]
    by (simp add: dropInflight_def semRelease_def split: option.splits)
  from assms(3) show ?thesis
  proof (cases rule: handleUploadEnd_cases)
    case stopped
    then show ?thesis using assms(4,5) by blast
  next
    case (put_failed n' u' err)
    then show ?thesis using put assms(4,5)
      by (auto simp: finishInflight_def abort_def storageDelete_def deleteLog_def Let_def)
  next
    case (refused n' u' status msg)
    then have eq: "n' = n" "u' = u" using assms(4,5) by auto
    have "\<not> (verifyEnd cd u n = None \<and> (reusableKey e ?sha s w = None \<longrightarrow> e_copy e = None))"
      using refused(4) eq by auto
    moreover have "\<forall>src dst. CopyDone src dst \<in> set (w_storage w') \<longrightarrow> CopyDone src dst \<in> set (w_storage w)"
      using refused(8) by (auto simp: deleteLog_def split: if_splits)
    ultimately show ?thesis using put refused(3,5) eq verify by auto
  next
    case (stored n' u' key ovr)
    then have eq: "n' = n" "u' = u" using assms(4,5) by auto
    let ?row = "pendingRow s u ?sha ovr key"
    note pend = stored_session [OF ok stored(7) [unfolded eq] assms(5)]
    have key: "key = k" if "reusableKey e ?sha s w = Some k" for k
      using stored(6) that by (simp add: eq finalKeyOf_def)
    have size: "sint (up_total_read u) = int (length (up_hashed u))"
      using up assms(6) by (simp add: upload_ok_def sint_length)
    have "verifyEnd cd u n = None" using stored(5) eq by simp
    moreover have "w_storage w' = w_storage w @ [PutDone (up_temp_key u) (putContentType u) (up_hashed u)]
        @ (case reusableKey e ?sha s w of None \<Rightarrow> [CopyDone (up_temp_key u) key] | Some k \<Rightarrow> []) @ (if e_done e 0 then [] else [DeleteSent (up_temp_key u)])"
      using stored(10) by (simp add: eq deleteLog_def split: option.splits)
    moreover have "ovr = (up_placement u = PlacementOverride)"
      using finalKeyOf_override [OF stored(6) [symmetric]] eq by simp
    ultimately show ?thesis
      using pend key size stored(3,4) eq verify by (simp add: pendingRow_def split: option.split)
  qed
qed

theorem upload_end_integrity_witness:
  "\<exists>s' w' row. handleUploadEnd demo_codec demo_env [] demo_ready demo_world = (Continue, s', w')
     \<and> se_pending s' = [row] \<and> a_sha256 row = ''h2'' \<and> a_size row = 2"
proof -
  let ?u = "demo_upload\<lparr>up_hashed := [7, 8], up_total_read := 2\<rparr>"
  obtain out s' w' where h: "handleUploadEnd demo_codec demo_env [] demo_ready demo_world = (out, s', w')"
    by (metis prod_cases3)
  have pre: "se_state demo_ready = stateRunning" "dec_upload_end demo_codec [] = Inr demo_end"
      "mapGet (ue_stream_id demo_end) (se_uploads demo_ready) = Some ?u" "length (up_hashed ?u) < 2 ^ 63"
    by (simp_all add: demo_ready_def demo_uploading_def demo_codec_def demo_end_def mapGet_def)
  have cond: "e_put demo_env = None" "e_copy demo_env = None" "unat (ue_total_bytes demo_end) = length (up_hashed ?u)"
      "up_expected_size ?u = ue_total_bytes demo_end" "ue_sha256 demo_end = []" "se_pending demo_ready = []"
      "hash_hex demo_codec (up_hashed ?u) = ''h2''"
    by (simp_all add: demo_env_def demo_end_def demo_upload_def demo_ready_def demo_uploading_def demo_shaken_def newSession_def
        demo_codec_def, code_simp)
  have "out = Continue"
  proof -
    show ?thesis
      using h pre by (auto simp: handleUploadEnd_def finish_def Let_def finishInflight_def reply_def send_def demo_env_def demo_codec_def
          split: option.splits prod.splits)
  qed
  moreover obtain tr where "session_run demo_cfg demo_codec tr demo_ready" using demo_ready_run by blast
  from upload_end_integrity [OF this pre(1) h pre(2-4)] cond
  have "\<exists>row. se_pending s' = [row] \<and> a_sha256 row = ''h2'' \<and> a_size row = 2" by auto
  ultimately show ?thesis using h by auto
qed

text \<open>C21: Every connection comes to an end. On a finite input the read loop returns, or waits for an upload slot with the window full.
  When it has returned, the cleanup leaves no upload behind and changes neither database nor cache, and the session is counted as committed
  only if a COMMIT finalised it. If the context of the session is alive, the cleanup has sent a DELETE for the temporary key of every upload that was in
  flight and, after an accepted HELLO, for the directory of the run; if the loop ended because the context was
  cancelled, which is how the server stops its sessions, it sends no DELETE at all, and the temporary objects stay.\<close>

theorem runSession_terminates_clean:
  assumes "fair_env e0"
  shows "\<exists>out s1 w1. readLoop cfg cd es (NewFrameReader conn) (newSession cfg) w = (out, s1, w1) \<and>
    (case out of
       Continue \<Rightarrow> False
     | Blocked \<Rightarrow> runSession cfg cd e0 es conn w = None \<and> length (se_uploads s1) = unat (cfg_max_in_flight_uploads cfg)
     | Stop err \<Rightarrow>
         (\<exists>s' w' ops. runSession cfg cd e0 es conn w = Some (sessionResult err (se_state s1), s', w')
            \<and> se_uploads s' = [] \<and> w' = w1\<lparr>w_storage := w_storage w1 @ ops\<rparr>
            \<and> (sessionResult err (se_state s1) = ''commit'' \<longrightarrow> se_state s1 = stateFinalized)
            \<and> (if \<exists>c. err = CtxDone c then \<forall>k. DeleteSent k \<notin> set ops
               else (\<forall>n. \<not> e_done e0 n) \<longrightarrow> (\<forall>(i, u) \<in> set (se_uploads s1). DeleteSent (up_temp_key u) \<in> set ops)
                 \<and> (authenticated cfg (se_hello s1) \<longrightarrow> DeleteSent (''/tmp/'' @ hl_run_id (se_hello s1)) \<in> set ops))))"
proof -
  obtain out s1 w1 where r: "readLoop cfg cd es (NewFrameReader conn) (newSession cfg) w = (out, s1, w1)" by (metis prod_cases3)
  from readLoop_over [OF r run_start] obtain tr where out: "out \<noteq> Continue"
      "out = Blocked \<longrightarrow> length (se_uploads s1) = unat (cfg_max_in_flight_uploads cfg)" and over: "session_over cfg cd tr s1" by auto
  show ?thesis
  proof (cases out)
    case (Stop err)
    let ?e = "cleanupEnv err e0"
    have fair: "fair_env ?e" using assms by (simp add: cleanupEnv_def fair_env_def split: session_error.split)
    obtain s' w' where c: "abortAllUploads ?e s1 w1 = (s', w')" by (cases "abortAllUploads ?e s1 w1")
    obtain ops where ops: "se_uploads s' = []" "se_state s' = se_state s1" "w' = w1\<lparr>w_storage := w_storage w1 @ ops\<rparr>"
      and live: "\<forall>n. \<not> e_done ?e n \<Longrightarrow> (\<forall>(i, u) \<in> set (se_uploads s1). DeleteSent (up_temp_key u) \<in> set ops)
         \<and> (hl_run_id (se_hello s1) \<noteq> [] \<longrightarrow> DeleteSent (''/tmp/'' @ hl_run_id (se_hello s1)) \<in> set ops)"
      and dead: "\<forall>n. e_done ?e n \<Longrightarrow> \<forall>k. DeleteSent k \<notin> set ops"
      by (rule abortAllUploads_clean [OF over_keyed [OF over] fair c]) blast
    have "runSession cfg cd e0 es conn w = Some (sessionResult err (se_state s1), s', w')"
      using r Stop c ops(2) by (simp add: runSession_def)
    moreover have "sessionResult err (se_state s1) = ''commit'' \<longrightarrow> se_state s1 = stateFinalized"
      using over_not_closed [OF over] by (auto simp: sessionResult_def split: if_splits)
    moreover have "if \<exists>c. err = CtxDone c then \<forall>k. DeleteSent k \<notin> set ops
        else (\<forall>n. \<not> e_done e0 n) \<longrightarrow> (\<forall>(i, u) \<in> set (se_uploads s1). DeleteSent (up_temp_key u) \<in> set ops)
          \<and> (authenticated cfg (se_hello s1) \<longrightarrow> DeleteSent (''/tmp/'' @ hl_run_id (se_hello s1)) \<in> set ops)"
    proof (cases "\<exists>c. err = CtxDone c")
      case True
      then have "\<forall>n. e_done ?e n" by (auto simp: cleanupEnv_def)
      with dead True show ?thesis by simp
    next
      case False
      then have "?e = e0" by (auto simp: cleanupEnv_def split: session_error.split)
      with live False show ?thesis by (simp add: authenticated_def)
    qed
    ultimately have "\<exists>s' w' ops. runSession cfg cd e0 es conn w = Some (sessionResult err (se_state s1), s', w')
        \<and> se_uploads s' = [] \<and> w' = w1\<lparr>w_storage := w_storage w1 @ ops\<rparr>
        \<and> (sessionResult err (se_state s1) = ''commit'' \<longrightarrow> se_state s1 = stateFinalized)
        \<and> (if \<exists>c. err = CtxDone c then \<forall>k. DeleteSent k \<notin> set ops
           else (\<forall>n. \<not> e_done e0 n) \<longrightarrow> (\<forall>(i, u) \<in> set (se_uploads s1). DeleteSent (up_temp_key u) \<in> set ops)
             \<and> (authenticated cfg (se_hello s1) \<longrightarrow> DeleteSent (''/tmp/'' @ hl_run_id (se_hello s1)) \<in> set ops))"
      using ops(1,3) by (intro exI conjI)
    with r Stop show ?thesis by simp
  qed (use out r in \<open>auto simp: runSession_def\<close>)
qed

text \<open>A client that says HELLO, begins an upload and is gone; and the same client on a server that is stopped after the second frame.\<close>

definition demo_input :: stream where
  "demo_input = \<lparr>st_bytes = [0, 0, 0, 1, FrameHello, 0, 0, 0, 1, FrameUploadBegin], st_end = EOF\<rparr>"

definition demo_stopped :: "nat \<Rightarrow> env" where
  "demo_stopped n = (if n = 2 then demo_env\<lparr>e_ctx := Some ''context canceled''\<rparr> else demo_env)"

lemma demo_loops:
  "readLoop demo_cfg demo_codec (\<lambda>_. demo_env) (NewFrameReader demo_input) (newSession demo_cfg) demo_world = (out, s1, w1) \<Longrightarrow>
     out = Stop (ReadFailed (IOError EOF)) \<and> se_uploads s1 = [(1, demo_upload)] \<and> hl_run_id (se_hello s1) = ''r1'' \<and> se_state s1 = stateRunning"
  "readLoop demo_cfg demo_codec demo_stopped (NewFrameReader demo_input) (newSession demo_cfg) demo_world = (out, s1, w1) \<Longrightarrow>
     out = Stop (CtxDone ''context canceled'') \<and> se_uploads s1 = [(1, demo_upload)] \<and> (\<forall>k. DeleteSent k \<notin> set (w_storage w1))"
proof -
  let ?r = "readLoop demo_cfg demo_codec (\<lambda>_. demo_env) (NewFrameReader demo_input) (newSession demo_cfg) demo_world"
  have "(case ?r of (out, s1, w1) \<Rightarrow> out = Stop (ReadFailed (IOError EOF)) \<and> se_uploads s1 = [(1, demo_upload)]
      \<and> hl_run_id (se_hello s1) = ''r1'' \<and> se_state s1 = stateRunning)"
    by code_simp
  then show "?r = (out, s1, w1) \<Longrightarrow> out = Stop (ReadFailed (IOError EOF)) \<and> se_uploads s1 = [(1, demo_upload)]
      \<and> hl_run_id (se_hello s1) = ''r1'' \<and> se_state s1 = stateRunning" by simp
  let ?q = "readLoop demo_cfg demo_codec demo_stopped (NewFrameReader demo_input) (newSession demo_cfg) demo_world"
  have "(case ?q of (out, s1, w1) \<Rightarrow> out = Stop (CtxDone ''context canceled'') \<and> se_uploads s1 = [(1, demo_upload)]
      \<and> w_storage w1 = [PutStarted ''/tmp/r1/1'' ''application/octet-stream''])"
    by code_simp
  then show "?q = (out, s1, w1) \<Longrightarrow> out = Stop (CtxDone ''context canceled'') \<and> se_uploads s1 = [(1, demo_upload)]
      \<and> (\<forall>k. DeleteSent k \<notin> set (w_storage w1))" by auto
qed

theorem runSession_terminates_clean_witness:
  "(\<exists>s' w'. runSession demo_cfg demo_codec demo_env (\<lambda>_. demo_env) demo_input demo_world = Some (''abort'', s', w')
      \<and> se_uploads s' = [] \<and> DeleteSent ''/tmp/r1/1'' \<in> set (w_storage w'))
   \<and> (\<exists>s' w'. runSession demo_cfg demo_codec demo_env demo_stopped demo_input demo_world = Some (''abort'', s', w')
      \<and> se_uploads s' = [] \<and> (\<forall>k. DeleteSent k \<notin> set (w_storage w')))"
proof
  have fair: "fair_env demo_env" by (simp add: fair_env_def demo_env_def)
  have live: "\<forall>n. \<not> e_done demo_env n" "up_temp_key demo_upload = ''/tmp/r1/1''" by (simp_all add: demo_env_def demo_upload_def)
  obtain out s1 w1 where r: "readLoop demo_cfg demo_codec (\<lambda>_. demo_env) (NewFrameReader demo_input) (newSession demo_cfg) demo_world = (out, s1, w1)"
    by (metis prod_cases3)
  from runSession_terminates_clean [OF fair, of demo_cfg demo_codec "\<lambda>_. demo_env" demo_input demo_world] demo_loops(1) [OF r] r live
  show "\<exists>s' w'. runSession demo_cfg demo_codec demo_env (\<lambda>_. demo_env) demo_input demo_world = Some (''abort'', s', w')
      \<and> se_uploads s' = [] \<and> DeleteSent ''/tmp/r1/1'' \<in> set (w_storage w')"
    by (auto simp: sessionResult_def cleanClose_def)
  obtain out' s2 w2 where q: "readLoop demo_cfg demo_codec demo_stopped (NewFrameReader demo_input) (newSession demo_cfg) demo_world = (out', s2, w2)"
    by (metis prod_cases3)
  from runSession_terminates_clean [OF fair, of demo_cfg demo_codec demo_stopped demo_input demo_world] demo_loops(2) [OF q] q
  show "\<exists>s' w'. runSession demo_cfg demo_codec demo_env demo_stopped demo_input demo_world = Some (''abort'', s', w')
      \<and> se_uploads s' = [] \<and> (\<forall>k. DeleteSent k \<notin> set (w_storage w'))"
    by (auto simp: sessionResult_def cleanClose_def)
qed

end
