(* ===== verification/Commit.thy ===== *)
theory Commit
  imports SessionSafety
begin

text \<open>
  The COMMIT transaction of \<^verbatim>\<open>handleCommit\<close>: it is all or nothing, what it leaves in the tables,
  which bundle completions win, and that every path a reader can see changed is reported to
  the lookup cache.
\<close>

section \<open>The phases of the transaction\<close>

lemma commitTx_phases:
  assumes "commitTx e c s d0 = Inr (vid, d', ch)"
  obtains d1 dc2 k dc3 d4 m d5 where
    "InsertVersion (e_sql e ''version'' 0) (e_now e ''version'' 0) (commitVersion c s) d0 = Inr (vid, d1)"
    "foldR (\<lambda>i a dc. mapErr (internalErr ''insert asset: '')
       (insertTracked (e_sql e ''pending'' i) (e_now e ''pending'' i) a dc)) 0 (se_pending s) (d1, []) = Inr dc2"
    "foldR (bundleReuseBody e s) 0 (bundleReuses e s) (0, dc2) = Inr (k, dc3)"
    "foldR (\<lambda>i r dc. mapErr (internalErr ''insert reuse asset: '')
       (insertTracked (e_sql e ''shared'' i) (e_now e ''shared'' i) (sharedReuseRow s r) dc))
       0 (e_iter_shared e (map snd (se_shared_reuse s))) dc3 = Inr (d4, ch)"
    "foldR (mergeCompleted s vid) 0 (cm_completed_bundles c) (bundleCompletionMap e vid s) = Inr m"
    "foldR (\<lambda>i completion d. mapErr (internalErr ''insert bundle completion: '')
       (InsertBundleCompletion (e_sql e ''completion'' i) (e_now e ''completion'' i) completion d))
       0 (sortedBundleCompletions m) d4 = Inr d5"
    "MarkReadIndexCurrent (e_sql e ''mark'' 0) d5 = Inr d'"
  using assms
  by (auto simp: commitTx_def bindR_Inr_iff exec_Inr_iff split: prod.splits intro: that)

text \<open>The rows the three insertion loops write.\<close>

definition commitRow :: "session \<Rightarrow> asset \<Rightarrow> bool" where
  "commitRow s a \<longleftrightarrow> a_server a = hl_region (se_hello s) \<and> a_version a = hl_asset_version (se_hello s)"

lemma bundleReuseBody_invariant:
  assumes "bundleReuseBody e s i br st = Inr st'" and "P (snd st)"
    and step: "\<And>f now a dc dc'. commitRow s a \<Longrightarrow> insertTracked f now a dc = Inr dc' \<Longrightarrow> P dc \<Longrightarrow> P dc'"
  shows "P (snd st')"
proof -
  from assms(1) obtain assets where l: "foldR (\<lambda>j a st.
            bindR (mapErr (internalErr ''insert bundle reuse asset: '')
                    (insertTracked (e_sql e ''reuse'' (fst st)) (e_now e ''reuse'' (fst st)) (reuseAsset s a) (snd st)))
              (\<lambda>dc. Inr (Suc (fst st), dc))) 0 assets st = Inr st'"
    by (auto simp: bundleReuseBody_def bindR_Inr_iff)
  show ?thesis
  proof (rule foldR_invariant [OF l, where P = "\<lambda>st. P (snd st)"])
    show "P (snd st)" by (rule assms(2))
  next
    fix j a t t'
    assume "P (snd t)" and "bindR (mapErr (internalErr ''insert bundle reuse asset: '')
                    (insertTracked (e_sql e ''reuse'' (fst t)) (e_now e ''reuse'' (fst t)) (reuseAsset s a) (snd t)))
              (\<lambda>dc. Inr (Suc (fst t), dc)) = Inr t'"
    moreover have "commitRow s (reuseAsset s a)" by (simp add: commitRow_def reuseAsset_def)
    ultimately obtain dc where "insertTracked (e_sql e ''reuse'' (fst t)) (e_now e ''reuse'' (fst t)) (reuseAsset s a) (snd t) = Inr dc"
        and "t' = (Suc (fst t), dc)" and "commitRow s (reuseAsset s a)" and "P (snd t)"
      by (auto simp: bindR_Inr_iff)
    then show "P (snd t')" using step by (metis snd_conv)
  qed
qed

lemma commit_rows:
  assumes "active_ok cfg s" and "fair_env e"
  shows "\<forall>a \<in> set (se_pending s). commitRow s a"
    and "\<forall>r \<in> set (e_iter_shared e (map snd (se_shared_reuse s))). commitRow s (sharedReuseRow s r)"
  using assms by (auto simp: active_ok_def pending_ok_def reuse_ok_def commitRow_def sharedReuseRow_def fair_env_def)

lemma reuse_loop_invariant:
  assumes "foldR (bundleReuseBody e s) 0 brs (k, dc) = Inr (k', dc')" and "P dc"
    and step: "\<And>f now a dc dc'. commitRow s a \<Longrightarrow> insertTracked f now a dc = Inr dc' \<Longrightarrow> P dc \<Longrightarrow> P dc'"
  shows "P dc'"
  using foldR_invariant [OF assms(1), of "\<lambda>st. P (snd st)"] bundleReuseBody_invariant [of e s _ _ _ _ P] assms(2) step
  by (metis snd_conv)

lemma shared_loop_invariant:
  assumes "foldR (\<lambda>i r dc. mapErr (internalErr ''insert reuse asset: '')
       (insertTracked (e_sql e ''shared'' i) (e_now e ''shared'' i) (sharedReuseRow s r) dc)) 0 rs dc = Inr dc'"
    and "\<forall>r \<in> set rs. commitRow s (sharedReuseRow s r)" and "P dc"
    and step: "\<And>f now a dc dc'. commitRow s a \<Longrightarrow> insertTracked f now a dc = Inr dc' \<Longrightarrow> P dc \<Longrightarrow> P dc'"
  shows "P dc'"
proof (rule foldR_invariant [where P = P, OF assms(1,3)])
  fix j r t t'
  assume "r \<in> set rs" and "P t" and "mapErr (internalErr ''insert reuse asset: '')
      (insertTracked (e_sql e ''shared'' j) (e_now e ''shared'' j) (sharedReuseRow s r) t) = Inr t'"
  then show "P t'" using step [of "sharedReuseRow s r"] assms(2) unfolding mapErr_Inr_iff by blast
qed

text \<open>Any predicate the insertions keep holds after the three loops, and what inserting one
  pending row establishes is still true at the end.\<close>

lemma commit_inserts_invariant:
  assumes tx: "commitTx e c s d0 = Inr (vid, d', ch)" and ok: "active_ok cfg s" "fair_env e"
    and step: "\<And>f now a dc dc'. commitRow s a \<Longrightarrow> insertTracked f now a dc = Inr dc' \<Longrightarrow> P dc \<Longrightarrow> P dc'"
    and start: "\<And>d1. InsertVersion (e_sql e ''version'' 0) (e_now e ''version'' 0) (commitVersion c s) d0 = Inr (vid, d1) \<Longrightarrow> P (d1, [])"
  shows "\<exists>d4. P (d4, ch) \<and> db_assets d' = db_assets d4 \<and> db_current d' = db_current d4 \<and> db_shared d' = db_shared d4"
  using tx
proof (cases rule: commitTx_phases)
  case (1 d1 dc2 k dc3 d4 m d5)
  have "P dc2"
  proof (rule foldR_invariant [where P = P, OF 1(2) start [OF 1(1)]])
    fix j a t t'
    assume "a \<in> set (se_pending s)" and "P t" and "mapErr (internalErr ''insert asset: '')
        (insertTracked (e_sql e ''pending'' j) (e_now e ''pending'' j) a t) = Inr t'"
    then show "P t'" using step [of a] commit_rows(1) [OF ok] unfolding mapErr_Inr_iff by blast
  qed
  then have "P dc3" by (rule reuse_loop_invariant [OF 1(3)]) (rule step)
  then have P4: "P (d4, ch)"
    by (rule shared_loop_invariant [OF 1(4) commit_rows(2) [OF ok]]) (rule step)
  have "db_assets d5 = db_assets d4 \<and> db_current d5 = db_current d4 \<and> db_shared d5 = db_shared d4"
    by (rule foldR_invariant [OF 1(6)]) (auto simp: InsertBundleCompletion_def Let_def exec_Inr_iff)
  moreover have "db_assets d' = db_assets d5 \<and> db_current d' = db_current d5 \<and> db_shared d' = db_shared d5"
    using 1(7) by (auto simp: MarkReadIndexCurrent_def setReadIndexMetaMaxID_def bindR_Inr_iff exec_Inr_iff
        split: option.splits if_splits)
  ultimately show ?thesis using P4 by auto
qed

section \<open>Schema integrity\<close>

lemma InsertVersion_frame:
  assumes "InsertVersion f now v d = Inr (i, d')"
  shows "db_assets d' = db_assets d" "db_asset_seq d' = db_asset_seq d" "db_current d' = db_current d"
    "db_shared d' = db_shared d" "db_sbundles d' = db_sbundles d" "db_obundles d' = db_obundles d" "db_meta d' = db_meta d"
    "db_completions d' = db_completions d"
  using assms by (auto simp: InsertVersion_def Let_def bindR_Inr_iff exec_Inr_iff split: option.splits)

lemma InsertVersion_wf:
  assumes "InsertVersion f now v d = Inr (i, d')" and "db_wf d"
  shows "db_wf d'"
proof -
  obtain v' where vs: "db_versions d' = tbl_upsert versionKey updVersion v' (db_versions d)"
    "db_version_seq d' = db_version_seq d + 1" "v_id v' = db_version_seq d + 1"
    using assms(1) by (auto simp: InsertVersion_def Let_def bindR_Inr_iff exec_Inr_iff split: option.splits)
  have ids: "map v_id (tbl_upsert versionKey updVersion v' (db_versions d)) =
      (if versionKey v' \<in> versionKey ` set (db_versions d) then map v_id (db_versions d) else map v_id (db_versions d) @ [v_id v'])"
    by (simp add: tbl_upsert_def ex_key_image updVersion_def)
  have "set (map v_id (db_versions d')) \<subseteq> insert (db_version_seq d + 1) (set (map v_id (db_versions d)))"
    unfolding vs(1) ids using vs(3) by auto
  then have range: "list_all (\<lambda>v. 0 < v_id v \<and> v_id v \<le> db_version_seq d') (db_versions d')"
    using assms(2) vs(2) by (force simp: list_all_iff db_wf_def)
  have "db_version_seq d + 1 \<notin> set (map v_id (db_versions d))"
    using assms(2) by (auto simp: db_wf_def list_all_iff)
  then have "tbl_unique v_id (db_versions d')"
    using assms(2) vs(3) unfolding tbl_unique_def vs(1) ids by (simp add: db_wf_def tbl_unique_def)
  moreover have "db_completion_seq d' = db_completion_seq d"
    using assms(1) by (auto simp: InsertVersion_def Let_def bindR_Inr_iff exec_Inr_iff split: option.splits)
  ultimately show ?thesis
    using assms(2) range vs by (simp add: db_wf_def InsertVersion_frame [OF assms(1)] versions_tbl.unique_upsert)
qed

lemma InsertBundleCompletion_wf:
  "InsertBundleCompletion f now c d = Inr d' \<Longrightarrow> db_wf d \<Longrightarrow> db_wf d'"
  by (auto simp: InsertBundleCompletion_def Let_def exec_Inr_iff db_wf_def completions_tbl.unique_upsert)

lemma MarkReadIndexCurrent_eq:
  assumes "MarkReadIndexCurrent f d = Inr d'"
  shows "\<exists>n. LatestAssetID no_fault d = Inr n \<and> d' = d\<lparr>db_meta := tbl_upsert m_key updMeta
     \<lparr>m_key = readIndexMaxAssetID, m_value = formatNat n\<rparr> (db_meta d)\<rparr>"
  using assms
  by (auto simp: MarkReadIndexCurrent_def LatestAssetID_def setReadIndexMetaMaxID_def bindR_Inr_iff exec_Inr_iff
      split: option.splits if_splits)

lemma MarkReadIndexCurrent_wf: "MarkReadIndexCurrent f d = Inr d' \<Longrightarrow> db_wf d \<Longrightarrow> db_wf d'"
  by (auto dest!: MarkReadIndexCurrent_eq simp: db_wf_def meta_tbl.unique_upsert)

lemma MarkReadIndexCurrent_settles:
  assumes "MarkReadIndexCurrent f d = Inr d'" and "db_wf d" and "db_asset_seq d < 2 ^ 63"
  shows "EnsureReadIndexes no_fault d' = Inr d'"
proof -
  from MarkReadIndexCurrent_eq [OF assms(1)] obtain n where n: "LatestAssetID no_fault d = Inr n"
    and d': "d' = d\<lparr>db_meta := tbl_upsert m_key updMeta \<lparr>m_key = readIndexMaxAssetID, m_value = formatNat n\<rparr> (db_meta d)\<rparr>"
    by blast
  have "int n < 2 ^ 64" using LatestAssetID_bound [OF assms(2) n] assms(3) by simp
  then have "n < 2 ^ 64" by (simp add: nat_less_iff)
  then have "readIndexMetaMaxID no_fault d' = Inr n"
    by (simp add: d' readIndexMetaMaxID_def meta_tbl.lookup_replace parseUint64_formatNat)
  moreover have "LatestAssetID no_fault d' = Inr n"
    using n LatestAssetID_assets [of d' d] by (simp add: d')
  ultimately show ?thesis by (simp add: EnsureReadIndexes_def)
qed

lemma insertTracked_eq:
  "insertTracked f now a dc = Inr dc' \<longleftrightarrow>
     (\<exists>d. InsertAsset f now a (fst dc) = Inr d \<and> dc' = (d, if a_path a \<noteq> [] then a_path a # snd dc else snd dc))"
  by (auto simp: insertTracked_def bindR_Inr_iff)

lemma commit_wf:
  assumes tx: "commitTx e c s d0 = Inr (vid, d', ch)" and ok: "active_ok cfg s" "fair_env e" and wf: "db_wf d0"
  shows "db_wf d'" and "db_asset_seq d' < 2 ^ 63 \<Longrightarrow> EnsureReadIndexes no_fault d' = Inr d'"
proof -
  obtain d1 dc2 k dc3 d4 m d5 where ph:
    "InsertVersion (e_sql e ''version'' 0) (e_now e ''version'' 0) (commitVersion c s) d0 = Inr (vid, d1)"
    "foldR (\<lambda>i a dc. mapErr (internalErr ''insert asset: '')
       (insertTracked (e_sql e ''pending'' i) (e_now e ''pending'' i) a dc)) 0 (se_pending s) (d1, []) = Inr dc2"
    "foldR (bundleReuseBody e s) 0 (bundleReuses e s) (0, dc2) = Inr (k, dc3)"
    "foldR (\<lambda>i r dc. mapErr (internalErr ''insert reuse asset: '')
       (insertTracked (e_sql e ''shared'' i) (e_now e ''shared'' i) (sharedReuseRow s r) dc))
       0 (e_iter_shared e (map snd (se_shared_reuse s))) dc3 = Inr (d4, ch)"
    "foldR (\<lambda>i completion d. mapErr (internalErr ''insert bundle completion: '')
       (InsertBundleCompletion (e_sql e ''completion'' i) (e_now e ''completion'' i) completion d))
       0 (sortedBundleCompletions m) d4 = Inr d5"
    "MarkReadIndexCurrent (e_sql e ''mark'' 0) d5 = Inr d'"
    using tx by (cases rule: commitTx_phases)
  have step: "db_wf (fst dc')" if "insertTracked f now a dc = Inr dc'" "db_wf (fst dc)" for f now a dc dc'
    using that InsertAsset_wf by (auto simp: insertTracked_eq)
  have "db_wf (fst dc2)"
    by (rule foldR_invariant [where P = "\<lambda>dc. db_wf (fst dc)", OF ph(2)])
      (use InsertVersion_wf [OF ph(1) wf] step in auto)
  then have "db_wf (fst dc3)"
    by (rule reuse_loop_invariant [where P = "\<lambda>dc. db_wf (fst dc)", OF ph(3)]) (rule step)
  then have "db_wf (fst (d4, ch))"
    by (rule shared_loop_invariant [where P = "\<lambda>dc. db_wf (fst dc)", OF ph(4) commit_rows(2) [OF ok]]) (rule step)
  then have wf5: "db_wf d5"
    by (intro foldR_invariant [where P = db_wf, OF ph(5)]) (auto dest: InsertBundleCompletion_wf)
  then show "db_wf d'" by (rule MarkReadIndexCurrent_wf [OF ph(6)])
  show "EnsureReadIndexes no_fault d' = Inr d'" if "db_asset_seq d' < 2 ^ 63"
    using MarkReadIndexCurrent_settles [OF ph(6) wf5] that MarkReadIndexCurrent_eq [OF ph(6)] by auto
qed

section \<open>What the transaction leaves\<close>

text \<open>The server's row for the path has the version, and readers of the server find content.\<close>

definition currentAt :: "string \<Rightarrow> string \<Rightarrow> string \<Rightarrow> db \<Rightarrow> bool" where
  "currentAt server path ver d \<longleftrightarrow> (\<exists>r. tbl_lookup curKey (server, path) (db_current d) = Some r \<and> c_version r = ver
     \<and> (c_is_override r \<or> tbl_lookup s_path path (db_shared d) \<noteq> None))"

lemma currentAt_found:
  assumes "currentAt server path ver d"
  shows "\<exists>p. LookupPlacement no_fault d server path = Inr p \<and> p_found p"
proof -
  from assms obtain r where r: "tbl_lookup curKey (server, path) (db_current d) = Some r"
      "c_is_override r \<or> tbl_lookup s_path path (db_shared d) \<noteq> None" by (auto simp: currentAt_def)
  show ?thesis
  proof (cases "c_is_override r")
    case True
    with r(1) show ?thesis
      by (simp add: LookupPlacement_def CurrentIndexedByServerPath_def scanCurrentAssetRow_def placementFromAsset_def)
  next
    case False
    with r obtain sr where "tbl_lookup s_path path (db_shared d) = Some sr" by auto
    with r(1) False show ?thesis by (simp add: LookupPlacement_indexed placementFromAsset_def)
  qed
qed

lemma insertTracked_currentAt:
  assumes "commitRow s a" and "insertTracked f now a dc = Inr dc'"
  shows "currentAt (hl_region (se_hello s)) (a_path a) (hl_asset_version (se_hello s)) (fst dc')"
    and "currentAt (hl_region (se_hello s)) p (hl_asset_version (se_hello s)) (fst dc)
      \<Longrightarrow> currentAt (hl_region (se_hello s)) p (hl_asset_version (se_hello s)) (fst dc')"
  using assms by (auto simp: insertTracked_eq currentAt_def commitRow_def InsertAsset_lookups curOfAsset_def split: if_splits)

lemma commit_pending_current:
  assumes tx: "commitTx e c s d0 = Inr (vid, d', ch)" and ok: "active_ok cfg s" "fair_env e" and a: "a \<in> set (se_pending s)"
  shows "currentAt (hl_region (se_hello s)) (a_path a) (hl_asset_version (se_hello s)) d'"
  using tx
proof (cases rule: commitTx_phases)
  case (1 d1 dc2 k dc3 d4 m d5)
  let ?P = "\<lambda>dc. currentAt (hl_region (se_hello s)) (a_path a) (hl_asset_version (se_hello s)) (fst dc)"
  have "?P dc2"
  proof (rule foldR_each [where P = ?P, OF 1(2) a])
    fix j t t'
    assume "mapErr (internalErr ''insert asset: '') (insertTracked (e_sql e ''pending'' j) (e_now e ''pending'' j) a t) = Inr t'"
    then show "?P t'" using insertTracked_currentAt(1) commit_rows(1) [OF ok] a by fastforce
  next
    fix j b t t'
    assume "b \<in> set (se_pending s)" and "?P t"
      and "mapErr (internalErr ''insert asset: '') (insertTracked (e_sql e ''pending'' j) (e_now e ''pending'' j) b t) = Inr t'"
    then show "?P t'" using insertTracked_currentAt(2) [of s b] commit_rows(1) [OF ok] by simp
  qed
  then have "?P dc3"
    by (rule reuse_loop_invariant [where P = ?P, OF 1(3)]) (rule insertTracked_currentAt(2))
  then have "?P (d4, ch)"
    by (rule shared_loop_invariant [where P = ?P, OF 1(4) commit_rows(2) [OF ok]]) (rule insertTracked_currentAt(2))
  moreover have "db_current d5 = db_current d4 \<and> db_shared d5 = db_shared d4"
    by (rule foldR_invariant [OF 1(6)]) (auto simp: InsertBundleCompletion_def Let_def exec_Inr_iff)
  moreover have "db_current d' = db_current d5 \<and> db_shared d' = db_shared d5"
    using MarkReadIndexCurrent_eq [OF 1(7)] by auto
  ultimately show ?thesis by (simp add: currentAt_def)
qed

lemma LookupPlacement_tables:
  assumes "db_assets d' = db_assets d" and "db_current d' = db_current d" and "db_shared d' = db_shared d"
  shows "LookupPlacement no_fault d' server path = LookupPlacement no_fault d server path"
  by (rule LookupPlacement_cong) (simp_all add: assms CurrentIndexedByServerPath_def CurrentIndexedSharedByPath_def
      CurrentByServerPath_def CurrentSharedByPath_def)

lemma commit_unchanged_paths:
  assumes tx: "commitTx e c s d0 = Inr (vid, d', ch)" and ok: "active_ok cfg s" "fair_env e"
    and path: "path \<noteq> []" "path \<notin> set ch"
  shows "LookupPlacement no_fault d' server path = LookupPlacement no_fault d0 server path"
proof -
  let ?P = "\<lambda>dc. path \<notin> set (snd dc) \<longrightarrow> LookupPlacement no_fault (fst dc) server path = LookupPlacement no_fault d0 server path"
  have "\<exists>d4. ?P (d4, ch) \<and> db_assets d' = db_assets d4 \<and> db_current d' = db_current d4 \<and> db_shared d' = db_shared d4"
  proof (rule commit_inserts_invariant [where P = ?P, OF tx ok])
    fix f now a dc dc'
    assume "insertTracked f now a dc = Inr dc'" and "?P dc"
    then show "?P dc'"
      using path(1) by (auto simp: insertTracked_eq InsertAsset_elsewhere split: if_splits)
  next
    fix d1
    assume "InsertVersion (e_sql e ''version'' 0) (e_now e ''version'' 0) (commitVersion c s) d0 = Inr (vid, d1)"
    from InsertVersion_frame(1,3,4) [OF this] show "?P (d1, [])" by (auto intro: LookupPlacement_tables)
  qed
  then obtain d4 where "?P (d4, ch)" and d4: "db_assets d' = db_assets d4" "db_current d' = db_current d4" "db_shared d' = db_shared d4"
    by blast
  with path(2) LookupPlacement_tables [OF d4] show ?thesis by simp
qed

section \<open>Bundle completions\<close>

lemma merge_get:
  "mapGet p (mergeBundleCompletion m c) =
     (if p = bc_bundle_path c \<and> p \<noteq> []
      then (case mapGet p m of
              Some old \<Rightarrow> if bundleCompletionSourceRank (bc_source c) < bundleCompletionSourceRank (bc_source old) then Some old else Some c
            | None \<Rightarrow> Some c)
      else mapGet p m)"
  by (auto simp: mergeBundleCompletion_def split: option.splits)

lemma merge_distinct: "distinct (map fst m) \<Longrightarrow> distinct (map fst (mergeBundleCompletion m c))"
  by (auto simp: mergeBundleCompletion_def intro: distinct_mapSet split: option.splits)

text \<open>After merging a list, a path has an entry iff some completion in it (or before) has that path,
  and the entry is one of highest rank.\<close>

definition best_completion :: "bundle_completion list \<Rightarrow> string \<Rightarrow> bundle_completion option \<Rightarrow> bool" where
  "best_completion cs p r \<longleftrightarrow>
     (case r of
        None \<Rightarrow> p = [] \<or> (\<forall>c \<in> set cs. bc_bundle_path c \<noteq> p)
      | Some c \<Rightarrow> p \<noteq> [] \<and> c \<in> set cs \<and> bc_bundle_path c = p
          \<and> (\<forall>c' \<in> set cs. bc_bundle_path c' = p \<longrightarrow>
               bundleCompletionSourceRank (bc_source c') \<le> bundleCompletionSourceRank (bc_source c)))"

lemma best_completion_merge:
  assumes "best_completion cs p (mapGet p m)"
  shows "best_completion (cs @ [c]) p (mapGet p (mergeBundleCompletion m c))"
  using assms by (auto simp: best_completion_def merge_get split: option.splits)

lemma best_completion_fold:
  "best_completion cs p (mapGet p m) \<Longrightarrow> best_completion (cs @ cs') p (mapGet p (foldl mergeBundleCompletion m cs'))"
proof (induction cs' arbitrary: cs m)
  case (Cons c cs')
  from Cons.IH [OF best_completion_merge [OF Cons.prems]] show ?case by simp
qed simp

lemma best_completion_Nil: "best_completion [] p None"
  by (simp add: best_completion_def)

lemma merge_fold_distinct: "distinct (map fst m) \<Longrightarrow> distinct (map fst (foldl mergeBundleCompletion m cs))"
  by (induction cs arbitrary: m) (auto intro: merge_distinct)

definition itemCompletion :: "session \<Rightarrow> int \<Rightarrow> commit_bundle_completion \<Rightarrow> bundle_completion" where
  "itemCompletion s vid item =
     \<lparr>bc_id = 0, bc_version_id = vid, bc_server = hl_region (se_hello s), bc_asset_version = hl_asset_version (se_hello s),
      bc_asset_hash = hl_asset_hash (se_hello s), bc_bundle_path = safeStripInvisible (cc_path item),
      bc_fingerprint = cc_fingerprint item, bc_source = normalizeBundleCompletionSource (cc_source item), bc_completed_at = 0\<rparr>"

lemma mergeCompleted_fold:
  "foldR (mergeCompleted s vid) i items m = Inr m' \<Longrightarrow> m' = foldl mergeBundleCompletion m (map (itemCompletion s vid) items)"
  by (induction items arbitrary: i m)
    (auto simp: mergeCompleted_def itemCompletion_def Let_def bindR_Inr_iff split: sum.splits)

definition sessionCompletions :: "env \<Rightarrow> commit \<Rightarrow> session \<Rightarrow> int \<Rightarrow> bundle_completion list" where
  "sessionCompletions e c s vid = bundleCompletions e vid s @ map (itemCompletion s vid) (cm_completed_bundles c)"

lemma merge_keys:
  "\<forall>(k, c) \<in> set m. bc_bundle_path c = k \<Longrightarrow> \<forall>(k, c) \<in> set (foldl mergeBundleCompletion m cs). bc_bundle_path c = k"
proof (induction cs arbitrary: m)
  case (Cons c cs)
  then have "\<forall>(k, c) \<in> set (mergeBundleCompletion m c). bc_bundle_path c = k"
    by (auto simp: mergeBundleCompletion_def set_mapSet split: option.splits)
  from Cons.IH [OF this] show ?case by simp
qed simp

lemma completion_insert_lookup:
  assumes "InsertBundleCompletion f now c d = Inr d'"
  shows "tbl_lookup completionKey k (db_completions d') =
    (if k = completionKey c then
       (let c1 = (if bc_completed_at c = 0 then c\<lparr>bc_completed_at := now\<rparr> else c)\<lparr>bc_id := db_completion_seq d + 1\<rparr>
        in Some (case tbl_lookup completionKey k (db_completions d) of None \<Rightarrow> c1 | Some old \<Rightarrow> updCompletion c1 old))
     else tbl_lookup completionKey k (db_completions d))"
  using assms by (auto simp: InsertBundleCompletion_def Let_def exec_Inr_iff completions_tbl.lookup_upsert completionKey_def)

definition completedAs :: "bundle_completion \<Rightarrow> db \<Rightarrow> bool" where
  "completedAs c d \<longleftrightarrow> (\<exists>r. tbl_lookup completionKey (completionKey c) (db_completions d) = Some r
     \<and> bc_fingerprint r = bc_fingerprint c \<and> bc_source r = bc_source c \<and> bc_version_id r = bc_version_id c)"

lemma completion_inserted: "InsertBundleCompletion f now c d = Inr d' \<Longrightarrow> completedAs c d'"
  by (auto simp: completedAs_def completion_insert_lookup Let_def updCompletion_def split: option.splits)

lemma completion_kept:
  assumes "InsertBundleCompletion f now c' d = Inr d'" and "completedAs c d" and "completionKey c' \<noteq> completionKey c \<or> c' = c"
  shows "completedAs c d'"
  using assms(3)
proof
  assume "completionKey c' \<noteq> completionKey c"
  with assms(2) completion_insert_lookup [OF assms(1)] show ?thesis by (simp add: completedAs_def)
next
  assume "c' = c"
  with completion_inserted [OF assms(1)] show ?thesis by simp
qed

lemma commit_completions:
  assumes tx: "commitTx e c s d0 = Inr (vid, d', ch)" and x: "x \<in> set (sessionCompletions e c s vid)" "bc_bundle_path x \<noteq> []"
  shows "\<exists>y \<in> set (sessionCompletions e c s vid). best_completion (sessionCompletions e c s vid) (bc_bundle_path x) (Some y)
    \<and> completedAs y d'"
  using tx
proof (cases rule: commitTx_phases)
  case (1 d1 dc2 k dc3 d4 m d5)
  let ?cs = "sessionCompletions e c s vid"
  have m: "m = foldl mergeBundleCompletion [] ?cs"
    using mergeCompleted_fold [OF 1(5)] by (simp add: sessionCompletions_def bundleCompletionMap_def)
  have keys: "\<forall>(k, c) \<in> set m. bc_bundle_path c = k" "distinct (map fst m)"
    unfolding m by (rule merge_keys, simp) (rule merge_fold_distinct, simp)
  have best: "best_completion ?cs (bc_bundle_path x) (mapGet (bc_bundle_path x) m)"
    using best_completion_fold [of "[]" "bc_bundle_path x" "[]" ?cs] by (simp add: m best_completion_Nil)
  then obtain y where y: "mapGet (bc_bundle_path x) m = Some y"
    using x by (cases "mapGet (bc_bundle_path x) m") (auto simp: best_completion_def)
  then have ym: "y \<in> set (sortedBundleCompletions m)"
    by (force simp: sortedBundleCompletions_def dest: mapGet_SomeD)
  have one: "z = y" if z: "z \<in> set (sortedBundleCompletions m)" "completionKey z = completionKey y" for z
  proof -
    obtain kz ky where in_m: "(kz, z) \<in> set m" "(ky, y) \<in> set m" using z(1) ym by (auto simp: sortedBundleCompletions_def)
    have "kz = ky"
      using bspec [OF keys(1) in_m(1)] bspec [OF keys(1) in_m(2)] z(2) by (simp add: completionKey_def)
    with in_m show ?thesis using eq_key_imp_eq_value [OF keys(2)] by blast
  qed
  have "completedAs y d5"
  proof (rule foldR_each [where P = "completedAs y", OF 1(6) ym])
    fix j t t'
    assume "mapErr (internalErr ''insert bundle completion: '')
      (InsertBundleCompletion (e_sql e ''completion'' j) (e_now e ''completion'' j) y t) = Inr t'"
    then show "completedAs y t'" using completion_inserted by simp
  next
    fix j z t t'
    assume "z \<in> set (sortedBundleCompletions m)" "completedAs y t" "mapErr (internalErr ''insert bundle completion: '')
      (InsertBundleCompletion (e_sql e ''completion'' j) (e_now e ''completion'' j) z t) = Inr t'"
    then show "completedAs y t'"
      using completion_kept [of "e_sql e ''completion'' j" "e_now e ''completion'' j" z t t' y] one [of z]
      unfolding mapErr_Inr_iff by blast
  qed
  moreover have "db_completions d' = db_completions d5"
    using MarkReadIndexCurrent_eq [OF 1(7)] by auto
  ultimately have "completedAs y d'" by (simp add: completedAs_def)
  moreover have "best_completion ?cs (bc_bundle_path x) (Some y)" using best y by simp
  ultimately show ?thesis by (auto simp: best_completion_def)
qed

lemma commit_knows_version:
  assumes tx: "commitTx e c s d0 = Inr (vid, d', ch)"
  shows "KnownVersion no_fault d' (hl_region (se_hello s)) (hl_asset_version (se_hello s)) (hl_asset_hash (se_hello s)) = Inr True"
  using tx
proof (cases rule: commitTx_phases)
  case (1 d1 dc2 k dc3 d4 m d5)
  let ?V = "db_versions d1"
  have keep: "db_versions (fst dc') = ?V" if "insertTracked f now a dc = Inr dc'" "db_versions (fst dc) = ?V" for f now a dc dc'
    using that by (auto simp: insertTracked_eq InsertAsset_tables(6))
  have "db_versions (fst dc2) = ?V"
    by (rule foldR_invariant [where P = "\<lambda>dc. db_versions (fst dc) = ?V", OF 1(2)]) (use keep in auto)
  then have "db_versions (fst dc3) = ?V"
    by (rule reuse_loop_invariant [where P = "\<lambda>dc. db_versions (fst dc) = ?V", OF 1(3)]) (rule keep)
  then have "db_versions (fst (d4, ch)) = ?V"
    by (intro foldR_invariant [where P = "\<lambda>dc. db_versions (fst dc) = ?V", OF 1(4)]) (use keep in auto)
  moreover have "db_versions d5 = db_versions d4"
    by (rule foldR_invariant [OF 1(6)]) (auto simp: InsertBundleCompletion_def Let_def exec_Inr_iff)
  ultimately have V: "db_versions d' = ?V" using MarkReadIndexCurrent_eq [OF 1(7)] by auto
  obtain r where "tbl_lookup versionKey (versionKey (commitVersion c s)) ?V = Some r"
    using 1(1) by (auto simp: InsertVersion_def Let_def bindR_Inr_iff exec_Inr_iff versionKey_def split: option.splits if_splits)
  then have "r \<in> set ?V \<and> versionKey r = versionKey (commitVersion c s)" by (rule tbl_lookup_SomeD)
  then show ?thesis by (auto simp: KnownVersion_def V versionKey_def commitVersion_def)
qed

lemma sessionCompletions_key:
  "x \<in> set (sessionCompletions e c s vid) \<Longrightarrow> bc_server x = hl_region (se_hello s)
     \<and> bc_asset_version x = hl_asset_version (se_hello s) \<and> bc_asset_hash x = hl_asset_hash (se_hello s)"
  by (auto simp: sessionCompletions_def bundleCompletions_def completionOf_def itemCompletion_def Let_def)

lemma commit_bundle_completed:
  assumes tx: "commitTx e c s d0 = Inr (vid, d', ch)" and fair: "fair_env e"
    and b: "(k, b) \<in> set (se_bundles s)" "kb_bundle_path b \<noteq> []"
  shows "\<exists>r \<in> set (db_completions d'). bc_server r = hl_region (se_hello s) \<and> bc_asset_version r = hl_asset_version (se_hello s)
    \<and> bc_asset_hash r = hl_asset_hash (se_hello s) \<and> bc_bundle_path r = kb_bundle_path b
    \<and> bundleCompletionSourceRank (bc_source (completionOf 0 s b)) \<le> bundleCompletionSourceRank (bc_source r)"
proof -
  let ?x = "completionOf vid s b"
  have "b \<in> snd ` set (se_bundles s)" using b(1) by (metis image_eqI snd_conv)
  then have x: "?x \<in> set (sessionCompletions e c s vid)"
    using fair by (simp add: sessionCompletions_def bundleCompletions_def fair_env_def)
  have bp: "bc_bundle_path ?x = kb_bundle_path b" "bc_source ?x = bc_source (completionOf 0 s b)"
    by (simp_all add: completionOf_def Let_def)
  from commit_completions [OF tx x] b(2) bp obtain y where y: "y \<in> set (sessionCompletions e c s vid)" "completedAs y d'"
      "best_completion (sessionCompletions e c s vid) (kb_bundle_path b) (Some y)"
    by auto
  then obtain r where "r \<in> set (db_completions d')" "completionKey r = completionKey y" "bc_source r = bc_source y"
    by (auto simp: completedAs_def dest!: tbl_lookup_SomeD)
  moreover have "bundleCompletionSourceRank (bc_source ?x) \<le> bundleCompletionSourceRank (bc_source y)" "bc_bundle_path y = kb_bundle_path b"
    using y(3) x bp(1) by (simp_all add: best_completion_def)
  ultimately show ?thesis
    using sessionCompletions_key [OF y(1)] bp(2) by (intro bexI [of _ r]) (simp_all add: completionKey_def)
qed

lemma foldR_total:
  assumes "\<And>j x t. x \<in> set xs \<Longrightarrow> \<exists>t'. body j x t = Inr t'"
  shows "\<exists>s'. foldR body i xs s = Inr s'"
  using assms
proof (induction xs arbitrary: i s)
  case (Cons x xs)
  obtain t where "body i x s = Inr t" using Cons.prems [of x i s] by auto
  with Cons.IH [of "Suc i" t] Cons.prems show ?case by simp
qed simp

lemma insertTracked_total: "\<exists>dc'. insertTracked no_fault now a dc = Inr dc'"
  using InsertAsset_total [of now a "fst dc"] by (auto simp: insertTracked_def)

lemma insert_loop_total:
  "\<exists>dc'. foldR (\<lambda>i a dc. mapErr h (insertTracked no_fault (n i) (g a) dc)) i xs dc = Inr dc'"
  by (rule foldR_total) (simp only: mapErr_Inr_iff insertTracked_total)

lemma InsertVersion_total: "\<exists>i d'. InsertVersion no_fault now v d = Inr (i, d')"
proof -
  let ?v = "if v_committed_at v = 0 then v\<lparr>v_committed_at := now\<rparr> else v"
  have "versionKey ?v = versionKey (?v\<lparr>v_id := db_version_seq d + 1\<rparr>)" by (simp add: versionKey_def)
  then obtain r where "tbl_lookup versionKey (versionKey ?v)
      (tbl_upsert versionKey updVersion (?v\<lparr>v_id := db_version_seq d + 1\<rparr>) (db_versions d)) = Some r"
    using versions_tbl.lookup_upsert [of "versionKey ?v" "?v\<lparr>v_id := db_version_seq d + 1\<rparr>" "db_versions d"] by simp
  then show ?thesis unfolding InsertVersion_def Let_def by simp
qed

lemma MarkReadIndexCurrent_total: "\<exists>d'. MarkReadIndexCurrent no_fault d = Inr d'"
  by (auto simp: MarkReadIndexCurrent_def setReadIndexMetaMaxID_def split: option.splits)

lemma commitTx_total:
  assumes quiet: "e_sql e = (\<lambda>_ _ _. None)"
    and safe: "\<forall>item \<in> set (cm_completed_bundles c). \<exists>p. SafeRelPath (safeStripInvisible (cc_path item)) = Inr p"
  shows "\<exists>r. commitTx e c s d = Inr r"
proof -
  obtain vid d1 where 1: "InsertVersion no_fault (e_now e ''version'' 0) (commitVersion c s) d = Inr (vid, d1)"
    using InsertVersion_total by blast
  obtain dc2 where 2: "foldR (\<lambda>i a dc. mapErr (internalErr ''insert asset: '')
      (insertTracked no_fault (e_now e ''pending'' i) a dc)) 0 (se_pending s) (d1, []) = Inr dc2"
    using insert_loop_total [where g = "\<lambda>a. a"] by blast
  have body: "\<exists>st'. bundleReuseBody e s i br st = Inr st'" for i br st
  proof -
    have st: "\<exists>t'. bindR (mapErr (internalErr ''insert bundle reuse asset: '')
        (insertTracked no_fault (e_now e ''reuse'' (fst t)) (reuseAsset s a) (snd t))) (\<lambda>dc. Inr (Suc (fst t), dc)) = Inr t'" for a t
      using insertTracked_total [of "e_now e ''reuse'' (fst t)" "reuseAsset s a" "snd t"] by (auto simp: bindR_Inr_iff)
    show ?thesis
      unfolding bundleReuseBody_def quiet ReusableBundleAssets_def exec_simps bindR_simps mapErr_simps
      by (rule foldR_total) (rule st)
  qed
  obtain k dc3 where 3: "foldR (bundleReuseBody e s) 0 (bundleReuses e s) (0, dc2) = Inr (k, dc3)"
    using foldR_total [of "bundleReuses e s" "bundleReuseBody e s"] body by (metis surj_pair)
  obtain d4 ch where 4: "foldR (\<lambda>i r dc. mapErr (internalErr ''insert reuse asset: '')
      (insertTracked no_fault (e_now e ''shared'' i) (sharedReuseRow s r) dc))
      0 (e_iter_shared e (map snd (se_shared_reuse s))) dc3 = Inr (d4, ch)"
    using insert_loop_total [where g = "sharedReuseRow s"] by (metis surj_pair)
  obtain m where 5: "foldR (mergeCompleted s vid) 0 (cm_completed_bundles c) (bundleCompletionMap e vid s) = Inr m"
    using foldR_total [of "cm_completed_bundles c" "mergeCompleted s vid"] safe by (fastforce simp: mergeCompleted_def Let_def)
  obtain d5 where 6: "foldR (\<lambda>i completion d. mapErr (internalErr ''insert bundle completion: '')
      (InsertBundleCompletion no_fault (e_now e ''completion'' i) completion d)) 0 (sortedBundleCompletions m) d4 = Inr d5"
    using foldR_total [of "sortedBundleCompletions m" "\<lambda>i completion d. mapErr (internalErr ''insert bundle completion: '')
      (InsertBundleCompletion no_fault (e_now e ''completion'' i) completion d)"] by (auto simp: InsertBundleCompletion_def Let_def)
  obtain d6 where "MarkReadIndexCurrent no_fault d5 = Inr d6" using MarkReadIndexCurrent_total by blast
  with 1 2 3 4 5 6 show ?thesis by (simp add: commitTx_def quiet)
qed

section \<open>Properties\<close>

text \<open>C3: COMMIT is atomic. Unless the session ends up finalised, neither the database nor the lookup
  cache has seen anything of it and the connection stops. When it is finalised, the database
  still satisfies the schema, knows the version, every uploaded path is current for the
  region at the committed version, every bundle the session checked or uploaded has a
  completion row for this version of at least the rank the session saw, and the read index is
  marked current, so that the next start finds nothing to rebuild.\<close>

theorem commit_atomic:
  assumes "session_run cfg cd tr s" and "se_state s = stateHandshaked \<or> se_state s = stateRunning" and "fair_env e"
    and "db_wf (w_db w)" and "f_type f = FrameCommit" and "dispatch cfg cd e f s w = (out, s', w')"
  shows "if se_state s' = stateFinalized
    then se_uploads s = [] \<and> db_wf (w_db w')
      \<and> KnownVersion no_fault (w_db w') (hl_region (se_hello s)) (hl_asset_version (se_hello s)) (hl_asset_hash (se_hello s)) = Inr True
      \<and> (\<forall>a \<in> set (se_pending s). (\<exists>r. tbl_lookup curKey (hl_region (se_hello s), a_path a) (db_current (w_db w')) = Some r
              \<and> c_version r = hl_asset_version (se_hello s))
            \<and> (\<exists>p. LookupPlacement no_fault (w_db w') (hl_region (se_hello s)) (a_path a) = Inr p \<and> p_found p))
      \<and> (\<forall>(k, b) \<in> set (se_bundles s). kb_bundle_path b \<noteq> [] \<longrightarrow>
            (\<exists>r \<in> set (db_completions (w_db w')). bc_server r = hl_region (se_hello s)
               \<and> bc_asset_version r = hl_asset_version (se_hello s) \<and> bc_asset_hash r = hl_asset_hash (se_hello s)
               \<and> bc_bundle_path r = kb_bundle_path b
               \<and> bundleCompletionSourceRank (bc_source (completionOf 0 s b)) \<le> bundleCompletionSourceRank (bc_source r)))
      \<and> (db_asset_seq (w_db w') < 2 ^ 63 \<longrightarrow> EnsureReadIndexes no_fault (w_db w') = Inr (w_db w'))
    else out \<noteq> Continue \<and> w_db w' = w_db w \<and> w_invalidated w' = w_invalidated w \<and> w_storage w' = w_storage w"
proof -
  let ?s = "s\<lparr>se_state := stateCommitting\<rparr>" and ?h = "se_hello s"
  have ok: "active_ok cfg ?s"
    using session_run_inv [OF assms(1)] session_inv_active assms(2) by simp
  have "handleCommit cfg cd e (f_payload f) ?s w = (out, s', w')"
    using assms(2,5,6) by (auto simp: dispatch_def FrameCommit_def FrameHello_def FrameCheckBatch_def FrameUploadBegin_def
        FrameUploadChunk_def FrameUploadEnd_def)
  then show ?thesis
  proof (cases rule: handleCommit_cases)
    case stopped
    then show ?thesis by simp
  next
    case (committed c vid d changed)
    note tx = committed(3)
    obtain d1 where iv: "InsertVersion (e_sql e ''version'' 0) (e_now e ''version'' 0) (commitVersion c ?s) (w_db w) = Inr (vid, d1)"
      using tx by (cases rule: commitTx_phases)
    have known: "KnownVersion no_fault d (hl_region ?h) (hl_asset_version ?h) (hl_asset_hash ?h) = Inr True"
      using commit_knows_version [OF tx] by simp
    have bundles: "\<exists>r \<in> set (db_completions d). bc_server r = hl_region ?h \<and> bc_asset_version r = hl_asset_version ?h
        \<and> bc_asset_hash r = hl_asset_hash ?h \<and> bc_bundle_path r = kb_bundle_path b
        \<and> bundleCompletionSourceRank (bc_source (completionOf 0 s b)) \<le> bundleCompletionSourceRank (bc_source r)"
      if b: "(k, b) \<in> set (se_bundles s)" "kb_bundle_path b \<noteq> []" for k b
      using commit_bundle_completed [OF tx assms(3), of k b] b by (simp add: completionOf_def)
    have at: "currentAt (hl_region ?h) (a_path a) (hl_asset_version ?h) d" if "a \<in> set (se_pending s)" for a
      using commit_pending_current [OF tx ok assms(3)] that by simp
    have "\<forall>a \<in> set (se_pending s). (\<exists>r. tbl_lookup curKey (hl_region ?h, a_path a) (db_current d) = Some r
        \<and> c_version r = hl_asset_version ?h) \<and> (\<exists>p. LookupPlacement no_fault d (hl_region ?h) (a_path a) = Inr p \<and> p_found p)"
      using currentAt_found [OF at] at unfolding currentAt_def by blast
    with known bundles commit_wf [OF tx ok assms(3,4)] committed show ?thesis
      by (auto split: prod.splits)
  qed
qed

lemma demo_ready_done:
  "\<exists>s w. handleUploadEnd demo_codec demo_env [] demo_ready demo_world = (Continue, s, w) \<and> se_state s = stateRunning
     \<and> se_uploads s = [] \<and> w_db w = empty_db"
proof -
  obtain out s w where h: "handleUploadEnd demo_codec demo_env [] demo_ready demo_world = (out, s, w)" by (metis prod_cases3)
  obtain tr where run: "session_run demo_cfg demo_codec tr demo_ready" using demo_ready_run by blast
  have st: "se_state demo_ready = stateRunning" by (simp add: demo_ready_def demo_uploading_def)
  have ok: "active_ok demo_cfg demo_ready" using session_run_inv [OF run] session_inv_active st by blast
  have "out = Continue \<and> se_uploads s = []"
    using h by (auto simp: handleUploadEnd_def finish_def Let_def finishInflight_def reply_def send_def demo_env_def demo_codec_def
        demo_ready_def demo_end_def demo_uploading_def mapGet_def mapSet_def tbl_upsert_def dropInflight_def mapDel_def semRelease_def
        markBundleUploaded_def split: option.splits prod.splits if_splits)
  moreover have "w_db w = empty_db" "se_state s = stateRunning"
    using handleUploadEnd_active [OF h ok] st by (simp_all add: demo_world_def)
  ultimately show ?thesis using h by blast
qed

lemma dispatch_commit:
  assumes "f_type f = FrameCommit" and "se_state s = stateHandshaked \<or> se_state s = stateRunning"
  shows "dispatch cfg cd e f s w = handleCommit cfg cd e (f_payload f) (s\<lparr>se_state := stateCommitting\<rparr>) w"
  using assms by (auto simp: dispatch_def FrameCommit_def FrameHello_def FrameCheckBatch_def FrameUploadBegin_def
      FrameUploadChunk_def FrameUploadEnd_def)

text \<open>C22: A COMMIT goes through: with no upload in flight, acceptable bundle paths and no error of the
  database, the codec or the writer, the session is finalised and acknowledged.\<close>

theorem commit_succeeds:
  assumes "se_state s = stateHandshaked \<or> se_state s = stateRunning" and "se_uploads s = []"
    and "f_type f = FrameCommit" and "dec_commit cd (f_payload f) = Inr c"
    and "\<forall>item \<in> set (cm_completed_bundles c). \<exists>p. SafeRelPath (safeStripInvisible (cc_path item)) = Inr p"
    and "e_sql e = (\<lambda>_ _ _. None)" and "e_send e = None" and "\<forall>m. \<exists>b. enc_msg cd m = Inr b"
  shows "\<exists>s' w' vid b. dispatch cfg cd e f s w = (Continue, s', w') \<and> se_state s' = stateFinalized
    \<and> enc_msg cd (MCommitAck \<lparr>ck_version_id = of_int vid, ck_override_index_rebuilt = True\<rparr>) = Inr b
    \<and> w_sent w' = w_sent w @ [\<lparr>f_type = FrameCommitAck, f_payload = b\<rparr>]"
proof -
  let ?s = "s\<lparr>se_state := stateCommitting\<rparr>"
  obtain vid d ch where tx: "commitTx e c ?s (w_db w) = Inr (vid, d, ch)"
    using commitTx_total [OF assms(6,5)] by (metis prod_cases3)
  obtain b where b: "enc_msg cd (MCommitAck \<lparr>ck_version_id = of_int vid, ck_override_index_rebuilt = True\<rparr>) = Inr b"
    using assms(8) by blast
  have "\<exists>w'. handleCommit cfg cd e (f_payload f) ?s w = (Continue, s\<lparr>se_state := stateFinalized\<rparr>, w')
      \<and> w_sent w' = w_sent w @ [\<lparr>f_type = FrameCommitAck, f_payload = b\<rparr>]"
    using assms(2,4,7) tx b by (simp add: handleCommit_def Let_def reply_def send_def ret_def)
  with b show ?thesis by (fastforce simp: dispatch_commit [OF assms(3,1)])
qed

lemma demo_commit_ready:
  "\<exists>tr s. \<exists>w :: world. session_run demo_cfg demo_codec tr s \<and> se_state s = stateRunning \<and> se_uploads s = []
     \<and> (\<exists>row. se_pending s = [row] \<and> a_path row \<noteq> []) \<and> w_db w = empty_db \<and> hl_asset_version (se_hello s) = ''6.0''"
proof -
  obtain tr where run: "session_run demo_cfg demo_codec tr demo_ready" using demo_ready_run by blast
  obtain s w where h: "handleUploadEnd demo_codec demo_env [] demo_ready demo_world = (Continue, s, w)"
    "se_state s = stateRunning" "se_uploads s = []" "w_db w = empty_db" using demo_ready_done by blast
  have "dispatch demo_cfg demo_codec demo_env \<lparr>f_type = FrameUploadEnd, f_payload = []\<rparr> demo_ready demo_world = (Continue, s, w)"
    using h(1) by (simp add: dispatch_def FrameHello_def FrameCheckBatch_def FrameUploadBegin_def FrameUploadChunk_def FrameUploadEnd_def
        demo_ready_def demo_uploading_def)
  from run_frame [OF run this] have run': "session_run demo_cfg demo_codec (tr @ [(\<lparr>f_type = FrameUploadEnd, f_payload = []\<rparr>, demo_world, w)]) s" .
  have "\<exists>row. se_pending s = [row] \<and> a_path row \<noteq> []"
    using h(1) by (auto simp: handleUploadEnd_def finish_def Let_def finishInflight_def reply_def send_def demo_env_def demo_codec_def
        demo_ready_def demo_end_def demo_uploading_def demo_shaken_def newSession_def demo_upload_def verifyEnd_def
        mapGet_def mapSet_def tbl_upsert_def dropInflight_def mapDel_def semRelease_def
        markBundleUploaded_def pendingRow_def split: option.splits prod.splits if_splits)
  moreover have "se_hello s = demo_hello"
    using h(1) by (auto simp: handleUploadEnd_def finish_def Let_def finishInflight_def reply_def send_def demo_env_def demo_codec_def
        demo_ready_def demo_end_def demo_uploading_def demo_shaken_def newSession_def demo_upload_def verifyEnd_def
        mapGet_def mapSet_def tbl_upsert_def dropInflight_def mapDel_def semRelease_def
        markBundleUploaded_def pendingRow_def split: option.splits prod.splits if_splits)
  then have "hl_asset_version (se_hello s) = ''6.0''" by (simp add: demo_hello_def)
  ultimately show ?thesis using run' h(2-4) by blast
qed

lemma demo_commitTx: "\<exists>vid d ch. commitTx demo_env demo_commit s d0 = Inr (vid, d, ch)"
proof -
  have "e_sql demo_env = (\<lambda>_ _ _. None)"
    "\<forall>item \<in> set (cm_completed_bundles demo_commit). \<exists>p. SafeRelPath (safeStripInvisible (cc_path item)) = Inr p"
    by (simp_all add: demo_env_def demo_commit_def)
  from commitTx_total [OF this] show ?thesis by (metis prod_cases3)
qed

lemma demo_simps:
  "dec_commit demo_codec p = Inr demo_commit" "enc_msg demo_codec m = Inr []" "e_send demo_env = None"
  by (simp_all add: demo_codec_def demo_env_def)

theorem commit_succeeds_witness:
  "\<exists>tr s w s' w'. session_run demo_cfg demo_codec tr s \<and> se_state s = stateRunning
     \<and> dispatch demo_cfg demo_codec demo_env \<lparr>f_type = FrameCommit, f_payload = []\<rparr> s w = (Continue, s', w')
     \<and> se_state s' = stateFinalized"
proof -
  obtain tr s and w :: world where s: "session_run demo_cfg demo_codec tr s" "se_state s = stateRunning" "se_uploads s = []" "w_db w = empty_db"
    using demo_commit_ready by blast
  have env: "e_sql demo_env = (\<lambda>_ _ _. None)" "e_send demo_env = None" "\<forall>m. \<exists>b. enc_msg demo_codec m = Inr b"
    by (simp_all add: demo_env_def demo_codec_def)
  have "\<exists>c. dec_commit demo_codec (f_payload \<lparr>f_type = FrameCommit, f_payload = []\<rparr>) = Inr c
      \<and> (\<forall>item \<in> set (cm_completed_bundles c). \<exists>p. SafeRelPath (safeStripInvisible (cc_path item)) = Inr p)"
    by (simp add: demo_codec_def demo_commit_def)
  then obtain c where c: "dec_commit demo_codec (f_payload \<lparr>f_type = FrameCommit, f_payload = []\<rparr>) = Inr c"
      "\<forall>item \<in> set (cm_completed_bundles c). \<exists>p. SafeRelPath (safeStripInvisible (cc_path item)) = Inr p" by blast
  from s(2) have st: "se_state s = stateHandshaked \<or> se_state s = stateRunning" by simp
  have ft: "f_type \<lparr>f_type = FrameCommit, f_payload = []\<rparr> = FrameCommit" by simp
  from commit_succeeds [OF st s(3) ft c env, of demo_cfg w] s(1,2) show ?thesis by blast
qed

theorem commit_atomic_witness:
  "\<exists>tr s w s' w' row. session_run demo_cfg demo_codec tr s \<and> se_pending s = [row]
     \<and> dispatch demo_cfg demo_codec demo_env \<lparr>f_type = FrameCommit, f_payload = []\<rparr> s w = (Continue, s', w')
     \<and> (\<exists>p. LookupPlacement no_fault (w_db w') (hl_region (se_hello s)) (a_path row) = Inr p \<and> p_found p)"
proof -
  obtain tr s row and w :: world where s: "session_run demo_cfg demo_codec tr s" "se_state s = stateRunning" "se_uploads s = []" "w_db w = empty_db"
    "se_pending s = [row]" using demo_commit_ready by blast
  obtain out s' w' where h: "dispatch demo_cfg demo_codec demo_env \<lparr>f_type = FrameCommit, f_payload = []\<rparr> s w = (out, s', w')"
    by (metis prod_cases3)
  obtain vid d ch where "commitTx demo_env demo_commit (s\<lparr>se_state := stateCommitting\<rparr>) (w_db w) = Inr (vid, d, ch)"
    using demo_commitTx by blast
  then have fin: "out = Continue" "se_state s' = stateFinalized"
    using h s(2,3) by (auto simp: dispatch_commit handleCommit_def demo_simps Let_def reply_def send_def)
  have pre: "se_state s = stateHandshaked \<or> se_state s = stateRunning" "fair_env demo_env" "db_wf (w_db w)"
      "f_type \<lparr>f_type = FrameCommit, f_payload = []\<rparr> = FrameCommit"
    using s by (simp_all add: fair_env_def demo_env_def db_wf_empty)
  from commit_atomic [OF s(1) pre h] fin(2) s(5)
  have "\<exists>p. LookupPlacement no_fault (w_db w') (hl_region (se_hello s)) (a_path row) = Inr p \<and> p_found p" by simp
  with h fin(1) s show ?thesis by blast
qed

text \<open>C23: Cache coherence at COMMIT: whenever a commit changes what some server reads at a path, that
  path is in the list handed to the lookup cache, which is sorted and free of duplicates;
  nothing is handed over when nothing was written.\<close>

theorem commit_invalidates_changed:
  assumes "session_run cfg cd tr s" and "se_state s = stateHandshaked \<or> se_state s = stateRunning" and "fair_env e"
    and "f_type f = FrameCommit" and "dispatch cfg cd e f s w = (out, s', w')" and "cfg_has_cache cfg"
    and "path \<noteq> []" and "LookupPlacement no_fault (w_db w') server path \<noteq> LookupPlacement no_fault (w_db w) server path"
  shows "\<exists>ps. w_invalidated w' = w_invalidated w @ [ps] \<and> path \<in> set ps \<and> sorted ps \<and> distinct ps"
proof -
  let ?s = "s\<lparr>se_state := stateCommitting\<rparr>"
  have ok: "active_ok cfg ?s"
    using session_run_inv [OF assms(1)] session_inv_active assms(2) by simp
  have "handleCommit cfg cd e (f_payload f) ?s w = (out, s', w')"
    using assms(5) by (simp add: dispatch_commit [OF assms(4,2)])
  then show ?thesis
  proof (cases rule: handleCommit_cases)
    case stopped
    with assms(8) show ?thesis by simp
  next
    case (committed c vid d changed)
    have "path \<in> set changed"
      using commit_unchanged_paths [OF committed(3) ok assms(3,7)] assms(8) committed(5) by auto
    moreover from this have "w_invalidated w' = w_invalidated w @ [sortedPathKeys changed]"
      using committed(7) assms(6) by (auto split: if_splits)
    ultimately show ?thesis by (auto simp: sortedPathKeys_def)
  qed
qed

theorem commit_invalidates_changed_witness:
  "\<exists>tr s s' path. \<exists>w w' :: world. session_run demo_cfg demo_codec tr s
     \<and> dispatch demo_cfg demo_codec demo_env \<lparr>f_type = FrameCommit, f_payload = []\<rparr> s w = (Continue, s', w')
     \<and> (\<exists>ps. w_invalidated w' = w_invalidated w @ [ps] \<and> path \<in> set ps)"
proof -
  obtain tr s row and w :: world where s: "session_run demo_cfg demo_codec tr s" "se_state s = stateRunning" "se_uploads s = []"
    "w_db w = empty_db" "se_pending s = [row]" "a_path row \<noteq> []" using demo_commit_ready by blast
  obtain out s' w' where h: "dispatch demo_cfg demo_codec demo_env \<lparr>f_type = FrameCommit, f_payload = []\<rparr> s w = (out, s', w')"
    by (metis prod_cases3)
  let ?s = "s\<lparr>se_state := stateCommitting\<rparr>"
  obtain vid d ch where tx: "commitTx demo_env demo_commit ?s (w_db w) = Inr (vid, d, ch)"
    using demo_commitTx by blast
  then have fin: "out = Continue" "w_db w' = d"
    using h s(2,3) by (auto simp: dispatch_commit handleCommit_def demo_simps Let_def reply_def send_def split: if_splits)
  have pre: "se_state s = stateHandshaked \<or> se_state s = stateRunning" "fair_env demo_env"
      "f_type \<lparr>f_type = FrameCommit, f_payload = []\<rparr> = FrameCommit" "cfg_has_cache demo_cfg"
    using s by (simp_all add: fair_env_def demo_env_def demo_cfg_def)
  have ok: "active_ok demo_cfg ?s" using session_run_inv [OF s(1)] session_inv_active pre(1) by simp
  obtain p where p: "LookupPlacement no_fault (w_db w') (hl_region (se_hello s)) (a_path row) = Inr p" "p_found p"
    using currentAt_found commit_pending_current [OF tx ok pre(2), of row] s(5) fin(2) by fastforce
  have "LookupPlacement no_fault empty_db (hl_region (se_hello s)) (a_path row) = Inr placement_zero"
    by (simp add: LookupPlacement_def CurrentIndexedByServerPath_def CurrentIndexedSharedByPath_def CurrentByServerPath_def
        CurrentSharedByPath_def empty_db_def)
  with p have "LookupPlacement no_fault (w_db w') (hl_region (se_hello s)) (a_path row)
      \<noteq> LookupPlacement no_fault (w_db w) (hl_region (se_hello s)) (a_path row)"
    by (auto simp: s(4) placement_zero_def)
  from commit_invalidates_changed [OF s(1) pre(1-3) h pre(4) s(6) this] h fin(1) s(1) show ?thesis by blast
qed

text \<open>Which completion of a bundle wins: of the completions the session checked or uploaded and those
  the client lists, the one kept for a bundle path has the highest rank (uploaded over
  check-skip over zero-file), so its rank does not depend on the order in which the session's
  map is walked; paths are kept apart and the empty path has no completion.\<close>

theorem bundleCompletionMap_best:
  assumes "fair_env e" and "fair_env e'"
  shows "best_completion (bundleCompletions e vid s) p (mapGet p (bundleCompletionMap e vid s))
    \<and> map_option (\<lambda>c. bundleCompletionSourceRank (bc_source c)) (mapGet p (bundleCompletionMap e vid s))
      = map_option (\<lambda>c. bundleCompletionSourceRank (bc_source c)) (mapGet p (bundleCompletionMap e' vid s))
    \<and> distinct (map fst (bundleCompletionMap e vid s))"
proof -
  have best: "best_completion (bundleCompletions x vid s) p (mapGet p (bundleCompletionMap x vid s))" for x
    using best_completion_fold [of "[]" p "[]" "bundleCompletions x vid s"] by (simp add: bundleCompletionMap_def best_completion_Nil)
  have set: "set (bundleCompletions e vid s) = set (bundleCompletions e' vid s)"
    using assms by (simp add: bundleCompletions_def fair_env_def)
  have "map_option (\<lambda>c. bundleCompletionSourceRank (bc_source c)) (mapGet p (bundleCompletionMap e vid s))
      = map_option (\<lambda>c. bundleCompletionSourceRank (bc_source c)) (mapGet p (bundleCompletionMap e' vid s))"
    using best [of e] best [of e'] unfolding best_completion_def set
    by (auto intro: antisym split: option.splits)
  moreover have "distinct (map fst (bundleCompletionMap e vid s))"
    unfolding bundleCompletionMap_def by (rule merge_fold_distinct) simp
  ultimately show ?thesis using best by simp
qed

theorem bundleCompletionMap_best_witness:
  "mapGet [] (bundleCompletionMap demo_env 1 (markBundleUploaded [] ''f'' demo_shaken)) = None"
proof -
  have "fair_env demo_env" by (simp add: fair_env_def demo_env_def)
  from bundleCompletionMap_best [OF this this, of 1 "markBundleUploaded [] ''f'' demo_shaken" "[]"] show ?thesis
    by (auto simp: best_completion_def split: option.splits)
qed

text \<open>What a cross-region reuse row does to everyone else: the row COMMIT inserts for it has no hash
  and size zero and counts as shared, so it becomes the shared baseline of the path; every
  server without an override for the path then reads an empty hash and size 0.\<close>

theorem shared_reuse_blanks_baseline:
  assumes "InsertAsset f now (sharedReuseRow s r) d = Inr d'"
    and "\<forall>c. tbl_lookup curKey (server, sr_path r) (db_current d) = Some c \<longrightarrow> \<not> c_is_override c"
  shows "\<exists>p. LookupPlacement no_fault d' server (sr_path r) = Inr p \<and> p_from_shared p
     \<and> p_storage_key p = sr_storage_key r \<and> p_sha256 p = [] \<and> p_size p = 0"
proof -
  let ?a = "sharedReuseRow s r"
  have shr: "tbl_lookup s_path (sr_path r) (db_shared d') = Some (sharedOfAsset (stamped now ?a))"
    using InsertAsset_lookups(2) [OF assms(1), of "sr_path r"] by (simp add: sharedReuseRow_def)
  have "filter_option c_is_override (tbl_lookup curKey (server, sr_path r) (db_current d')) = None"
    using InsertAsset_lookups(1) [OF assms(1), of server "sr_path r"] assms(2)
    by (cases "tbl_lookup curKey (server, sr_path r) (db_current d)")
      (auto simp: sharedReuseRow_def curOfAsset_def stamped_def)
  with LookupPlacement_indexed [OF shr, of server] show ?thesis
    by (simp add: placementFromAsset_def scanCurrentAssetRow_def selectShared_def sharedOfAsset_def sharedReuseRow_def stamped_def)
qed

theorem shared_reuse_blanks_baseline_witness:
  "\<exists>d1 d2 p. InsertAsset no_fault 7 (mkAsset ''jp'' ''a'' ''a/b'' ''v1'' ''f1'' False ''k'') empty_db = Inr d1
     \<and> InsertAsset no_fault 8 (sharedReuseRow demo_shaken \<lparr>sr_server = ''tw'', sr_bundle_path = ''a'', sr_path = ''a/b'',
          sr_fingerprint = ''f1'', sr_storage_key = ''k''\<rparr>) d1 = Inr d2
     \<and> LookupPlacement no_fault d2 ''jp'' ''a/b'' = Inr p \<and> p_sha256 p = [] \<and> p_size p = 0"
proof -
  let ?r = "\<lparr>sr_server = ''tw'', sr_bundle_path = ''a'', sr_path = ''a/b'', sr_fingerprint = ''f1'', sr_storage_key = ''k''\<rparr>"
  obtain d1 where d1: "InsertAsset no_fault 7 (mkAsset ''jp'' ''a'' ''a/b'' ''v1'' ''f1'' False ''k'') empty_db = Inr d1"
    using InsertAsset_total by blast
  obtain d2 where d2: "InsertAsset no_fault 8 (sharedReuseRow demo_shaken ?r) d1 = Inr d2" using InsertAsset_total by blast
  have "\<forall>c. tbl_lookup curKey (''jp'', sr_path ?r) (db_current d1) = Some c \<longrightarrow> \<not> c_is_override c"
    using InsertAsset_lookups(1) [OF d1, of "''jp''" "''a/b''"] by (simp add: mkAsset_def curOfAsset_def stamped_def)
  from shared_reuse_blanks_baseline [OF d2 this] d1 d2 show ?thesis by auto
qed

end
