(* ===== verification/LookupCache.thy ===== *)
theory LookupCache
  imports ReadPath
begin

text \<open>
  \<^verbatim>\<open>internal/httpapi/lookup_cache.go\<close>: the bounded positive cache of path lookups. The Go
  structure is a doubly linked list of entries, most recently used first, and a map from keys to
  list elements. An element's identity (its pointer) is a number here, drawn from a counter;
  the list is the sequence of identified entries, and the map goes from keys to identities. A
  nil cache is \<open>None\<close>; \<^verbatim>\<open>time.Now()\<close> is the argument \<open>now\<close>, in nanoseconds. The mutex makes every
  method one atomic step.

  The invariant \<open>lc_inv\<close> ties list and map together; \<open>lc_view\<close> forgets the identities, and the
  methods are shown to refine the obvious least-recently-used list. The locale
  \<open>placement_cache\<close> is what the proxy handler relies on.
\<close>

section \<open>Definitions\<close>

definition defaultLookupCacheItems :: int where
  "defaultLookupCacheItems = 100000"

definition defaultLookupCacheTTL :: int where
  "defaultLookupCacheTTL = 24 * 3600 * 1000000000"

record lookup_entry =
  e_key :: string
  e_value :: placement
  e_expires :: int

record lookup_cache =
  lc_maxItems :: int
  lc_ttl :: int
  lc_ll :: "(nat \<times> lookup_entry) list"
  lc_items :: "(string \<times> nat) list"
  lc_next :: nat

definition NewLookupCache :: "int \<Rightarrow> int \<Rightarrow> lookup_cache option" where
  "NewLookupCache maxItems0 ttl0 =
     (let maxItems = (if maxItems0 < 0 then 0 else maxItems0);
          ttl = (if ttl0 < 0 then 0 else ttl0)
      in if maxItems = 0 \<or> ttl = 0 then None
         else Some \<lparr>lc_maxItems = maxItems, lc_ttl = ttl, lc_ll = [], lc_items = [], lc_next = 0\<rparr>)"

text \<open>\<^verbatim>\<open>container/list\<close>: \<open>Remove\<close>, \<open>MoveToFront\<close> and \<open>PushFront\<close>.\<close>

definition llRemove :: "nat \<Rightarrow> (nat \<times> 'e) list \<Rightarrow> (nat \<times> 'e) list" where
  "llRemove i ll = filter (\<lambda>x. fst x \<noteq> i) ll"

definition llMoveToFront :: "nat \<Rightarrow> (nat \<times> 'e) list \<Rightarrow> (nat \<times> 'e) list" where
  "llMoveToFront i ll = filter (\<lambda>x. fst x = i) ll @ llRemove i ll"

definition llUpdate :: "nat \<Rightarrow> ('e \<Rightarrow> 'e) \<Rightarrow> (nat \<times> 'e) list \<Rightarrow> (nat \<times> 'e) list" where
  "llUpdate i f ll = map (\<lambda>x. if fst x = i then (i, f (snd x)) else x) ll"

text \<open>\<open>Get\<close>: the value found, if any, and the cache after it. An element the map names is in
  the list (\<open>lc_inv\<close>), so the last branch of the inner case is never taken.\<close>

definition Get :: "int \<Rightarrow> string \<Rightarrow> lookup_cache option \<Rightarrow> placement option \<times> lookup_cache option" where
  "Get now key c0 =
     (case c0 of
        None \<Rightarrow> (None, None)
      | Some c \<Rightarrow>
          (case mapGet key (lc_items c) of
             None \<Rightarrow> (None, Some c)
           | Some elem \<Rightarrow>
               (case mapGet elem (lc_ll c) of
                  Some entry \<Rightarrow>
                    if e_expires entry < now
                    then (None, Some (c\<lparr>lc_ll := llRemove elem (lc_ll c), lc_items := mapDel key (lc_items c)\<rparr>))
                    else (Some (e_value entry), Some (c\<lparr>lc_ll := llMoveToFront elem (lc_ll c)\<rparr>))
                | None \<Rightarrow> (None, Some c))))"

text \<open>The eviction loop of \<open>Set\<close>: while the map is too large, drop the element at the back.\<close>

function evict :: "lookup_cache \<Rightarrow> lookup_cache" where
  "evict c =
     (if lc_maxItems c < int (length (lc_items c))
      then (if lc_ll c = [] then c
            else evict (c\<lparr>lc_items := mapDel (e_key (snd (last (lc_ll c)))) (lc_items c),
                          lc_ll := butlast (lc_ll c)\<rparr>))
      else c)"
  by pat_completeness auto
termination
  by (relation "measure (\<lambda>c. length (lc_ll c))") auto

declare evict.simps [simp del]

definition Set :: "int \<Rightarrow> string \<Rightarrow> placement \<Rightarrow> lookup_cache option \<Rightarrow> lookup_cache option" where
  "Set now key value c0 =
     (case c0 of
        None \<Rightarrow> None
      | Some c \<Rightarrow>
          if \<not> p_found value then Some c
          else
            (case mapGet key (lc_items c) of
               Some elem \<Rightarrow>
                 Some (c\<lparr>lc_ll := llMoveToFront elem
                    (llUpdate elem (\<lambda>entry. entry\<lparr>e_value := value, e_expires := now + lc_ttl c\<rparr>) (lc_ll c))\<rparr>)
             | None \<Rightarrow>
                 (let entry = \<lparr>e_key = key, e_value = value, e_expires = now + lc_ttl c\<rparr>
                  in Some (evict (c\<lparr>lc_ll := (lc_next c, entry) # lc_ll c,
                       lc_items := mapSet key (lc_next c) (lc_items c), lc_next := Suc (lc_next c)\<rparr>)))))"

definition Clear :: "lookup_cache option \<Rightarrow> lookup_cache option" where
  "Clear c0 = map_option (\<lambda>c. c\<lparr>lc_ll := [], lc_items := []\<rparr>) c0"

text \<open>The path of a cache key: what follows its first zero byte.\<close>

definition keyPath :: "string \<Rightarrow> string option" where
  "keyPath key = map_option (\<lambda>sep. drop (sep + 1) key) (strIndex key [CHR 0x00])"

definition invalidateBody :: "(string \<times> unit) list \<Rightarrow> string \<times> nat \<Rightarrow> lookup_cache \<Rightarrow> lookup_cache" where
  "invalidateBody pathSet kv c =
     (case keyPath (fst kv) of
        None \<Rightarrow> c
      | Some path \<Rightarrow>
          if mapGet path pathSet = None then c
          else c\<lparr>lc_ll := llRemove (snd kv) (lc_ll c), lc_items := mapDel (fst kv) (lc_items c)\<rparr>)"

definition InvalidatePaths :: "string list \<Rightarrow> lookup_cache option \<Rightarrow> lookup_cache option" where
  "InvalidatePaths paths c0 =
     (case c0 of
        None \<Rightarrow> None
      | Some c \<Rightarrow>
          (let pathSet = foldl (\<lambda>m p. if p \<noteq> [] then mapSet p () m else m) [] paths
           in if paths = [] \<or> pathSet = [] then Some c
              else Some (fold (invalidateBody pathSet) (lc_items c) c)))"

section \<open>Invariant and abstract view\<close>

definition lc_rep :: "lookup_cache \<Rightarrow> bool" where
  "lc_rep c \<longleftrightarrow> 0 < lc_maxItems c \<and> 0 < lc_ttl c
     \<and> distinct (map fst (lc_ll c)) \<and> distinct (map (e_key \<circ> snd) (lc_ll c))
     \<and> distinct (map fst (lc_items c))
     \<and> set (lc_items c) = (\<lambda>x. (e_key (snd x), fst x)) ` set (lc_ll c)
     \<and> (\<forall>x \<in> set (lc_ll c). fst x < lc_next c \<and> p_found (e_value (snd x)))"

definition lc_inv :: "lookup_cache \<Rightarrow> bool" where
  "lc_inv c \<longleftrightarrow> lc_rep c \<and> int (length (lc_items c)) \<le> lc_maxItems c"

text \<open>The entries, most recently used first.\<close>

definition lc_view :: "lookup_cache \<Rightarrow> lookup_entry list" where
  "lc_view c = map snd (lc_ll c)"

text \<open>The reference behaviour: a list of entries with distinct keys.\<close>

definition lru_touch :: "lookup_entry \<Rightarrow> lookup_entry list \<Rightarrow> lookup_entry list" where
  "lru_touch e es = e # filter (\<lambda>x. e_key x \<noteq> e_key e) es"

definition lru_find :: "string \<Rightarrow> lookup_entry list \<Rightarrow> lookup_entry option" where
  "lru_find key es = find (\<lambda>e. e_key e = key) es"

definition lru_get :: "int \<Rightarrow> string \<Rightarrow> lookup_entry list \<Rightarrow> placement option \<times> lookup_entry list" where
  "lru_get now key es =
     (case lru_find key es of
        None \<Rightarrow> (None, es)
      | Some e \<Rightarrow> if e_expires e < now then (None, filter (\<lambda>x. e_key x \<noteq> key) es)
                  else (Some (e_value e), lru_touch e es))"

definition lru_set :: "nat \<Rightarrow> int \<Rightarrow> int \<Rightarrow> string \<Rightarrow> placement \<Rightarrow> lookup_entry list \<Rightarrow> lookup_entry list" where
  "lru_set cap ttl now key value es =
     (if p_found value
      then take cap (lru_touch \<lparr>e_key = key, e_value = value, e_expires = now + ttl\<rparr> es)
      else es)"

definition lru_invalidate :: "string list \<Rightarrow> lookup_entry list \<Rightarrow> lookup_entry list" where
  "lru_invalidate paths es =
     filter (\<lambda>e. case keyPath (e_key e) of None \<Rightarrow> True | Some p \<Rightarrow> p = [] \<or> p \<notin> set paths) es"

section \<open>The methods refine the reference list\<close>

lemma lc_rep_simps:
  assumes "lc_rep c"
  shows "distinct (map fst (lc_ll c))" "distinct (map (e_key \<circ> snd) (lc_ll c))"
    "distinct (map fst (lc_items c))"
    "\<And>k i. (k, i) \<in> set (lc_items c) \<longleftrightarrow> (\<exists>e. (i, e) \<in> set (lc_ll c) \<and> e_key e = k)"
  using assms by (auto simp: lc_rep_def image_iff Bex_def)

lemma distinct_fst_unique: "distinct (map f xs) \<Longrightarrow> x \<in> set xs \<Longrightarrow> y \<in> set xs \<Longrightarrow> f x = f y \<Longrightarrow> x = y"
  by (metis distinct_map inj_onD)

lemma lc_id_key:
  assumes "lc_rep c" and "(i, e) \<in> set (lc_ll c)" and "x \<in> set (lc_ll c)"
  shows "fst x = i \<longleftrightarrow> e_key (snd x) = e_key e"
  using assms lc_rep_simps(1,2) [OF assms(1)]
    distinct_fst_unique [of fst "lc_ll c" x "(i, e)"]
    distinct_fst_unique [of "e_key \<circ> snd" "lc_ll c" x "(i, e)"]
  by (metis comp_apply fst_conv snd_conv)

lemma lc_find_Some:
  assumes "lc_rep c" and "mapGet key (lc_items c) = Some i"
  obtains e where "(i, e) \<in> set (lc_ll c)" "e_key e = key" "mapGet i (lc_ll c) = Some e"
    "lru_find key (lc_view c) = Some e"
proof -
  from assms have "(key, i) \<in> set (lc_items c)" by (auto dest: mapGet_SomeD)
  then obtain e where e: "(i, e) \<in> set (lc_ll c)" "e_key e = key"
    using lc_rep_simps(4) [OF assms(1)] by blast
  moreover have "mapGet i (lc_ll c) = Some e"
    using e(1) lc_rep_simps(1) [OF assms(1)] by (intro mapGet_member)
  moreover have "tbl_unique e_key (lc_view c)"
    using lc_rep_simps(2) [OF assms(1)] by (simp add: tbl_unique_def lc_view_def)
  then have "lru_find key (lc_view c) = Some e"
    using e tbl_lookup_unique [of e_key "lc_view c" e]
    by (force simp: lru_find_def tbl_lookup_def lc_view_def)
  ultimately show thesis using that by blast
qed

lemma lc_find_None:
  assumes "lc_rep c"
  shows "mapGet key (lc_items c) = None \<longleftrightarrow> lru_find key (lc_view c) = None"
    and "mapGet key (lc_items c) = None \<longleftrightarrow> (\<forall>x \<in> set (lc_ll c). e_key (snd x) \<noteq> key)"
proof -
  show *: "mapGet key (lc_items c) = None \<longleftrightarrow> (\<forall>x \<in> set (lc_ll c). e_key (snd x) \<noteq> key)"
    using lc_rep_simps(4) [OF assms] by (force simp: mapGet_None_iff image_iff)
  show "mapGet key (lc_items c) = None \<longleftrightarrow> lru_find key (lc_view c) = None"
    unfolding * by (auto simp: lru_find_def find_None_iff lc_view_def)
qed

lemma lc_view_remove:
  assumes "lc_rep c" and "(i, e) \<in> set (lc_ll c)"
  shows "map snd (llRemove i (lc_ll c)) = filter (\<lambda>x. e_key x \<noteq> e_key e) (lc_view c)"
proof -
  have "llRemove i (lc_ll c) = filter (\<lambda>x. e_key (snd x) \<noteq> e_key e) (lc_ll c)"
    unfolding llRemove_def by (intro filter_cong) (simp_all add: lc_id_key [OF assms])
  then show ?thesis by (simp add: lc_view_def filter_map o_def)
qed

lemma ll_pick:
  assumes "distinct (map fst ll)" and "(i, e) \<in> set ll"
  shows "filter (\<lambda>x. fst x = i) ll = [(i, e)]"
  using assms
proof (induction ll)
  case (Cons x ll)
  then have "fst x \<notin> fst ` set ll" by simp
  then have "fst x = i \<Longrightarrow> filter (\<lambda>y. fst y = i) ll = []"
    by (auto simp: filter_empty_conv image_iff)
  with Cons show ?case by (auto simp: rev_image_eqI)
qed simp

lemma lc_rep_remove:
  assumes "lc_rep c" and "(i, e) \<in> set (lc_ll c)"
  shows "lc_rep (c\<lparr>lc_ll := llRemove i (lc_ll c), lc_items := mapDel (e_key e) (lc_items c)\<rparr>)"
proof -
  have "set (mapDel (e_key e) (lc_items c)) = (\<lambda>x. (e_key (snd x), fst x)) ` set (llRemove i (lc_ll c))"
  proof -
    have items: "set (lc_items c) = (\<lambda>x. (e_key (snd x), fst x)) ` set (lc_ll c)"
      using assms(1) by (simp add: lc_rep_def)
    have "{x \<in> set (lc_ll c). e_key (snd x) \<noteq> e_key e} = {x \<in> set (lc_ll c). fst x \<noteq> i}"
      using lc_id_key [OF assms] by blast
    moreover have "{y \<in> f ` A. fst y \<noteq> k} = f ` {x \<in> A. fst (f x) \<noteq> k}" for f :: "nat \<times> lookup_entry \<Rightarrow> string \<times> nat" and A k
      by blast
    ultimately show ?thesis by (simp add: set_mapDel llRemove_def items)
  qed
  then show ?thesis
    using assms(1) by (auto simp: lc_rep_def llRemove_def distinct_mapDel distinct_map_filter)
qed

lemma lc_length:
  assumes "lc_rep c"
  shows "length (lc_items c) = length (lc_ll c)"
proof -
  let ?f = "\<lambda>x. (e_key (snd x), fst x)"
  have "distinct (map ?f (lc_ll c))"
    using lc_rep_simps(1) [OF assms] by (auto simp: distinct_map intro: inj_onI dest: inj_onD)
  moreover have "distinct (lc_items c)"
    using lc_rep_simps(3) [OF assms] by (simp add: distinct_map)
  moreover have "set (map ?f (lc_ll c)) = set (lc_items c)"
    using assms by (simp add: lc_rep_def)
  ultimately show ?thesis
    by (metis distinct_card length_map)
qed

lemma lc_view_front:
  assumes "lc_rep c" and "(i, e) \<in> set (lc_ll c)"
  shows "map snd (llMoveToFront i (lc_ll c)) = lru_touch e (lc_view c)"
  using lc_view_remove [OF assms] ll_pick [OF lc_rep_simps(1) [OF assms(1)] assms(2)]
  by (simp add: llMoveToFront_def lru_touch_def)

lemma lc_rep_front:
  assumes "lc_rep c" and "(i, e) \<in> set (lc_ll c)"
  shows "lc_rep (c\<lparr>lc_ll := llMoveToFront i (lc_ll c)\<rparr>)"
proof -
  let ?l = "lc_ll c"
  have p: "llMoveToFront i ?l = (i, e) # llRemove i ?l"
    using ll_pick [OF lc_rep_simps(1) [OF assms(1)] assms(2)] by (simp add: llMoveToFront_def)
  have set: "set (llMoveToFront i ?l) = set ?l"
    by (auto simp: llMoveToFront_def llRemove_def)
  have "e_key e \<notin> e_key ` snd ` set (llRemove i ?l)"
    using lc_id_key [OF assms] by (auto simp: llRemove_def)
  moreover have "distinct (map (e_key \<circ> snd) (llRemove i ?l))"
    using lc_rep_simps(2) [OF assms(1)] by (simp add: llRemove_def distinct_map_filter)
  ultimately have "distinct (map (e_key \<circ> snd) (llMoveToFront i ?l))"
    by (auto simp: p image_iff)
  moreover have "distinct (map fst (llMoveToFront i ?l))"
    using lc_rep_simps(1) [OF assms(1)] unfolding p by (auto simp: llRemove_def distinct_map_filter)
  ultimately show ?thesis
    using assms(1) by (simp add: lc_rep_def set)
qed

lemma lc_rep_update:
  assumes "lc_rep c" and "\<And>e. e_key (f e) = e_key e" and "\<And>e. p_found (e_value (f e))"
  shows "lc_rep (c\<lparr>lc_ll := llUpdate i f (lc_ll c)\<rparr>)"
proof -
  have "map fst (llUpdate i f (lc_ll c)) = map fst (lc_ll c)"
    and "map (e_key \<circ> snd) (llUpdate i f (lc_ll c)) = map (e_key \<circ> snd) (lc_ll c)"
    and pairs: "map (\<lambda>x. (e_key (snd x), fst x)) (llUpdate i f (lc_ll c)) = map (\<lambda>x. (e_key (snd x), fst x)) (lc_ll c)"
    using assms(2) by (auto simp: llUpdate_def)
  moreover have "(\<lambda>x. (e_key (snd x), fst x)) ` set (llUpdate i f (lc_ll c)) = (\<lambda>x. (e_key (snd x), fst x)) ` set (lc_ll c)"
    using arg_cong [OF pairs, of set] by simp
  moreover have "\<forall>x \<in> set (llUpdate i f (lc_ll c)). fst x < lc_next c \<and> p_found (e_value (snd x))"
    using assms by (auto simp: llUpdate_def lc_rep_def)
  ultimately show ?thesis
    using assms(1) by (simp add: lc_rep_def)
qed

lemma lc_rep_push:
  assumes "lc_rep c" and "mapGet (e_key e) (lc_items c) = None" and "p_found (e_value e)"
  shows "lc_rep (c\<lparr>lc_ll := (lc_next c, e) # lc_ll c, lc_items := mapSet (e_key e) (lc_next c) (lc_items c),
    lc_next := Suc (lc_next c)\<rparr>)"
proof -
  have new: "\<forall>x \<in> set (lc_ll c). e_key (snd x) \<noteq> e_key e"
    using assms(2) lc_find_None(2) [OF assms(1)] by simp
  have "{x \<in> set (lc_items c). fst x \<noteq> e_key e} = set (lc_items c)"
    using assms(2) by (auto simp: mapGet_None_iff) (metis fst_conv image_eqI)
  then have "set (mapSet (e_key e) (lc_next c) (lc_items c)) = insert (e_key e, lc_next c) (set (lc_items c))"
    by (simp add: set_mapSet)
  then show ?thesis
    using assms new by (auto simp: lc_rep_def distinct_mapSet image_iff)
qed

lemma lc_last_remove:
  assumes "distinct (map fst ll)" and "ll \<noteq> []"
  shows "butlast ll = llRemove (fst (last ll)) ll"
proof -
  from assms(2) obtain xs x where ll: "ll = xs @ [x]" by (metis append_butlast_last_id)
  with assms(1) have "\<forall>y \<in> set xs. fst y \<noteq> fst x" by (auto simp: image_iff)
  then show ?thesis by (simp add: ll llRemove_def filter_id_conv)
qed

lemma evict_correct:
  assumes "lc_rep c"
  shows "lc_inv (evict c) \<and> lc_view (evict c) = take (nat (lc_maxItems c)) (lc_view c)
    \<and> lc_maxItems (evict c) = lc_maxItems c \<and> lc_ttl (evict c) = lc_ttl c"
  using assms
proof (induction c rule: evict.induct)
  case (1 c)
  show ?case
  proof (cases "lc_maxItems c < int (length (lc_items c))")
    case False
    then show ?thesis
      using "1.prems" lc_length [OF "1.prems"]
      by (subst (1 2 3 4) evict.simps) (simp add: lc_inv_def lc_view_def)
  next
    case big: True
    have ne: "lc_ll c \<noteq> []"
      using big lc_length [OF "1.prems"] "1.prems" by (auto simp: lc_rep_def)
    obtain i e where ie: "last (lc_ll c) = (i, e)" by (cases "last (lc_ll c)")
    let ?c = "c\<lparr>lc_items := mapDel (e_key (snd (last (lc_ll c)))) (lc_items c), lc_ll := butlast (lc_ll c)\<rparr>"
    have mem: "(i, e) \<in> set (lc_ll c)" using ie ne last_in_set by metis
    have "lc_rep ?c"
      using lc_rep_remove [OF "1.prems" mem] lc_last_remove [OF lc_rep_simps(1) [OF "1.prems"] ne] ie
      by (simp add: lc_rep_def)
    moreover have "evict c = evict ?c"
      using big ne by (subst evict.simps) simp
    moreover have "take (nat (lc_maxItems c)) (butlast (map snd (lc_ll c))) = take (nat (lc_maxItems c)) (map snd (lc_ll c))"
      using big lc_length [OF "1.prems"] "1.prems"
      by (intro take_butlast) (simp add: lc_rep_def nat_less_iff)
    ultimately show ?thesis
      using "1.IH" [OF big ne] by (simp add: lc_view_def map_butlast)
  qed
qed

subsection \<open>Each method\<close>

lemma length_lru_touch:
  assumes "e_key e \<in> e_key ` set es" and "distinct (map e_key es)"
  shows "length (lru_touch e es) = length es"
proof -
  have "length (filter (\<lambda>x. e_key x \<noteq> e_key e) es) = length es - 1 \<and> es \<noteq> []"
    using assms
  proof (induction es)
    case (Cons x es)
    show ?case
    proof (cases "e_key x = e_key e")
      case True
      with Cons.prems(2) have "filter (\<lambda>y. e_key y \<noteq> e_key e) es = es"
        by (auto simp: filter_id_conv image_iff)
      with True show ?thesis by simp
    next
      case False
      with Cons show ?thesis by (cases es) auto
    qed
  qed simp
  then show ?thesis by (cases es) (simp_all add: lru_touch_def)
qed

lemma Get_refines:
  assumes "lc_inv c"
  shows "\<exists>c'. Get now key (Some c) = (fst (lru_get now key (lc_view c)), Some c') \<and> lc_inv c'
    \<and> lc_view c' = snd (lru_get now key (lc_view c)) \<and> lc_maxItems c' = lc_maxItems c \<and> lc_ttl c' = lc_ttl c"
proof -
  have rep: "lc_rep c" using assms by (simp add: lc_inv_def)
  show ?thesis
  proof (cases "mapGet key (lc_items c)")
    case None
    moreover from None have "lru_find key (lc_view c) = None"
      using lc_find_None(1) [OF rep] by blast
    ultimately show ?thesis
      using assms by (simp add: Get_def lru_get_def)
  next
    case (Some i)
    then obtain e where e: "(i, e) \<in> set (lc_ll c)" "e_key e = key" "mapGet i (lc_ll c) = Some e"
      "lru_find key (lc_view c) = Some e"
      using lc_find_Some [OF rep] by blast
    have "length (mapDel key (lc_items c)) \<le> length (lc_items c)"
      by (simp add: mapDel_def)
    then show ?thesis
      using Some e assms lc_rep_remove [OF rep e(1)] lc_rep_front [OF rep e(1)]
        lc_view_remove [OF rep e(1)] lc_view_front [OF rep e(1)]
      by (auto simp: Get_def lru_get_def lc_inv_def lc_view_def [of "lookup_cache.lc_ll_update _ _"]
          lc_view_def [of "lookup_cache.lc_items_update _ _"])
  qed
qed

lemma llUpdate_others:
  assumes "\<And>x. x \<in> set ll \<Longrightarrow> fst x = i \<Longrightarrow> e_key (snd x) = k" and "\<And>e. e_key (f e) = e_key e"
  shows "filter (\<lambda>x. e_key (snd x) \<noteq> k) (llUpdate i f ll) = filter (\<lambda>x. e_key (snd x) \<noteq> k) ll"
  using assms by (induction ll) (auto simp: llUpdate_def)

lemma Set_refines:
  assumes "lc_inv c"
  shows "\<exists>c'. Set now key v (Some c) = Some c' \<and> lc_inv c'
    \<and> lc_view c' = lru_set (nat (lc_maxItems c)) (lc_ttl c) now key v (lc_view c)
    \<and> lc_maxItems c' = lc_maxItems c \<and> lc_ttl c' = lc_ttl c"
proof (cases "p_found v")
  case False
  then show ?thesis using assms by (simp add: Set_def lru_set_def)
next
  case found: True
  have rep: "lc_rep c" using assms by (simp add: lc_inv_def)
  let ?e = "\<lparr>e_key = key, e_value = v, e_expires = now + lc_ttl c\<rparr>"
  show ?thesis
  proof (cases "mapGet key (lc_items c)")
    case None
    let ?c = "c\<lparr>lc_ll := (lc_next c, ?e) # lc_ll c, lc_items := mapSet key (lc_next c) (lc_items c),
      lc_next := Suc (lc_next c)\<rparr>"
    have "lc_rep ?c"
      using lc_rep_push [OF rep, of ?e] None found by simp
    from evict_correct [OF this] have "lc_inv (evict ?c)"
      "lc_view (evict ?c) = take (nat (lc_maxItems c)) (?e # lc_view c)"
      "lc_maxItems (evict ?c) = lc_maxItems c" "lc_ttl (evict ?c) = lc_ttl c"
      by (simp_all add: lc_view_def)
    moreover have "filter (\<lambda>x. e_key x \<noteq> key) (lc_view c) = lc_view c"
      using None lc_find_None(2) [OF rep] by (auto simp: lc_view_def filter_id_conv)
    ultimately show ?thesis
      using None found by (simp add: Set_def lru_set_def lru_touch_def Let_def)
  next
    case (Some i)
    then obtain e where e: "(i, e) \<in> set (lc_ll c)" "e_key e = key"
      using lc_find_Some [OF rep] by blast
    let ?f = "\<lambda>entry. entry\<lparr>e_value := v, e_expires := now + lc_ttl c\<rparr>"
    let ?c = "c\<lparr>lc_ll := llUpdate i ?f (lc_ll c)\<rparr>"
    have rep': "lc_rep ?c" using rep found by (intro lc_rep_update) simp_all
    have fe: "?f e = ?e" using e(2) by simp
    have mem: "(i, ?e) \<in> set (lc_ll ?c)"
      using e(1) unfolding fe [symmetric] by (force simp: llUpdate_def)
    have "filter (\<lambda>x. e_key x \<noteq> key) (lc_view ?c) = filter (\<lambda>x. e_key x \<noteq> key) (lc_view c)"
      using llUpdate_others [of "lc_ll c" i key ?f] lc_id_key [OF rep e(1)] e(2)
      by (simp add: lc_view_def filter_map o_def)
    then have touch: "lru_touch ?e (lc_view ?c) = lru_touch ?e (lc_view c)"
      by (simp add: lru_touch_def)
    have "length (lru_touch ?e (lc_view c)) = length (lc_view c)"
      using e lc_rep_simps(2) [OF rep]
      by (intro length_lru_touch) (force simp: lc_view_def)+
    then have "take (nat (lc_maxItems c)) (lru_touch ?e (lc_view c)) = lru_touch ?e (lc_view c)"
      using assms lc_length [OF rep] by (simp add: lc_inv_def lc_view_def le_nat_iff)
    then show ?thesis
      using Some found assms lc_rep_front [OF rep' mem] lc_view_front [OF rep' mem] touch
      by (simp add: Set_def lru_set_def lc_inv_def lc_view_def [of "lookup_cache.lc_ll_update _ _"])
  qed
qed

lemma pathSet_mem:
  "mapGet p (foldl (\<lambda>m q. if q \<noteq> [] then mapSet q () m else m) m paths) = None
    \<longleftrightarrow> mapGet p m = None \<and> (p = [] \<or> p \<notin> set paths)"
  by (induction paths arbitrary: m) auto

definition keyHit :: "(string \<times> unit) list \<Rightarrow> string \<Rightarrow> bool" where
  "keyHit pathSet key \<longleftrightarrow> (case keyPath key of None \<Rightarrow> False | Some p \<Rightarrow> mapGet p pathSet \<noteq> None)"

lemma invalidateBody_alt:
  "invalidateBody ps kv c = (if keyHit ps (fst kv)
     then c\<lparr>lc_ll := llRemove (snd kv) (lc_ll c), lc_items := mapDel (fst kv) (lc_items c)\<rparr> else c)"
  by (auto simp: invalidateBody_def keyHit_def split: option.splits)

lemma invalidate_loop:
  assumes "lc_rep c" and "set kvs \<subseteq> set (lc_items c)" and "distinct (map fst kvs)"
  shows "lc_rep (fold (invalidateBody ps) kvs c)
    \<and> lc_view (fold (invalidateBody ps) kvs c)
        = filter (\<lambda>e. \<not> (e_key e \<in> fst ` set kvs \<and> keyHit ps (e_key e))) (lc_view c)
    \<and> lc_maxItems (fold (invalidateBody ps) kvs c) = lc_maxItems c
    \<and> lc_ttl (fold (invalidateBody ps) kvs c) = lc_ttl c"
  using assms
proof (induction kvs arbitrary: c)
  case (Cons kv kvs)
  obtain k i where kv: "kv = (k, i)" by (cases kv)
  show ?case
  proof (cases "keyHit ps k")
    case False
    then have "fold (invalidateBody ps) (kv # kvs) c = fold (invalidateBody ps) kvs c"
      by (simp add: invalidateBody_alt kv)
    moreover have "e_key e = k \<and> keyHit ps (e_key e) \<longleftrightarrow> False" for e
      using False by auto
    ultimately show ?thesis
      using Cons.IH [OF Cons.prems(1)] Cons.prems(2,3) by (auto simp: kv intro!: filter_cong)
  next
    case True
    let ?c = "c\<lparr>lc_ll := llRemove i (lc_ll c), lc_items := mapDel k (lc_items c)\<rparr>"
    from Cons.prems(1,2) obtain e where e: "(i, e) \<in> set (lc_ll c)" "e_key e = k"
      using lc_rep_simps(4) [OF Cons.prems(1)] by (auto simp: kv)
    have rep: "lc_rep ?c" using lc_rep_remove [OF Cons.prems(1) e(1)] e(2) by simp
    have sub: "set kvs \<subseteq> set (lc_items ?c)"
      using Cons.prems(2,3) by (auto simp: kv set_mapDel image_iff)
    have view: "lc_view ?c = filter (\<lambda>x. e_key x \<noteq> k) (lc_view c)"
      using lc_view_remove [OF Cons.prems(1) e(1)] e(2) by (simp add: lc_view_def [of ?c])
    have "fold (invalidateBody ps) (kv # kvs) c = fold (invalidateBody ps) kvs ?c"
      using True by (simp add: invalidateBody_alt kv)
    then show ?thesis
      using Cons.IH [OF rep sub] Cons.prems(3) True
      by (auto simp: kv view intro!: filter_cong)
  qed
qed simp

lemma InvalidatePaths_refines:
  assumes "lc_inv c"
  shows "\<exists>c'. InvalidatePaths paths (Some c) = Some c' \<and> lc_inv c'
    \<and> lc_view c' = lru_invalidate paths (lc_view c)
    \<and> lc_maxItems c' = lc_maxItems c \<and> lc_ttl c' = lc_ttl c"
proof -
  let ?ps = "foldl (\<lambda>m q. if q \<noteq> [] then mapSet q () m else m) [] paths"
  have rep: "lc_rep c" using assms by (simp add: lc_inv_def)
  have hit: "keyHit ?ps k \<longleftrightarrow> \<not> (case keyPath k of None \<Rightarrow> True | Some p \<Rightarrow> p = [] \<or> p \<notin> set paths)" for k
    by (simp add: keyHit_def pathSet_mem split: option.splits)
  show ?thesis
  proof (cases "paths = [] \<or> ?ps = []")
    case True
    then have "\<not> keyHit ?ps k" for k
      by (auto simp: keyHit_def split: option.splits)
    then have "lru_invalidate paths (lc_view c) = lc_view c"
      by (auto simp: lru_invalidate_def hit filter_id_conv)
    with True assms show ?thesis by (auto simp: InvalidatePaths_def)
  next
    case False
    have keys: "e_key e \<in> fst ` set (lc_items c)" if "e \<in> set (lc_view c)" for e
      using that rep by (force simp: lc_view_def lc_rep_def image_iff)
    let ?c = "fold (invalidateBody ?ps) (lc_items c) c"
    from invalidate_loop [OF rep _ lc_rep_simps(3) [OF rep], of ?ps]
    have l: "lc_rep ?c" "lc_maxItems ?c = lc_maxItems c" "lc_ttl ?c = lc_ttl c"
      and v: "lc_view ?c = filter (\<lambda>e. \<not> (e_key e \<in> fst ` set (lc_items c) \<and> keyHit ?ps (e_key e))) (lc_view c)"
      by auto
    have "lc_view ?c = lru_invalidate paths (lc_view c)"
      unfolding v lru_invalidate_def using keys by (intro filter_cong) (auto simp: hit)
    moreover have "length (lc_view ?c) \<le> length (lc_view c)"
      unfolding v by (rule length_filter_le)
    then have "length (lc_items ?c) \<le> length (lc_items c)"
      using lc_length [OF rep] lc_length [OF l(1)] by (simp add: lc_view_def)
    ultimately show ?thesis
      using False l assms by (auto simp: InvalidatePaths_def lc_inv_def)
  qed
qed

section \<open>The interface the proxy relies on\<close>

text \<open>
  What a client may conclude from the cache: a hit is an unexpired entry, reading and
  invalidating never add an entry, storing adds only the pair stored, and invalidating a path
  leaves no entry for it. If every entry agrees with a source of truth, it still does after
  each operation; and when the truth changes, invalidating the paths it changed at
  restores agreement.
\<close>

definition agrees :: "(string \<Rightarrow> placement) \<Rightarrow> lookup_entry set \<Rightarrow> bool" where
  "agrees truth es \<longleftrightarrow> (\<forall>e \<in> es. e_value e = truth (e_key e))"

locale placement_cache =
  fixes inv :: "'c \<Rightarrow> bool" and entries :: "'c \<Rightarrow> lookup_entry set"
    and get :: "int \<Rightarrow> string \<Rightarrow> 'c \<Rightarrow> placement option \<times> 'c"
    and put :: "int \<Rightarrow> string \<Rightarrow> placement \<Rightarrow> 'c \<Rightarrow> 'c"
    and drop_paths :: "string list \<Rightarrow> 'c \<Rightarrow> 'c"
  assumes get_inv: "inv c \<Longrightarrow> inv (snd (get now k c))"
    and get_entries: "inv c \<Longrightarrow> entries (snd (get now k c)) \<subseteq> entries c"
    and get_hit: "inv c \<Longrightarrow> fst (get now k c) = Some v
      \<Longrightarrow> \<exists>e \<in> entries c. e_key e = k \<and> e_value e = v \<and> now \<le> e_expires e"
    and put_inv: "inv c \<Longrightarrow> inv (put now k v c)"
    and put_entries: "inv c \<Longrightarrow> e \<in> entries (put now k v c) \<Longrightarrow> e \<in> entries c \<or> (e_key e = k \<and> e_value e = v)"
    and drop_inv: "inv c \<Longrightarrow> inv (drop_paths ps c)"
    and drop_entries: "inv c \<Longrightarrow> entries (drop_paths ps c) \<subseteq> entries c"
    and drop_gone: "inv c \<Longrightarrow> e \<in> entries (drop_paths ps c) \<Longrightarrow> keyPath (e_key e) = Some p
      \<Longrightarrow> p \<noteq> [] \<Longrightarrow> p \<notin> set ps"
begin

lemma hit_agrees:
  assumes "inv c" and "agrees truth (entries c)" and "fst (get now k c) = Some v"
  shows "v = truth k"
  using get_hit [OF assms(1,3)] assms(2) by (auto simp: agrees_def)

lemma get_agrees: "inv c \<Longrightarrow> agrees truth (entries c) \<Longrightarrow> agrees truth (entries (snd (get now k c)))"
  using get_entries by (fastforce simp: agrees_def)

lemma put_agrees: "inv c \<Longrightarrow> agrees truth (entries c) \<Longrightarrow> agrees truth (entries (put now k (truth k) c))"
  using put_entries by (fastforce simp: agrees_def)

lemma drop_agrees:
  assumes "inv c" and "agrees truth (entries c)"
    and "\<And>e. e \<in> entries c \<Longrightarrow> truth' (e_key e) \<noteq> truth (e_key e)
      \<Longrightarrow> \<exists>p. keyPath (e_key e) = Some p \<and> p \<noteq> [] \<and> p \<in> set ps"
  shows "agrees truth' (entries (drop_paths ps c))"
proof -
  have "e_value e = truth' (e_key e)" if "e \<in> entries (drop_paths ps c)" for e
  proof -
    have e: "e \<in> entries c" using that drop_entries [OF assms(1)] by blast
    then have "truth' (e_key e) = truth (e_key e)"
      using assms(3) [OF e] drop_gone [OF assms(1) that] by blast
    with e assms(2) show ?thesis by (simp add: agrees_def)
  qed
  then show ?thesis by (simp add: agrees_def)
qed

end

definition cache_ok :: "lookup_cache option \<Rightarrow> bool" where
  "cache_ok c \<longleftrightarrow> (case c of None \<Rightarrow> True | Some c \<Rightarrow> lc_inv c)"

definition cache_entries :: "lookup_cache option \<Rightarrow> lookup_entry set" where
  "cache_entries c = (case c of None \<Rightarrow> {} | Some c \<Rightarrow> set (lc_view c))"

lemma lru_find_SomeD: "lru_find k es = Some e \<Longrightarrow> e \<in> set es \<and> e_key e = k"
  unfolding lru_find_def by (induction es) (auto split: if_splits)

lemma lru_get_sub: "set (snd (lru_get now k es)) \<subseteq> set es"
  by (auto simp: lru_get_def lru_touch_def dest: lru_find_SomeD split: option.splits)

lemma lru_get_hit:
  "fst (lru_get now k es) = Some v \<Longrightarrow> \<exists>e \<in> set es. e_key e = k \<and> e_value e = v \<and> now \<le> e_expires e"
  by (auto simp: lru_get_def dest!: lru_find_SomeD split: option.splits if_splits)

lemma lru_set_sub:
  "e \<in> set (lru_set cap ttl now k v es) \<Longrightarrow> e \<in> set es \<or> (e_key e = k \<and> e_value e = v)"
  by (auto simp: lru_set_def lru_touch_def dest: in_set_takeD split: if_splits)

interpretation gateway_cache: placement_cache cache_ok cache_entries Get Set InvalidatePaths
proof (unfold_locales, goal_cases)
  case (1 c now k)
  then show ?case using Get_refines [of "the c" now k] by (cases c) (auto simp: cache_ok_def Get_def)
next
  case (2 c now k)
  then show ?case using Get_refines [of "the c" now k] lru_get_sub [of now k "lc_view (the c)"]
    by (cases c) (auto simp: cache_ok_def cache_entries_def Get_def)
next
  case (3 c now k v)
  then obtain c1 where c: "c = Some c1" "lc_inv c1"
    by (cases c) (auto simp: cache_ok_def Get_def)
  with 3(2) Get_refines [OF c(2), of now k] show ?case
    by (auto simp: cache_entries_def dest: lru_get_hit)
next
  case (4 c now k v)
  then show ?case using Set_refines [of "the c" now k v] by (cases c) (auto simp: cache_ok_def Set_def)
next
  case (5 c e now k v)
  then obtain c1 where c: "c = Some c1" "lc_inv c1"
    by (cases c) (auto simp: cache_ok_def cache_entries_def Set_def)
  with 5(2) Set_refines [OF c(2), of now k v] show ?case
    by (auto simp: cache_entries_def dest: lru_set_sub)
next
  case (6 c ps)
  then show ?case using InvalidatePaths_refines [of "the c" ps]
    by (cases c) (auto simp: cache_ok_def InvalidatePaths_def)
next
  case (7 c ps)
  then show ?case using InvalidatePaths_refines [of "the c" ps]
    by (cases c) (auto simp: cache_ok_def cache_entries_def InvalidatePaths_def lru_invalidate_def)
next
  case (8 c e ps p)
  then obtain c1 where c: "c = Some c1" "lc_inv c1"
    by (cases c) (auto simp: cache_ok_def cache_entries_def InvalidatePaths_def)
  with 8 InvalidatePaths_refines [OF c(2), of ps] show ?case
    by (auto simp: cache_entries_def lru_invalidate_def)
qed

section \<open>Properties\<close>

datatype cache_op =
  OpGet int string
| OpSet int string placement
| OpClear
| OpInvalidate "string list"

fun runCache :: "cache_op list \<Rightarrow> lookup_cache option \<Rightarrow> placement option list \<times> lookup_cache option" where
  "runCache [] c = ([], c)"
| "runCache (OpGet now k # ops) c =
     (let (v, c1) = Get now k c; (vs, c2) = runCache ops c1 in (v # vs, c2))"
| "runCache (OpSet now k v # ops) c = runCache ops (Set now k v c)"
| "runCache (OpClear # ops) c = runCache ops (Clear c)"
| "runCache (OpInvalidate ps # ops) c = runCache ops (InvalidatePaths ps c)"

fun runLru :: "nat \<Rightarrow> int \<Rightarrow> cache_op list \<Rightarrow> lookup_entry list \<Rightarrow> placement option list \<times> lookup_entry list" where
  "runLru cap ttl [] es = ([], es)"
| "runLru cap ttl (OpGet now k # ops) es =
     (let (v, es1) = lru_get now k es; (vs, es2) = runLru cap ttl ops es1 in (v # vs, es2))"
| "runLru cap ttl (OpSet now k v # ops) es = runLru cap ttl ops (lru_set cap ttl now k v es)"
| "runLru cap ttl (OpClear # ops) es = runLru cap ttl ops []"
| "runLru cap ttl (OpInvalidate ps # ops) es = runLru cap ttl ops (lru_invalidate ps es)"

lemma Clear_refines:
  "lc_inv c \<Longrightarrow> \<exists>c'. Clear (Some c) = Some c' \<and> lc_inv c' \<and> lc_view c' = []
    \<and> lc_maxItems c' = lc_maxItems c \<and> lc_ttl c' = lc_ttl c"
  by (simp add: Clear_def lc_inv_def lc_rep_def lc_view_def)

lemma runCache_refines:
  assumes "lc_inv c" and "lc_maxItems c = n" and "lc_ttl c = ttl"
  shows "\<exists>c'. runCache ops (Some c) = (fst (runLru (nat n) ttl ops (lc_view c)), Some c') \<and> lc_inv c'
    \<and> lc_view c' = snd (runLru (nat n) ttl ops (lc_view c)) \<and> lc_maxItems c' = n"
  using assms
proof (induction ops arbitrary: c)
  case (Cons op ops)
  show ?case
  proof (cases op)
    case (OpGet now k)
    with Cons.prems Get_refines [of c now k] obtain c1 where
      c1: "Get now k (Some c) = (fst (lru_get now k (lc_view c)), Some c1)" "lc_inv c1"
        "lc_view c1 = snd (lru_get now k (lc_view c))" "lc_maxItems c1 = n" "lc_ttl c1 = ttl"
      by auto
    from Cons.IH [OF c1(2,4,5)] c1 show ?thesis
      by (auto simp: OpGet Let_def split: prod.splits)
  next
    case (OpSet now k v)
    from Set_refines [OF Cons.prems(1), of now k v] Cons.prems(2,3) obtain c1 where
      c1: "Set now k v (Some c) = Some c1" "lc_inv c1"
        "lc_view c1 = lru_set (nat n) ttl now k v (lc_view c)" "lc_maxItems c1 = n" "lc_ttl c1 = ttl"
      by auto
    from Cons.IH [OF c1(2,4,5)] c1 show ?thesis by (simp add: OpSet)
  next
    case OpClear
    from Clear_refines [OF Cons.prems(1)] Cons.prems(2,3) obtain c1 where
      c1: "Clear (Some c) = Some c1" "lc_inv c1" "lc_view c1 = []" "lc_maxItems c1 = n" "lc_ttl c1 = ttl"
      by auto
    from Cons.IH [OF c1(2,4,5)] c1 show ?thesis by (simp add: OpClear)
  next
    case (OpInvalidate ps)
    from InvalidatePaths_refines [OF Cons.prems(1), of ps] Cons.prems(2,3) obtain c1 where
      c1: "InvalidatePaths ps (Some c) = Some c1" "lc_inv c1"
        "lc_view c1 = lru_invalidate ps (lc_view c)" "lc_maxItems c1 = n" "lc_ttl c1 = ttl"
      by auto
    from Cons.IH [OF c1(2,4,5)] c1 show ?thesis by (simp add: OpInvalidate)
  qed
qed simp

lemma NewLookupCache_inv:
  "NewLookupCache n ttl = Some c \<Longrightarrow> lc_inv c \<and> lc_view c = [] \<and> lc_maxItems c = n \<and> lc_ttl c = ttl"
  by (auto simp: NewLookupCache_def Let_def lc_inv_def lc_rep_def lc_view_def split: if_splits)

text \<open>C24: Every sequence of \<open>Get\<close>, \<open>Set\<close>, \<open>Clear\<close> and \<open>InvalidatePaths\<close> on a fresh cache answers
  exactly like the plain least-recently-used list with the configured capacity and
  time-to-live; the linked list and the map stay in step throughout, and neither ever holds more than
  the configured number of entries.\<close>

theorem LookupCache_refines_lru:
  assumes "0 < n" and "0 < ttl"
  shows "\<exists>c. runCache ops (NewLookupCache n ttl) = (fst (runLru (nat n) ttl ops []), Some c) \<and> lc_inv c
    \<and> lc_view c = snd (runLru (nat n) ttl ops []) \<and> int (length (lc_ll c)) \<le> n \<and> int (length (lc_items c)) \<le> n"
proof -
  obtain c0 where c0: "NewLookupCache n ttl = Some c0"
    using assms by (simp add: NewLookupCache_def Let_def)
  note init = NewLookupCache_inv [OF c0]
  then obtain c where "runCache ops (Some c0) = (fst (runLru (nat n) ttl ops []), Some c)" "lc_inv c"
    "lc_view c = snd (runLru (nat n) ttl ops [])" "lc_maxItems c = n"
    using runCache_refines [of c0 n ttl ops] by auto
  moreover from this(2) have "length (lc_items c) = length (lc_ll c)"
    by (simp add: lc_inv_def lc_length)
  ultimately show ?thesis
    by (simp add: c0 lc_inv_def)
qed

definition demo_placement :: "string \<Rightarrow> placement" where
  "demo_placement key = placement_zero\<lparr>p_found := True, p_storage_key := key\<rparr>"

definition demo_cache_ops :: "cache_op list" where
  "demo_cache_ops = [OpSet 0 ''a'' (demo_placement ''1''), OpSet 1 ''b'' (demo_placement ''2''), OpGet 2 ''a'',
     OpSet 3 ''c'' (demo_placement ''3''), OpGet 4 ''b'', OpGet 5 ''a'', OpGet 99 ''c'']"

theorem LookupCache_refines_lru_witness:
  "fst (runCache demo_cache_ops (NewLookupCache 2 10))
     = [Some (demo_placement ''1''), None, Some (demo_placement ''1''), None]"
proof -
  have "fst (runCache demo_cache_ops (NewLookupCache 2 10)) = fst (runLru (nat 2) 10 demo_cache_ops [])"
    using LookupCache_refines_lru [of 2 10 demo_cache_ops] by auto
  also have "\<dots> = [Some (demo_placement ''1''), None, Some (demo_placement ''1''), None]"
    by code_simp
  finally show ?thesis .
qed

lemma Get_lru: "lc_inv c \<Longrightarrow> fst (Get t k (Some c)) = fst (lru_get t k (lc_view c))"
  using Get_refines [of c t k] by auto

lemma fst_lru_get:
  "fst (lru_get t k es) = (case lru_find k es of None \<Rightarrow> None | Some e \<Rightarrow> if e_expires e < t then None else Some (e_value e))"
  by (simp add: lru_get_def split: option.splits)

lemma lru_find_invalidate:
  "lru_find k (lru_invalidate ps es) =
     (case keyPath k of None \<Rightarrow> lru_find k es | Some p \<Rightarrow> if p \<noteq> [] \<and> p \<in> set ps then None else lru_find k es)"
  by (induction es) (auto simp: lru_find_def lru_invalidate_def split: option.splits)

lemma LookupCache_hit_policy_facts:
  assumes "lc_inv c"
  shows "fst (Get t k (Set now k v (Some c))) =
      (if p_found v then (if now + lc_ttl c < t then None else Some v) else fst (Get t k (Some c)))"
    and "fst (Get t k (InvalidatePaths ps (Some c))) =
      (case keyPath k of
         None \<Rightarrow> fst (Get t k (Some c))
       | Some p \<Rightarrow> if p \<noteq> [] \<and> p \<in> set ps then None else fst (Get t k (Some c)))"
proof -
  from Set_refines [OF assms, of now k v] obtain c1 where
    c1: "Set now k v (Some c) = Some c1" "lc_inv c1"
      "lc_view c1 = lru_set (nat (lc_maxItems c)) (lc_ttl c) now k v (lc_view c)"
    by blast
  have "0 < lc_maxItems c" using assms by (simp add: lc_inv_def lc_rep_def)
  then obtain m where m: "nat (lc_maxItems c) = Suc m" by (metis gr0_conv_Suc zero_less_nat_eq)
  show "fst (Get t k (Set now k v (Some c))) =
      (if p_found v then (if now + lc_ttl c < t then None else Some v) else fst (Get t k (Some c)))"
    by (simp add: c1(1) Get_lru [OF c1(2)] Get_lru [OF assms] c1(3))
      (simp add: lru_set_def lru_touch_def m lru_get_def lru_find_def)
next
  from InvalidatePaths_refines [OF assms, of ps] obtain c1 where
    c1: "InvalidatePaths ps (Some c) = Some c1" "lc_inv c1" "lc_view c1 = lru_invalidate ps (lc_view c)"
    by blast
  show "fst (Get t k (InvalidatePaths ps (Some c))) =
      (case keyPath k of
         None \<Rightarrow> fst (Get t k (Some c))
       | Some p \<Rightarrow> if p \<noteq> [] \<and> p \<in> set ps then None else fst (Get t k (Some c)))"
    by (simp add: c1(1) Get_lru [OF c1(2)] Get_lru [OF assms] c1(3) fst_lru_get lru_find_invalidate
        split: option.splits)
qed

text \<open>A stored placement is answered until its time-to-live has passed and not after; a
  placement that was not found is never stored; invalidating a path drops exactly the keys of that path
  and leaves the answer for every other key as it was.\<close>

theorem LookupCache_hit_policy:
  assumes "lc_inv c"
  shows "fst (Get t k (Set now k v (Some c))) =
      (if p_found v then (if now + lc_ttl c < t then None else Some v) else fst (Get t k (Some c)))
    \<and> fst (Get t k (InvalidatePaths ps (Some c))) =
      (case keyPath k of
         None \<Rightarrow> fst (Get t k (Some c))
       | Some p \<Rightarrow> if p \<noteq> [] \<and> p \<in> set ps then None else fst (Get t k (Some c)))"
  using LookupCache_hit_policy_facts [OF assms] by blast

definition demo_cache :: lookup_cache where
  "demo_cache = \<lparr>lc_maxItems = 2, lc_ttl = 10, lc_ll = [], lc_items = [], lc_next = 0\<rparr>"

theorem LookupCache_hit_policy_witness:
  "lc_inv demo_cache \<and> fst (Get 10 ''k'' (Set 0 ''k'' (demo_placement ''1'') (Some demo_cache))) = Some (demo_placement ''1'')
   \<and> fst (Get 11 ''k'' (Set 0 ''k'' (demo_placement ''1'') (Some demo_cache))) = None"
proof -
  have inv: "lc_inv demo_cache"
    by (simp add: demo_cache_def lc_inv_def lc_rep_def)
  show ?thesis
    using inv LookupCache_hit_policy [OF inv, of 10 "''k''" 0 "demo_placement ''1''"]
      LookupCache_hit_policy [OF inv, of 11 "''k''" 0 "demo_placement ''1''"]
    by (simp add: demo_placement_def demo_cache_def)
qed

end
