(* ===== verification/Http.thy ===== *)
theory Http
  imports GoStrings
begin

text \<open>
  The part of \<^verbatim>\<open>net/http\<close>, \<^verbatim>\<open>net/url\<close> and \<^verbatim>\<open>strings\<close> that the HTTP side of the gateway uses:
  requests, header maps with canonical names, a response writer, \<^verbatim>\<open>http.Error\<close> and
  \<^verbatim>\<open>http.NotFound\<close>, \<^verbatim>\<open>url.PathEscape\<close> and its inverse, \<^verbatim>\<open>strings.TrimSpace\<close>, \<^verbatim>\<open>strings.ToLower\<close>
  and \<^verbatim>\<open>strconv.Atoi\<close>. The lower-case mapping of non-ASCII text, which needs the Unicode
  tables, is the parameter \<open>uni\<close> of \<open>toLower\<close>.
\<close>

section \<open>Text\<close>

definition isAscii :: "string \<Rightarrow> bool" where
  "isAscii s \<longleftrightarrow> list_all (\<lambda>c. (of_char c :: nat) < 128) s"

definition lowerChar :: "char \<Rightarrow> char" where
  "lowerChar c = (let n = of_char c :: nat in if 65 \<le> n \<and> n \<le> 90 then char_of (n + 32) else c)"

definition upperChar :: "char \<Rightarrow> char" where
  "upperChar c = (let n = of_char c :: nat in if 97 \<le> n \<and> n \<le> 122 then char_of (n - 32) else c)"

definition toLower :: "(string \<Rightarrow> string) \<Rightarrow> string \<Rightarrow> string" where
  "toLower uni s = (if isAscii s then map lowerChar s else uni s)"

text \<open>\<^verbatim>\<open>unicode.IsSpace\<close> and \<^verbatim>\<open>strings.TrimSpace\<close>.\<close>

definition isSpaceRune :: "nat \<Rightarrow> bool" where
  "isSpaceRune r \<longleftrightarrow> (9 \<le> r \<and> r \<le> 13) \<or> r = 32 \<or> r = 133 \<or> r = 160 \<or> r = 5760
     \<or> (8192 \<le> r \<and> r \<le> 8202) \<or> r = 8232 \<or> r = 8233 \<or> r = 8239 \<or> r = 8287 \<or> r = 12288"

lemma isSpaceRune_code [code]:
  "isSpaceRune r = (if r < 128 then (9 \<le> r \<and> r \<le> 13) \<or> r = 32
     else r = 133 \<or> r = 160 \<or> r = 5760 \<or> (8192 \<le> r \<and> r \<le> 8202) \<or> r = 8232 \<or> r = 8233 \<or> r = 8239 \<or> r = 8287 \<or> r = 12288)"
  by (auto simp: isSpaceRune_def)

text \<open>\<^verbatim>\<open>utf8.DecodeLastRuneInString\<close> on a non-empty string: the last rune and its width.\<close>

definition decodeLastRune :: "string \<Rightarrow> nat \<times> nat" where
  "decodeLastRune s =
     (let n = length s; start = (\<lambda>k. \<not> contByte (of_char (s ! (n - k))));
          k = (if start 1 \<or> n = 1 then 1 else if start 2 \<or> n = 2 then 2
               else if start 3 \<or> n = 3 then 3 else 4);
          (r, size) = decodeRune (drop (n - k) s)
      in if size = k then (r, size) else (65533, 1))"

function trimLeftSpace :: "string \<Rightarrow> string" where
  "trimLeftSpace s =
     (if s = [] then []
      else if isSpaceRune (fst (decodeRune s)) then trimLeftSpace (drop (snd (decodeRune s)) s) else s)"
  by pat_completeness auto
termination
  by (relation "measure length") (auto simp: decodeRune_width)

declare trimLeftSpace.simps [simp del]

lemma decodeLastRune_width: "0 < snd (decodeLastRune s)"
  by (auto simp: decodeLastRune_def Let_def split: prod.splits)

function trimRightSpace :: "string \<Rightarrow> string" where
  "trimRightSpace s =
     (if s = [] then []
      else if isSpaceRune (fst (decodeLastRune s))
        then trimRightSpace (take (length s - snd (decodeLastRune s)) s) else s)"
  by pat_completeness auto
termination
  by (relation "measure length") (auto simp: decodeLastRune_width)

declare trimRightSpace.simps [simp del]

definition strTrimSpace :: "string \<Rightarrow> string" where
  "strTrimSpace s = trimRightSpace (trimLeftSpace s)"

lemma strTrimSpace_plain:
  assumes "s \<noteq> []" and "(of_char (hd s) :: nat) < 128" and "\<not> isSpaceRune (of_char (hd s))"
    and "(of_char (last s) :: nat) < 128" and "\<not> isSpaceRune (of_char (last s))"
  shows "strTrimSpace s = s"
proof -
  have "trimLeftSpace s = s" using assms(1-3) by (subst trimLeftSpace.simps) (simp add: decodeRune_ascii)
  moreover have "drop (length s - 1) s = [last s]" using assms(1) by (cases s rule: rev_cases) simp_all
  then have "decodeLastRune s = (of_char (last s), 1)"
    using assms(1,4) decodeRune_ascii [of "[last s]"] by (simp add: decodeLastRune_def Let_def contByte_def last_conv_nth)
  then have "trimRightSpace s = s" using assms(1,5) by (subst trimRightSpace.simps) simp
  ultimately show ?thesis by (simp add: strTrimSpace_def)
qed

text \<open>\<^verbatim>\<open>strconv.Atoi\<close> on a 64-bit platform and \<^verbatim>\<open>strconv.FormatInt(n, 10)\<close>.\<close>

definition atoi :: "string \<Rightarrow> int option" where
  "atoi s =
     (let neg = hasPrefix s ''-'';
          ds = (if neg \<or> hasPrefix s ''+'' then tl s else s)
      in if ds = [] \<or> \<not> list_all isDigit ds then None
         else let n = int (digitsVal ds)
              in if neg then (if n \<le> 2 ^ 63 then Some (- n) else None)
                 else (if n < 2 ^ 63 then Some n else None))"

definition formatInt :: "int \<Rightarrow> string" where
  "formatInt n = (if n < 0 then CHR ''-'' # formatNat (nat (- n)) else formatNat (nat n))"

section \<open>Headers\<close>

text \<open>\<^verbatim>\<open>textproto.CanonicalMIMEHeaderKey\<close> on a valid field name.\<close>

fun canonFrom :: "bool \<Rightarrow> string \<Rightarrow> string" where
  "canonFrom up [] = []"
| "canonFrom up (c # s) = (if up then upperChar c else lowerChar c) # canonFrom (c = CHR ''-'') s"

definition canonKey :: "string \<Rightarrow> string" where
  "canonKey = canonFrom True"

type_synonym header = "(string \<times> string list) list"

definition hdrGet :: "string \<Rightarrow> header \<Rightarrow> string" where
  "hdrGet k h = (case mapGet (canonKey k) h of Some (v # _) \<Rightarrow> v | _ \<Rightarrow> [])"

definition hdrSet :: "string \<Rightarrow> string \<Rightarrow> header \<Rightarrow> header" where
  "hdrSet k v h = mapSet (canonKey k) [v] h"

definition hdrAdd :: "string \<Rightarrow> string \<Rightarrow> header \<Rightarrow> header" where
  "hdrAdd k v h = mapSet (canonKey k) ((case mapGet (canonKey k) h of None \<Rightarrow> [] | Some vs \<Rightarrow> vs) @ [v]) h"

definition hdrDel :: "string \<Rightarrow> header \<Rightarrow> header" where
  "hdrDel k h = mapDel (canonKey k) h"

lemma hdrGet_hdrSet [simp]:
  "hdrGet k (hdrSet k' v h) = (if canonKey k = canonKey k' then v else hdrGet k h)"
  by (simp add: hdrGet_def hdrSet_def)

lemma hdrGet_hdrDel [simp]:
  "hdrGet k (hdrDel k' h) = (if canonKey k = canonKey k' then [] else hdrGet k h)"
  by (simp add: hdrGet_def hdrDel_def)

lemma hdrGet_hdrAdd_other [simp]:
  "canonKey k \<noteq> canonKey k' \<Longrightarrow> hdrGet k (hdrAdd k' v h) = hdrGet k h"
  by (simp add: hdrGet_def hdrAdd_def)

lemma hdrGet_Nil [simp]: "hdrGet k [] = []"
  by (simp add: hdrGet_def)

section \<open>Requests and responses\<close>

text \<open>\<open>rq_path\<close> is the decoded \<^verbatim>\<open>URL.Path\<close>, \<open>rq_escaped\<close> its \<^verbatim>\<open>EscapedPath\<close>, \<open>rq_query\<close> the parsed
  query.\<close>

record request =
  rq_method :: string
  rq_path :: string
  rq_escaped :: string
  rq_query :: "(string \<times> string list) list"
  rq_header :: header
  rq_remote :: string

definition queryGet :: "string \<Rightarrow> request \<Rightarrow> string" where
  "queryGet k r = (case mapGet k (rq_query r) of Some (v # _) \<Rightarrow> v | _ \<Rightarrow> [])"

text \<open>The response writer: the first status wins, a body without one means 200.\<close>

record writer =
  rw_header :: header
  rw_status :: "nat option"
  rw_body :: string

definition writeHeader :: "nat \<Rightarrow> writer \<Rightarrow> writer" where
  "writeHeader code w = (case rw_status w of None \<Rightarrow> w\<lparr>rw_status := Some code\<rparr> | Some _ \<Rightarrow> w)"

definition writeBody :: "string \<Rightarrow> writer \<Rightarrow> writer" where
  "writeBody b w = (let w = writeHeader 200 w in w\<lparr>rw_body := rw_body w @ b\<rparr>)"

definition setHeader :: "string \<Rightarrow> string \<Rightarrow> writer \<Rightarrow> writer" where
  "setHeader k v w = w\<lparr>rw_header := hdrSet k v (rw_header w)\<rparr>"

definition httpError :: "string \<Rightarrow> nat \<Rightarrow> writer \<Rightarrow> writer" where
  "httpError msg code w =
     writeBody (msg @ [CHR 0x0A])
       (writeHeader code
         (w\<lparr>rw_header := hdrSet ''X-Content-Type-Options'' ''nosniff''
              (hdrSet ''Content-Type'' ''text/plain; charset=utf-8'' (hdrDel ''Content-Length'' (rw_header w)))\<rparr>))"

definition httpNotFound :: "writer \<Rightarrow> writer" where
  "httpNotFound w = httpError ''404 page not found'' 404 w"

definition new_writer :: writer where
  "new_writer = \<lparr>rw_header = [], rw_status = None, rw_body = []\<rparr>"

lemma writer_simps [simp]:
  "rw_header (writeHeader code w) = rw_header w" "rw_body (writeHeader code w) = rw_body w"
  "rw_header (writeBody b w) = rw_header w" "rw_status (setHeader k v w) = rw_status w"
  "rw_body (setHeader k v w) = rw_body w" "rw_header (setHeader k v w) = hdrSet k v (rw_header w)"
  "rw_body (writeBody b w) = rw_body w @ b"
  by (simp_all add: writeHeader_def writeBody_def setHeader_def Let_def split: option.splits)

lemma status_simps [simp]:
  "rw_status w = None \<Longrightarrow> rw_status (writeHeader code w) = Some code"
  "rw_status w = None \<Longrightarrow> rw_status (writeBody b w) = Some 200"
  "rw_status w = Some c \<Longrightarrow> rw_status (writeHeader code w) = Some c"
  "rw_status w = Some c \<Longrightarrow> rw_status (writeBody b w) = Some c"
  "rw_status w = None \<Longrightarrow> rw_status (httpError msg code w) = Some code"
  "rw_status w = None \<Longrightarrow> rw_status (httpNotFound w) = Some 404"
  by (simp_all add: writeHeader_def writeBody_def httpError_def httpNotFound_def Let_def)

lemma httpError_header:
  "rw_header (httpError msg code w) = hdrSet ''X-Content-Type-Options'' ''nosniff''
     (hdrSet ''Content-Type'' ''text/plain; charset=utf-8'' (hdrDel ''Content-Length'' (rw_header w)))"
  by (simp add: httpError_def)

section \<open>Percent encoding\<close>

definition hexChar :: "nat \<Rightarrow> char" where
  "hexChar d = (if d < 10 then char_of (48 + d) else char_of (55 + d))"

definition unhex :: "char \<Rightarrow> nat option" where
  "unhex c =
     (let n = of_char c :: nat
      in if 48 \<le> n \<and> n \<le> 57 then Some (n - 48)
         else if 97 \<le> n \<and> n \<le> 102 then Some (n - 87)
         else if 65 \<le> n \<and> n \<le> 70 then Some (n - 55) else None)"

text \<open>\<open>shouldEscape(c, encodePathSegment)\<close> is false for unreserved characters and \<open>$&+:=@\<close>.\<close>

definition segmentSafe :: "char \<Rightarrow> bool" where
  "segmentSafe c \<longleftrightarrow>
     (let n = of_char c :: nat
      in (97 \<le> n \<and> n \<le> 122) \<or> (65 \<le> n \<and> n \<le> 90) \<or> (48 \<le> n \<and> n \<le> 57)
         \<or> c \<in> set ''-_.~$&+:=@'')"

definition escapeChar :: "char \<Rightarrow> string" where
  "escapeChar c =
     (if segmentSafe c then [c]
      else let n = of_char c :: nat in [CHR ''%'', hexChar (n div 16), hexChar (n mod 16)])"

definition pathEscape :: "string \<Rightarrow> string" where
  "pathEscape s = concat (map escapeChar s)"

text \<open>\<^verbatim>\<open>url.PathUnescape\<close>; \<open>None\<close> for an invalid escape.\<close>

fun pathUnescape :: "string \<Rightarrow> string option" where
  "pathUnescape [] = Some []"
| "pathUnescape (c # s) =
     (if c = CHR ''%'' then
        (case s of
           a # b # r \<Rightarrow>
             (case (unhex a, unhex b) of
                (Some x, Some y) \<Rightarrow> map_option ((#) (char_of (16 * x + y))) (pathUnescape r)
              | _ \<Rightarrow> None)
         | _ \<Rightarrow> None)
      else map_option ((#) c) (pathUnescape s))"

lemma unhex_hexChar: "d < 16 \<Longrightarrow> unhex (hexChar d) = Some d"
  by (auto simp: unhex_def hexChar_def)

lemma unescape_escapeChar: "pathUnescape (escapeChar c @ s) = map_option ((#) c) (pathUnescape s)"
proof (cases "segmentSafe c")
  case True
  then have "c \<noteq> CHR ''%''" by (auto simp: segmentSafe_def)
  with True show ?thesis by (simp add: escapeChar_def)
next
  case False
  let ?n = "of_char c :: nat"
  have "?n < 256" by (rule nat_of_char_less_256)
  then have "?n div 16 < 16" "?n mod 16 < 16" by (simp_all add: less_mult_imp_div_less)
  then show ?thesis
    using False by (simp add: escapeChar_def Let_def unhex_hexChar del: char_of_nat)
qed

lemma pathUnescape_pathEscape [simp]: "pathUnescape (pathEscape s) = Some s"
  by (induction s) (simp_all add: pathEscape_def unescape_escapeChar)

lemma pathEscape_inject: "pathEscape s = pathEscape t \<longleftrightarrow> s = t"
  by (metis option.inject pathUnescape_pathEscape)

lemma hexChar_safe: "d < 16 \<Longrightarrow> segmentSafe (hexChar d)"
  by (auto simp: segmentSafe_def hexChar_def)

lemma pathEscape_chars:
  assumes "c \<in> set (pathEscape s)"
  shows "segmentSafe c \<or> c = CHR ''%''"
proof -
  from assms obtain d where d: "c \<in> set (escapeChar d)" by (auto simp: pathEscape_def)
  have "(of_char d :: nat) < 256" by (rule nat_of_char_less_256)
  then have "(of_char d :: nat) div 16 < 16" "(of_char d :: nat) mod 16 < 16"
    by (simp_all add: less_mult_imp_div_less)
  with d show ?thesis
    by (auto simp: escapeChar_def Let_def hexChar_safe split: if_splits)
qed

text \<open>\<^verbatim>\<open>url.QueryEscape\<close> and \<^verbatim>\<open>url.QueryUnescape\<close>: only unreserved characters stay, a blank becomes a plus sign.\<close>

definition querySafe :: "char \<Rightarrow> bool" where
  "querySafe c \<longleftrightarrow>
     (let n = of_char c :: nat
      in (97 \<le> n \<and> n \<le> 122) \<or> (65 \<le> n \<and> n \<le> 90) \<or> (48 \<le> n \<and> n \<le> 57) \<or> c \<in> set ''-_.~'')"

definition queryEscapeChar :: "char \<Rightarrow> string" where
  "queryEscapeChar c =
     (if querySafe c then [c] else if c = CHR '' '' then ''+''
      else let n = of_char c :: nat in [CHR ''%'', hexChar (n div 16), hexChar (n mod 16)])"

definition queryEscape :: "string \<Rightarrow> string" where
  "queryEscape s = concat (map queryEscapeChar s)"

fun queryUnescape :: "string \<Rightarrow> string option" where
  "queryUnescape [] = Some []"
| "queryUnescape (c # s) =
     (if c = CHR ''%'' then
        (case s of
           a # b # r \<Rightarrow>
             (case (unhex a, unhex b) of
                (Some x, Some y) \<Rightarrow> map_option ((#) (char_of (16 * x + y))) (queryUnescape r)
              | _ \<Rightarrow> None)
         | _ \<Rightarrow> None)
      else map_option ((#) (if c = CHR ''+'' then CHR '' '' else c)) (queryUnescape s))"

lemma char_hex_split: "(of_char c :: nat) div 16 < 16" "(of_char c :: nat) mod 16 < 16"
  using nat_of_char_less_256 [of c] by (simp_all add: less_mult_imp_div_less)

lemma unescape_queryEscapeChar: "queryUnescape (queryEscapeChar c @ s) = map_option ((#) c) (queryUnescape s)"
proof (cases "querySafe c")
  case True
  then have "c \<noteq> CHR ''%''" "c \<noteq> CHR ''+''" by (auto simp: querySafe_def)
  with True show ?thesis by (simp add: queryEscapeChar_def)
next
  case False
  then show ?thesis
    using char_hex_split [of c] by (simp add: queryEscapeChar_def Let_def unhex_hexChar del: char_of_nat)
qed

lemma queryUnescape_queryEscape [simp]: "queryUnescape (queryEscape s) = Some s"
  by (induction s) (simp_all add: queryEscape_def unescape_queryEscapeChar)

lemma queryEscape_chars:
  assumes "c \<in> set (queryEscape s)"
  shows "querySafe c \<or> c = CHR ''%'' \<or> c = CHR ''+''"
proof -
  from assms obtain d where d: "c \<in> set (queryEscapeChar d)" by (auto simp: queryEscape_def)
  have "querySafe (hexChar n)" if "n < 16" for n using that by (auto simp: querySafe_def hexChar_def)
  with d char_hex_split [of d] show ?thesis by (auto simp: queryEscapeChar_def Let_def split: if_splits)
qed

end
