(* ===== verification/StorageClient.thy ===== *)
theory StorageClient
  imports Http
begin

text \<open>
  \<^verbatim>\<open>internal/storage/client.go\<close>: the client of the object store (a SeaweedFS filer). The filer and the
  HTTP transport are outside the repository: \<open>tp_newreq\<close> is the error of building a request
  for a URL, if any, and \<open>tp_do\<close> is what sending a request gives. Every operation returns the
  error the Go method returns or its result; a response body is the bytes read from it.
\<close>

section \<open>Definitions\<close>

record http_req =
  hq_method :: string
  hq_url :: string
  hq_header :: header
  hq_body :: string
  hq_length :: int

record http_resp =
  hr_status :: nat
  hr_status_text :: string
  hr_header :: header
  hr_body :: string
  hr_length :: int

record transport =
  tp_newreq :: "string \<Rightarrow> string \<Rightarrow> string option"
  tp_do :: "http_req \<Rightarrow> http_resp result"

record client =
  c_baseURL :: string

definition trimRightChar :: "char \<Rightarrow> string \<Rightarrow> string" where
  "trimRightChar c s = rev (dropWhile (\<lambda>x. x = c) (rev s))"

definition Client_New :: "string \<Rightarrow> client" where
  "Client_New baseURL = \<lparr>c_baseURL = trimRightChar CHR ''/'' baseURL\<rparr>"

definition BaseURL :: "client \<Rightarrow> string" where
  "BaseURL c = c_baseURL c"

definition urlFor :: "client \<Rightarrow> string \<Rightarrow> string" where
  "urlFor c key0 =
     (let key = (if \<not> hasPrefix key0 ''/'' then ''/'' @ key0 else key0);
          parts = map pathEscape (strSplit CHR ''/'' key)
      in c_baseURL c @ strJoin CHR ''/'' parts)"

text \<open>\<^verbatim>\<open>http.NewRequestWithContext\<close> and \<^verbatim>\<open>c.http.Do\<close>.\<close>

definition newRequest :: "transport \<Rightarrow> string \<Rightarrow> string \<Rightarrow> string \<Rightarrow> http_req result" where
  "newRequest tp method url body =
     (case tp_newreq tp method url of
        Some e \<Rightarrow> Inl e
      | None \<Rightarrow> Inr \<lparr>hq_method = method, hq_url = url, hq_header = [], hq_body = body, hq_length = 0\<rparr>)"

definition Client_Put :: "transport \<Rightarrow> client \<Rightarrow> string \<Rightarrow> string \<Rightarrow> int \<Rightarrow> string \<Rightarrow> unit result" where
  "Client_Put tp c key body sz contentType =
     bindR (newRequest tp ''PUT'' (urlFor c key) body)
       (\<lambda>req.
          let req = (if 0 \<le> sz then req\<lparr>hq_length := sz\<rparr> else req);
              req = (if contentType \<noteq> [] then req\<lparr>hq_header := hdrSet ''Content-Type'' contentType (hq_header req)\<rparr> else req)
          in bindR (tp_do tp req)
               (\<lambda>resp. if 200 \<le> hr_status resp \<and> hr_status resp < 300 then Inr ()
                       else Inl (''seaweed PUT '' @ key @ '': '' @ hr_status_text resp)))"

definition Client_Delete :: "transport \<Rightarrow> client \<Rightarrow> string \<Rightarrow> unit result" where
  "Client_Delete tp c key =
     bindR (newRequest tp ''DELETE'' (urlFor c key) [])
       (\<lambda>req. bindR (tp_do tp req)
          (\<lambda>resp. if hr_status resp < 300 \<or> hr_status resp = 404 then Inr ()
                  else Inl (''seaweed DELETE '' @ key @ '': '' @ hr_status_text resp)))"

text \<open>\<open>Head\<close> returns the headers (\<open>None\<close> for nil) and whether the object exists.\<close>

definition Client_Head :: "transport \<Rightarrow> client \<Rightarrow> string \<Rightarrow> (header option \<times> bool) result" where
  "Client_Head tp c key =
     bindR (newRequest tp ''HEAD'' (urlFor c key) [])
       (\<lambda>req. bindR (tp_do tp req)
          (\<lambda>resp. if hr_status resp = 404 then Inr (None, False)
                  else if 300 \<le> hr_status resp then Inl (''seaweed HEAD '' @ key @ '': '' @ hr_status_text resp)
                  else Inr (Some (hr_header resp), True)))"

definition addHeaders :: "header \<Rightarrow> header \<Rightarrow> header" where
  "addHeaders extra h = foldl (\<lambda>h kv. foldl (\<lambda>h v. hdrAdd (fst kv) v h) h (snd kv)) h extra"

definition Client_Get :: "transport \<Rightarrow> client \<Rightarrow> string \<Rightarrow> header \<Rightarrow> http_resp result" where
  "Client_Get tp c key extraHeaders =
     bindR (newRequest tp ''GET'' (urlFor c key) [])
       (\<lambda>req. tp_do tp (req\<lparr>hq_header := addHeaders extraHeaders (hq_header req)\<rparr>))"

definition Client_Copy :: "transport \<Rightarrow> client \<Rightarrow> string \<Rightarrow> string \<Rightarrow> unit result" where
  "Client_Copy tp c srcKey dstKey =
     bindR (Client_Get tp c srcKey [])
       (\<lambda>resp. if 300 \<le> hr_status resp then Inl (''seaweed GET (copy src) '' @ srcKey @ '': '' @ hr_status_text resp)
               else Client_Put tp c dstKey (hr_body resp) (hr_length resp) (hdrGet ''Content-Type'' (hr_header resp)))"

definition Client_Ping :: "transport \<Rightarrow> client \<Rightarrow> unit result" where
  "Client_Ping tp c =
     bindR (newRequest tp ''HEAD'' (c_baseURL c @ ''/.gateway-ping'') [])
       (\<lambda>req. bindR (tp_do tp req)
          (\<lambda>resp. if 500 \<le> hr_status resp then Inl (''seaweed ping '' @ c_baseURL c @ '': '' @ hr_status_text resp)
                  else Inr ()))"

section \<open>URLs\<close>

lemma strSplit_strJoin:
  assumes "segs \<noteq> []" and "\<And>s. s \<in> set segs \<Longrightarrow> c \<notin> set s"
  shows "strSplit c (strJoin c segs) = segs"
  using assms
proof (induction segs)
  case (Cons s segs)
  show ?case
  proof (cases "segs = []")
    case True
    with Cons.prems show ?thesis by (simp add: strSplit_free)
  next
    case False
    with Cons show ?thesis by (simp add: strJoin_Cons strSplit_append_sep strSplit_free)
  qed
qed simp

lemma pathEscape_no_slash: "CHR ''/'' \<notin> set (pathEscape s)"
  using pathEscape_chars [of "CHR ''/''" s] by (auto simp: segmentSafe_def)

definition withSlash :: "string \<Rightarrow> string" where
  "withSlash key = (if hasPrefix key ''/'' then key else ''/'' @ key)"

lemma urlFor_alt:
  "urlFor c key = c_baseURL c @ strJoin CHR ''/'' (map pathEscape (strSplit CHR ''/'' (withSlash key)))"
  by (simp add: urlFor_def withSlash_def Let_def)

lemma urlFor_decodes:
  "map pathUnescape (strSplit CHR ''/'' (drop (length (c_baseURL c)) (urlFor c key)))
     = map Some (strSplit CHR ''/'' (withSlash key))"
proof -
  have "strSplit CHR ''/'' (strJoin CHR ''/'' (map pathEscape (strSplit CHR ''/'' (withSlash key))))
      = map pathEscape (strSplit CHR ''/'' (withSlash key))"
    by (intro strSplit_strJoin) (auto simp: pathEscape_no_slash)
  then show ?thesis by (simp add: urlFor_alt o_def)
qed

lemma strJoin_chars: "x \<in> set (strJoin c segs) \<Longrightarrow> x = c \<or> (\<exists>s \<in> set segs. x \<in> set s)"
  by (induction c segs rule: strJoin.induct) auto

lemma urlFor_chars:
  "x \<in> set (drop (length (c_baseURL c)) (urlFor c key)) \<Longrightarrow> x = CHR ''/'' \<or> x = CHR ''%'' \<or> segmentSafe x"
  by (auto simp: urlFor_alt dest!: strJoin_chars pathEscape_chars)

text \<open>The URL a storage key is sent to determines the key (up to the leading slash the client
  adds): its path, split at slashes and percent-decoded, gives back the key's segments. The
  path holds only unreserved characters, slashes and percent escapes, so no key can smuggle a
  query, a fragment or an extra path segment into the filer URL.\<close>

theorem urlFor_roundtrip:
  "map pathUnescape (strSplit CHR ''/'' (drop (length (c_baseURL c)) (urlFor c key)))
     = map Some (strSplit CHR ''/'' (withSlash key))
   \<and> (urlFor c key = urlFor c key' \<longleftrightarrow> withSlash key = withSlash key')
   \<and> list_all (\<lambda>x. x = CHR ''/'' \<or> x = CHR ''%'' \<or> segmentSafe x) (drop (length (c_baseURL c)) (urlFor c key))"
proof -
  have "withSlash key = withSlash key'" if "urlFor c key = urlFor c key'"
  proof -
    have "map Some (strSplit CHR ''/'' (withSlash key)) = map Some (strSplit CHR ''/'' (withSlash key'))"
      using urlFor_decodes [of c key] urlFor_decodes [of c key'] that by simp
    then have "strSplit CHR ''/'' (withSlash key) = strSplit CHR ''/'' (withSlash key')"
      by (simp add: inj_map_eq_map)
    then show ?thesis by (metis strJoin_strSplit)
  qed
  then show ?thesis
    using urlFor_decodes [of c key] urlFor_chars [of _ c key]
    by (auto simp: urlFor_alt list_all_iff)
qed

end
