(* ===== verification/Proxy.thy ===== *)
theory Proxy
  imports Keys LookupCache StorageClient
begin

text \<open>
  \<^verbatim>\<open>internal/httpapi/proxy.go\<close>: the read-only proxy for \<^verbatim>\<open>GET /sekai-{server}-assets/{path...}\<close>. The
  handler checks the request, resolves the path through the lookup cache or the database,
  emits cache headers, answers conditional requests itself and otherwise asks the object store.
  What one request meets of its surroundings is in the record \<open>proxy_env\<close>: the two clock values it
  may read, the SQL faults of its lookup, the filer, the system's MIME table, the lower-case
  mapping of non-ASCII text, and how many bytes \<^verbatim>\<open>io.Copy\<close> gets through when it fails.
\<close>

section \<open>Definitions\<close>

datatype met_event = MetRequest string string | MetBytes nat

record proxy_metrics =
  pm_RequestsTotal :: bool
  pm_BytesOut :: bool

record proxy_handler =
  ph_Client :: client
  ph_AllowedServers :: "(string \<times> unit) list"
  ph_Metrics :: "proxy_metrics option"

record proxy_env =
  pe_now_get :: int
  pe_now_set :: int
  pe_sql :: sqlfault
  pe_tp :: transport
  pe_mime :: "string \<Rightarrow> string"
  pe_uni :: "string \<Rightarrow> string"
  pe_copied :: "nat option"

record proxy_out =
  po_writer :: writer
  po_cache :: "lookup_cache option"
  po_events :: "met_event list"

definition metRequests :: "proxy_metrics option \<Rightarrow> string \<Rightarrow> string \<Rightarrow> met_event list" where
  "metRequests m server result =
     (case m of None \<Rightarrow> [] | Some pm \<Rightarrow> if pm_RequestsTotal pm then [MetRequest server result] else [])"

definition metBytes :: "proxy_metrics option \<Rightarrow> nat \<Rightarrow> met_event list" where
  "metBytes m n = (case m of None \<Rightarrow> [] | Some pm \<Rightarrow> if pm_BytesOut pm then [MetBytes n] else [])"

definition setCacheHeaders :: "string \<Rightarrow> string \<Rightarrow> string \<Rightarrow> writer \<Rightarrow> writer" where
  "setCacheHeaders fingerprint version from w =
     (let w = (if fingerprint \<noteq> [] then setHeader ''ETag'' (CHR 0x22 # fingerprint @ [CHR 0x22]) w else w);
          w = setHeader ''Cache-Control'' ''public, max-age=31536000, immutable'' w;
          w = setHeader ''X-Serve-From'' from w
      in if version \<noteq> [] then setHeader ''X-Version'' version w else w)"

definition etagMatch :: "string \<Rightarrow> string \<Rightarrow> bool" where
  "etagMatch headerVal fingerprint \<longleftrightarrow>
     list_ex (\<lambda>part. let p = trimPrefix (strTrimSpace part) ''W/''
                     in p = ''*'' \<or> p = CHR 0x22 # fingerprint @ [CHR 0x22] \<or> p = fingerprint)
       (strSplit CHR '','' headerVal)"

definition isGenericOctet :: "(string \<Rightarrow> string) \<Rightarrow> string \<Rightarrow> bool" where
  "isGenericOctet uni ct0 \<longleftrightarrow>
     (let ct = toLower uni (strTrimSpace ct0) in ct = ''application/octet-stream'' \<or> ct = [])"

text \<open>\<^verbatim>\<open>filepath.Ext\<close>: from the last dot of the last path element.\<close>

definition pathExt :: "string \<Rightarrow> string" where
  "pathExt p =
     (let r = rev p; ext = takeWhile (\<lambda>c. c \<noteq> CHR ''.'' \<and> c \<noteq> CHR ''/'') r; rest = drop (length ext) r
      in if rest \<noteq> [] \<and> hd rest = CHR ''.'' then CHR ''.'' # rev ext else [])"

definition mimeByExt :: "(string \<Rightarrow> string) \<Rightarrow> (string \<Rightarrow> string) \<Rightarrow> string \<Rightarrow> string" where
  "mimeByExt uni mime p =
     (let ext = toLower uni (pathExt p)
      in if ext = [] then []
         else if mime ext \<noteq> [] then mime ext
         else if ext = ''.webp'' then ''image/webp''
         else if ext = ''.acb'' \<or> ext = ''.awb'' then ''application/octet-stream''
         else if ext = ''.usm'' then ''application/octet-stream''
         else [])"

definition copyHeaders :: "string list \<Rightarrow> header \<Rightarrow> writer \<Rightarrow> writer" where
  "copyHeaders ks h w = foldl (\<lambda>w k. if hdrGet k h \<noteq> [] then setHeader k (hdrGet k h) w else w) w ks"

definition cacheKeyOf :: "string \<Rightarrow> string \<Rightarrow> string" where
  "cacheKeyOf server safe = server @ [CHR 0x00] @ safe"

text \<open>Lines 73 to 84: the placement of the path, from the cache or the database. The three accesses to shared state are
  definitions of their own, since other requests and commits may come between them.\<close>

definition resolveGet :: "proxy_env \<Rightarrow> string \<Rightarrow> string \<Rightarrow> lookup_cache option \<Rightarrow> placement option \<times> lookup_cache option" where
  "resolveGet e server safe cache = Get (pe_now_get e) (cacheKeyOf server safe) cache"

definition resolveLookup :: "proxy_env \<Rightarrow> db \<Rightarrow> string \<Rightarrow> string \<Rightarrow> placement result" where
  "resolveLookup e d server safe = LookupPlacement (pe_sql e) d server safe"

definition resolveSet :: "proxy_env \<Rightarrow> string \<Rightarrow> string \<Rightarrow> placement \<Rightarrow> lookup_cache option \<Rightarrow> lookup_cache option" where
  "resolveSet e server safe res cache = Set (pe_now_set e) (cacheKeyOf server safe) res cache"

definition resolve ::
    "proxy_env \<Rightarrow> db \<Rightarrow> string \<Rightarrow> string \<Rightarrow> lookup_cache option \<Rightarrow> placement result \<times> lookup_cache option" where
  "resolve e d server safe cache =
     (case resolveGet e server safe cache of
        (Some res, cache) \<Rightarrow> (Inr res, cache)
      | (None, cache) \<Rightarrow>
          (case resolveLookup e d server safe of
             Inl err \<Rightarrow> (Inl err, cache)
           | Inr res \<Rightarrow> (Inr res, resolveSet e server safe res cache)))"

lemmas resolve_defs = resolve_def resolveGet_def resolveLookup_def resolveSet_def

text \<open>Lines 131 to 158: the answer to a HEAD request.\<close>

definition serveHead :: "proxy_handler \<Rightarrow> proxy_env \<Rightarrow> string \<Rightarrow> string \<Rightarrow> writer \<Rightarrow> writer \<times> met_event list" where
  "serveHead h e server storeKey w =
     (case Client_Head (pe_tp e) (ph_Client h) storeKey of
        Inl err \<Rightarrow> (httpError ''upstream error'' 502 w, metRequests (ph_Metrics h) server ''upstream_err'')
      | Inr (hdrs, ok) \<Rightarrow>
          if \<not> ok then (httpNotFound (setHeader ''X-Miss'' ''upstream'' w), metRequests (ph_Metrics h) server ''miss_upstream'')
          else
            (let hh = (case hdrs of None \<Rightarrow> [] | Some hh \<Rightarrow> hh);
                 w = copyHeaders [''Content-Length'', ''Last-Modified''] hh w
             in (writeHeader 200 w, metRequests (ph_Metrics h) server ''head_ok'')))"

text \<open>Lines 160 to 200: the answer to a GET request.\<close>

definition serveGet :: "proxy_handler \<Rightarrow> proxy_env \<Rightarrow> string \<Rightarrow> string \<Rightarrow> header \<Rightarrow> writer \<Rightarrow> writer \<times> met_event list" where
  "serveGet h e server storeKey upstreamHeaders w =
     (case Client_Get (pe_tp e) (ph_Client h) storeKey upstreamHeaders of
        Inl err \<Rightarrow> (httpError ''upstream error'' 502 w, metRequests (ph_Metrics h) server ''upstream_err'')
      | Inr resp \<Rightarrow>
          if hr_status resp = 404
          then (httpNotFound (setHeader ''X-Miss'' ''upstream'' w), metRequests (ph_Metrics h) server ''miss_upstream'')
          else if 400 \<le> hr_status resp
          then (httpError ''upstream error'' 502 w, metRequests (ph_Metrics h) server ''upstream_err'')
          else
            (let w = copyHeaders [''Content-Length'', ''Content-Range'', ''Accept-Ranges'', ''Last-Modified''] (hr_header resp) w;
                 ct = hdrGet ''Content-Type'' (hr_header resp);
                 w = (if ct \<noteq> [] \<and> \<not> isGenericOctet (pe_uni e) ct then setHeader ''Content-Type'' ct w else w);
                 w = writeHeader (hr_status resp) w;
                 sent = (case pe_copied e of None \<Rightarrow> hr_body resp | Some n \<Rightarrow> take n (hr_body resp));
                 w = (if sent = [] then w else writeBody sent w)
             in (w, metBytes (ph_Metrics h) (length sent) @ metRequests (ph_Metrics h) server ''ok'')))"

text \<open>Lines 93 to 129: the headers of a placed object, those passed on, and the conditional request.\<close>

definition placedWriter :: "proxy_env \<Rightarrow> string \<Rightarrow> placement \<Rightarrow> writer \<Rightarrow> writer" where
  "placedWriter e safe res w =
     (let w = setCacheHeaders (p_fingerprint res) (p_version res) (if p_from_shared res then ''shared'' else ''override'') w;
          ct = mimeByExt (pe_uni e) (pe_mime e) safe
      in if ct \<noteq> [] then setHeader ''Content-Type'' ct w else w)"

definition rangeHeaders :: "request \<Rightarrow> header" where
  "rangeHeaders r = (let rng = hdrGet ''Range'' (rq_header r) in if rng \<noteq> [] then hdrSet ''Range'' rng [] else [])"

definition notModified :: "request \<Rightarrow> placement \<Rightarrow> bool" where
  "notModified r res \<longleftrightarrow> (let inm = hdrGet ''If-None-Match'' (rq_header r) in inm \<noteq> [] \<and> etagMatch inm (p_fingerprint res))"

definition Proxy_ServeHTTP ::
    "proxy_handler \<Rightarrow> proxy_env \<Rightarrow> db \<Rightarrow> request \<Rightarrow> string \<Rightarrow> string \<Rightarrow> lookup_cache option \<Rightarrow> writer \<Rightarrow> proxy_out" where
  "Proxy_ServeHTTP h e d r server relPath cache w =
     (let out = (\<lambda>(w, evs) cache. \<lparr>po_writer = w, po_cache = cache, po_events = evs\<rparr>);
          met = metRequests (ph_Metrics h) server
      in
      if rq_method r \<noteq> ''GET'' \<and> rq_method r \<noteq> ''HEAD''
      then out (httpError ''method not allowed'' 405 (setHeader ''Allow'' ''GET, HEAD, OPTIONS'' w), []) cache
      else if mapGet server (ph_AllowedServers h) = None
      then out (httpNotFound w, met ''bad_server'') cache
      else case SafeRelPath relPath of
        Inl _ \<Rightarrow> out (httpError ''bad path'' 400 w, met ''bad_path'') cache
      | Inr safe \<Rightarrow>
          (case resolve e d server safe cache of
             (Inl _, cache) \<Rightarrow> out (httpError ''lookup error'' 500 w, met ''lookup_err'') cache
           | (Inr res, cache) \<Rightarrow>
               if \<not> p_found res
               then out (httpNotFound (setHeader ''X-Miss'' ''not-indexed'' w), met ''miss_index'') cache
               else if p_storage_key res = []
               then out (httpNotFound (setHeader ''X-Miss'' ''storage-key'' w), met ''miss_storage_key'') cache
               else
                 let w = placedWriter e safe res w
                 in if notModified r res then out (writeHeader 304 w, met ''304'') cache
                    else if rq_method r = ''HEAD'' then out (serveHead h e server (p_storage_key res) w) cache
                    else out (serveGet h e server (p_storage_key res) (rangeHeaders r) w) cache))"

section \<open>Resolving a path\<close>

lemma strIndex_byte: "c \<notin> set a \<Longrightarrow> strIndex (a @ c # b) [c] = Some (length a)"
  by (induction a) auto

lemma keyPath_cacheKey: "CHR 0x00 \<notin> set server \<Longrightarrow> keyPath (cacheKeyOf server safe) = Some safe"
  by (simp add: keyPath_def cacheKeyOf_def strIndex_byte)

text \<open>The source of truth the cache stands for: the placement the database gives for the server
  and path of a cache key.\<close>

definition truthOf :: "db \<Rightarrow> string \<Rightarrow> placement" where
  "truthOf d key =
     (case strIndex key [CHR 0x00] of
        None \<Rightarrow> placement_zero
      | Some i \<Rightarrow>
          (case LookupPlacement no_fault d (take i key) (drop (i + 1) key) of
             Inl _ \<Rightarrow> placement_zero
           | Inr p \<Rightarrow> p))"

lemma LookupPlacement_fault_free:
  "LookupPlacement f d server path = Inr p \<Longrightarrow> LookupPlacement no_fault d server path = Inr p"
  by (auto simp: LookupPlacement_def CurrentIndexedByServerPath_def CurrentIndexedSharedByPath_def
      CurrentByServerPath_def CurrentSharedByPath_def bindR_Inr_iff exec_Inr_iff split: option.splits)

lemma truthOf_cacheKey:
  assumes "CHR 0x00 \<notin> set server"
  shows "LookupPlacement no_fault d server safe = Inr (truthOf d (cacheKeyOf server safe))"
proof -
  obtain p where "LookupPlacement no_fault d server safe = Inr p"
    using LookupPlacement_total by blast
  then show ?thesis
    by (simp add: truthOf_def cacheKeyOf_def strIndex_byte [OF assms])
qed

lemma resolve_coherent:
  assumes "cache_ok cache" and "agrees (truthOf d) (cache_entries cache)" and "CHR 0x00 \<notin> set server"
    and "resolve e d server safe cache = (r, cache')"
  shows "cache_ok cache'" and "agrees (truthOf d) (cache_entries cache')"
    and "\<And>res. r = Inr res \<Longrightarrow> LookupPlacement no_fault d server safe = Inr res"
proof -
  let ?k = "cacheKeyOf server safe"
  obtain hit c1 where g: "Get (pe_now_get e) ?k cache = (hit, c1)" by (cases "Get (pe_now_get e) ?k cache")
  have c1: "cache_ok c1" "agrees (truthOf d) (cache_entries c1)"
    using gateway_cache.get_inv [OF assms(1), of "pe_now_get e" ?k]
      gateway_cache.get_agrees [OF assms(1,2), of "pe_now_get e" ?k] by (simp_all add: g)
  have truth: "LookupPlacement no_fault d server safe = Inr (truthOf d ?k)"
    by (rule truthOf_cacheKey [OF assms(3)])
  have "cache_ok cache' \<and> agrees (truthOf d) (cache_entries cache')
    \<and> (\<forall>res. r = Inr res \<longrightarrow> LookupPlacement no_fault d server safe = Inr res)"
  proof (cases hit)
    case (Some v)
    then have "v = truthOf d ?k"
      using gateway_cache.hit_agrees [OF assms(1,2), of "pe_now_get e" ?k v] by (simp add: g)
    with Some g assms(4) c1 truth show ?thesis by (auto simp: resolve_defs Let_def)
  next
    case None
    show ?thesis
    proof (cases "LookupPlacement (pe_sql e) d server safe")
      case (Inl err)
      with None g assms(4) c1 show ?thesis by (auto simp: resolve_defs Let_def)
    next
      case (Inr res)
      then have res: "res = truthOf d ?k"
        using LookupPlacement_fault_free [OF Inr] truth by simp
      with Inr None g assms(4) have "cache' = Set (pe_now_set e) ?k (truthOf d ?k) c1" "r = Inr res"
        by (auto simp: resolve_defs Let_def)
      then show ?thesis
        using gateway_cache.put_inv [OF c1(1)] gateway_cache.put_agrees [OF c1] res truth by simp
    qed
  qed
  then show "cache_ok cache'" "agrees (truthOf d) (cache_entries cache')"
    "\<And>res. r = Inr res \<Longrightarrow> LookupPlacement no_fault d server safe = Inr res"
    by blast+
qed

lemma Proxy_cache:
  "po_cache (Proxy_ServeHTTP h e d r server relPath cache w) = cache
   \<or> (\<exists>safe. SafeRelPath relPath = Inr safe \<and> mapGet server (ph_AllowedServers h) \<noteq> None
        \<and> po_cache (Proxy_ServeHTTP h e d r server relPath cache w) = snd (resolve e d server safe cache))"
  by (simp add: Proxy_ServeHTTP_def Let_def case_prod_unfold split: sum.splits prod.splits)

section \<open>What a response shows\<close>

lemma httpError_status: "rw_status w = None \<Longrightarrow> rw_status (httpError m c w) = Some c"
  by simp

lemma copyHeaders_frame [simp]:
  "rw_status (copyHeaders ks h w) = rw_status w" "rw_body (copyHeaders ks h w) = rw_body w"
  by (induction ks arbitrary: w) (simp_all add: copyHeaders_def)

lemma copyHeaders_other:
  "(\<And>k'. k' \<in> set ks \<Longrightarrow> canonKey k \<noteq> canonKey k') \<Longrightarrow> hdrGet k (rw_header (copyHeaders ks h w)) = hdrGet k (rw_header w)"
  by (induction ks arbitrary: w) (simp_all add: copyHeaders_def)

lemma setCacheHeaders_frame [simp]:
  "rw_status (setCacheHeaders fp v f w) = rw_status w" "rw_body (setCacheHeaders fp v f w) = rw_body w"
  by (simp_all add: setCacheHeaders_def Let_def)

lemma setCacheHeaders_get:
  "hdrGet ''Cache-Control'' (rw_header (setCacheHeaders fp v f w)) = ''public, max-age=31536000, immutable''"
  "fp \<noteq> [] \<Longrightarrow> hdrGet ''ETag'' (rw_header (setCacheHeaders fp v f w)) = CHR 0x22 # fp @ [CHR 0x22]"
  "hdrGet ''X-Serve-From'' (rw_header (setCacheHeaders fp v f w)) = f"
  by (simp_all add: setCacheHeaders_def Let_def) (code_simp | simp add: canonKey_def upperChar_def lowerChar_def)+

lemma placedWriter_frame [simp]:
  "rw_status (placedWriter e safe res w) = rw_status w" "rw_body (placedWriter e safe res w) = rw_body w"
  by (simp_all add: placedWriter_def Let_def)

lemma canonKey_literals [simp]:
  "canonKey ''ETag'' = ''Etag''" "canonKey ''Cache-Control'' = ''Cache-Control''"
  "canonKey ''X-Serve-From'' = ''X-Serve-From''" "canonKey ''X-Version'' = ''X-Version''"
  "canonKey ''Content-Type'' = ''Content-Type''" "canonKey ''Content-Length'' = ''Content-Length''"
  "canonKey ''Last-Modified'' = ''Last-Modified''" "canonKey ''Content-Range'' = ''Content-Range''"
  "canonKey ''Accept-Ranges'' = ''Accept-Ranges''" "canonKey ''X-Miss'' = ''X-Miss''"
  "canonKey ''X-Content-Type-Options'' = ''X-Content-Type-Options''" "canonKey ''If-None-Match'' = ''If-None-Match''"
  "canonKey ''Allow'' = ''Allow''" "canonKey ''Range'' = ''Range''"
  by code_simp+

lemma placedWriter_headers:
  "hdrGet ''Cache-Control'' (rw_header (placedWriter e safe res w)) = ''public, max-age=31536000, immutable''"
  "p_fingerprint res \<noteq> [] \<Longrightarrow>
     hdrGet ''ETag'' (rw_header (placedWriter e safe res w)) = CHR 0x22 # p_fingerprint res @ [CHR 0x22]"
  "hdrGet ''X-Serve-From'' (rw_header (placedWriter e safe res w)) = (if p_from_shared res then ''shared'' else ''override'')"
  by (simp_all add: placedWriter_def Let_def setCacheHeaders_get)

text \<open>A request that gets as far as the object store.\<close>

definition placed :: "proxy_handler \<Rightarrow> proxy_env \<Rightarrow> db \<Rightarrow> request \<Rightarrow> string \<Rightarrow> string \<Rightarrow> lookup_cache option \<Rightarrow> string \<Rightarrow> placement \<Rightarrow> bool" where
  "placed h e d r server relPath cache safe res \<longleftrightarrow>
     (rq_method r = ''GET'' \<or> rq_method r = ''HEAD'') \<and> mapGet server (ph_AllowedServers h) \<noteq> None
     \<and> SafeRelPath relPath = Inr safe \<and> fst (resolve e d server safe cache) = Inr res
     \<and> p_found res \<and> p_storage_key res \<noteq> []"

lemma Proxy_placed:
  assumes "placed h e d r server relPath cache safe res"
  shows "po_writer (Proxy_ServeHTTP h e d r server relPath cache w) =
    (if notModified r res then writeHeader 304 (placedWriter e safe res w)
     else if rq_method r = ''HEAD'' then fst (serveHead h e server (p_storage_key res) (placedWriter e safe res w))
     else fst (serveGet h e server (p_storage_key res) (rangeHeaders r) (placedWriter e safe res w)))"
proof -
  obtain c' where "resolve e d server safe cache = (Inr res, c')"
    using assms by (cases "resolve e d server safe cache") (auto simp: placed_def)
  then show ?thesis
    using assms by (auto simp: placed_def Proxy_ServeHTTP_def Let_def case_prod_unfold)
qed

lemma Proxy_refused:
  assumes "rw_status w = None" and "\<And>safe res. \<not> placed h e d r server relPath cache safe res"
  shows "rw_status (po_writer (Proxy_ServeHTTP h e d r server relPath cache w)) \<in> {Some 400, Some 404, Some 405, Some 500}"
proof -
  have set: "rw_status (setHeader k v w) = None" for k v using assms(1) by simp
  have "\<not> p_found res \<or> p_storage_key res = []"
    if "rq_method r = ''GET'' \<or> rq_method r = ''HEAD''" "mapGet server (ph_AllowedServers h) \<noteq> None"
      "SafeRelPath relPath = Inr safe" "resolve e d server safe cache = (Inr res, c)" for safe res c
    using assms(2) [of safe res] that by (auto simp: placed_def)
  then show ?thesis
    using assms(1) set
    by (simp add: Proxy_ServeHTTP_def Let_def case_prod_unfold split: sum.splits) (metis prod.collapse)
qed

lemma serveHead_status:
  "rw_status w = None \<Longrightarrow> rw_status (fst (serveHead h e server key w)) \<in> {Some 200, Some 404, Some 502}"
  "rw_status w = None \<Longrightarrow> rw_status (fst (serveHead h e server key w)) = Some 200 \<Longrightarrow>
     rw_body (fst (serveHead h e server key w)) = rw_body w"
  by (auto simp: serveHead_def Let_def split: sum.splits prod.splits)

lemma serveGet_status:
  assumes "rw_status w = None" and "rw_status (fst (serveGet h e server key hs w)) = Some st" and "st < 400"
  shows "\<exists>resp n. Client_Get (pe_tp e) (ph_Client h) key hs = Inr resp \<and> st = hr_status resp
    \<and> rw_body (fst (serveGet h e server key hs w)) = rw_body w @ take n (hr_body resp)
    \<and> (pe_copied e = None \<longrightarrow> length (hr_body resp) \<le> n)"
proof (cases "Client_Get (pe_tp e) (ph_Client h) key hs")
  case (Inl err)
  with assms show ?thesis by (auto simp: serveGet_def)
next
  case (Inr resp)
  have "hr_status resp \<noteq> 404 \<and> \<not> 400 \<le> hr_status resp"
    using assms Inr by (auto simp: serveGet_def split: if_splits)
  then show ?thesis
    using assms Inr
    by (intro exI [of _ resp] exI [of _ "case pe_copied e of None \<Rightarrow> length (hr_body resp) | Some n \<Rightarrow> n"])
      (auto simp: serveGet_def Let_def split: option.splits if_splits)
qed

text \<open>A small instance: one shared object, a filer that holds it or has lost it.\<close>

definition demo_read_db :: db where
  "demo_read_db = (case InsertAsset no_fault 1 (mkAsset ''jp'' ''bun'' ''a/b.png'' ''1'' ''f1'' False ''/shared-assets/a/b.png'') empty_db of
     Inr d \<Rightarrow> d | Inl _ \<Rightarrow> empty_db)"

definition demo_handler :: proxy_handler where
  "demo_handler = \<lparr>ph_Client = Client_New ''http://f/'', ph_AllowedServers = [(''jp'', ())], ph_Metrics = None\<rparr>"

definition demo_filer :: "nat \<Rightarrow> transport" where
  "demo_filer st = \<lparr>tp_newreq = (\<lambda>_ _. None),
     tp_do = (\<lambda>req. if hq_url req = ''http://f/shared-assets/a/b.png''
        then Inr \<lparr>hr_status = st, hr_status_text = [], hr_header = [], hr_body = ''data'', hr_length = 4\<rparr>
        else Inl ''no route'')\<rparr>"

definition demo_penv :: "nat \<Rightarrow> proxy_env" where
  "demo_penv st = \<lparr>pe_now_get = 5, pe_now_set = 5, pe_sql = no_fault, pe_tp = demo_filer st, pe_mime = (\<lambda>_. []),
     pe_uni = id, pe_copied = None\<rparr>"

definition demo_get :: request where
  "demo_get = \<lparr>rq_method = ''GET'', rq_path = ''/sekai-jp-assets/a/b.png'', rq_escaped = ''/sekai-jp-assets/a/b.png'',
     rq_query = [], rq_header = [], rq_remote = ''1.2.3.4:5''\<rparr>"

definition demo_proxy :: "nat \<Rightarrow> proxy_out" where
  "demo_proxy st = Proxy_ServeHTTP demo_handler (demo_penv st) demo_read_db demo_get ''jp'' ''a/b.png'' None new_writer"

lemma demo_proxy_status: "rw_status (po_writer (demo_proxy 200)) = Some 200" "rw_body (po_writer (demo_proxy 200)) = ''data''"
  by code_simp+

text \<open>C14: Whatever the proxy answers below 400 comes from the placement of the requested path: the
  server is on the whitelist, the path is safe, the placement was found and names a storage
  key; a 304 is only sent on a matching validator, and any other body is what the object store holds under that key, sent with
  the store's status (all of it unless the copy to the client broke off).\<close>

theorem proxy_serves_placement:
  assumes "rw_status (po_writer (Proxy_ServeHTTP h e d r server relPath cache new_writer)) = Some st" and "st < 400"
  shows "\<exists>safe res. placed h e d r server relPath cache safe res
    \<and> (if notModified r res then st = 304 \<and> rw_body (po_writer (Proxy_ServeHTTP h e d r server relPath cache new_writer)) = []
       else if rq_method r = ''HEAD'' then st = 200 \<and> rw_body (po_writer (Proxy_ServeHTTP h e d r server relPath cache new_writer)) = []
       else \<exists>resp n. Client_Get (pe_tp e) (ph_Client h) (p_storage_key res) (rangeHeaders r) = Inr resp \<and> st = hr_status resp
         \<and> rw_body (po_writer (Proxy_ServeHTTP h e d r server relPath cache new_writer)) = take n (hr_body resp)
         \<and> (pe_copied e = None \<longrightarrow> length (hr_body resp) \<le> n))"
proof -
  have nw: "rw_status new_writer = None" "rw_body new_writer = []" by (simp_all add: new_writer_def)
  obtain safe res where pl: "placed h e d r server relPath cache safe res"
    using Proxy_refused [OF nw(1), of h e d r server relPath cache] assms by fastforce
  let ?w = "placedWriter e safe res new_writer"
  have w: "rw_status ?w = None" "rw_body ?w = []" using nw by simp_all
  have "st = 304" if "notModified r res"
    using that assms(1) w(1) by (simp add: Proxy_placed [OF pl])
  moreover have "st = 200 \<and> rw_body (fst (serveHead h e server (p_storage_key res) ?w)) = []"
    if "\<not> notModified r res" "rq_method r = ''HEAD''"
    using that assms serveHead_status [OF w(1), of h e server "p_storage_key res"] w(2)
    by (auto simp: Proxy_placed [OF pl])
  moreover have "\<exists>resp n. Client_Get (pe_tp e) (ph_Client h) (p_storage_key res) (rangeHeaders r) = Inr resp \<and> st = hr_status resp
      \<and> rw_body (fst (serveGet h e server (p_storage_key res) (rangeHeaders r) ?w)) = take n (hr_body resp)
      \<and> (pe_copied e = None \<longrightarrow> length (hr_body resp) \<le> n)"
    if "\<not> notModified r res" "rq_method r \<noteq> ''HEAD''"
    using that serveGet_status [OF w(1) _ assms(2), of h e server "p_storage_key res" "rangeHeaders r"] assms(1) w(2)
    by (simp add: Proxy_placed [OF pl])
  ultimately show ?thesis
    using pl w(2) by (intro exI [of _ safe] exI [of _ res]) (simp add: Proxy_placed [OF pl])
qed

theorem proxy_serves_placement_witness:
  "\<exists>safe res. placed demo_handler (demo_penv 200) demo_read_db demo_get ''jp'' ''a/b.png'' None safe res
     \<and> rw_body (po_writer (demo_proxy 200)) = ''data''"
  using proxy_serves_placement [of demo_handler "demo_penv 200" demo_read_db demo_get "''jp''" "''a/b.png''" None 200]
    demo_proxy_status by (auto simp: demo_proxy_def)

text \<open>C25: Failures of the object store are sent with the headers of a permanent success: when the
  store is unreachable, has lost the object or answers with an error, the client gets a 404 or
  502 whose \<^verbatim>\<open>Cache-Control\<close> still is one year, public and immutable, and whose \<^verbatim>\<open>ETag\<close> is that
  of the missing object, because these headers are set before the store is asked and
  \<^verbatim>\<open>http.Error\<close> does not remove them.\<close>

theorem upstream_failure_cached_for_a_year:
  assumes "placed h e d r server relPath cache safe res" and "\<not> notModified r res" and "p_fingerprint res \<noteq> []"
    and "rq_method r = ''GET''"
    and "case Client_Get (pe_tp e) (ph_Client h) (p_storage_key res) (rangeHeaders r) of
           Inl _ \<Rightarrow> True | Inr resp \<Rightarrow> 400 \<le> hr_status resp"
  shows "rw_status (po_writer (Proxy_ServeHTTP h e d r server relPath cache new_writer)) \<in> {Some 404, Some 502}
    \<and> hdrGet ''Cache-Control'' (rw_header (po_writer (Proxy_ServeHTTP h e d r server relPath cache new_writer)))
        = ''public, max-age=31536000, immutable''
    \<and> hdrGet ''ETag'' (rw_header (po_writer (Proxy_ServeHTTP h e d r server relPath cache new_writer)))
        = CHR 0x22 # p_fingerprint res @ [CHR 0x22]"
proof -
  let ?w = "placedWriter e safe res new_writer"
  have w: "rw_status ?w = None" by (simp add: new_writer_def)
  have "fst (serveGet h e server (p_storage_key res) (rangeHeaders r) ?w)
      \<in> {httpError ''upstream error'' 502 ?w, httpNotFound (setHeader ''X-Miss'' ''upstream'' ?w)}"
    using assms(5) by (auto simp: serveGet_def split: sum.splits)
  then show ?thesis
    using assms(2,3,4) w placedWriter_headers [where e = e and safe = safe and res = res and w = new_writer]
    by (auto simp: Proxy_placed [OF assms(1)] httpNotFound_def httpError_header)
qed

definition demo_placed :: placement where
  "demo_placed = \<lparr>p_found = True, p_from_shared = True, p_fingerprint = ''f1'', p_storage_key = ''/shared-assets/a/b.png'',
     p_sha256 = ''f1'', p_version = ''1'', p_size = 10\<rparr>"

lemma demo_lookup: "LookupPlacement no_fault demo_read_db ''jp'' ''a/b.png'' = Inr demo_placed"
  by code_simp

theorem upstream_failure_cached_for_a_year_witness:
  "hdrGet ''Cache-Control'' (rw_header (po_writer (demo_proxy 503))) = ''public, max-age=31536000, immutable''"
proof -
  have safe: "SafeRelPath ''a/b.png'' = Inr ''a/b.png''" by code_simp
  have "placed demo_handler (demo_penv 503) demo_read_db demo_get ''jp'' ''a/b.png'' None ''a/b.png'' demo_placed"
    using safe by (simp add: placed_def demo_get_def demo_handler_def mapGet_def resolve_defs Let_def Get_def demo_penv_def
        demo_lookup) (simp add: demo_placed_def)
  moreover have "\<not> notModified demo_get demo_placed" by (simp add: notModified_def demo_get_def)
  moreover have "case Client_Get (pe_tp (demo_penv 503)) (ph_Client demo_handler) (p_storage_key demo_placed) (rangeHeaders demo_get) of
       Inl _ \<Rightarrow> True | Inr resp \<Rightarrow> 400 \<le> hr_status resp"
    by code_simp
  ultimately show ?thesis
    using upstream_failure_cached_for_a_year [of demo_handler "demo_penv 503" demo_read_db demo_get "''jp''" "''a/b.png''" None
      "''a/b.png''" demo_placed]
    by (simp add: demo_proxy_def demo_placed_def demo_get_def)
qed

end
