(* ===== verification/Router.thy ===== *)
theory Router
  imports Http
begin

text \<open>
  \<^verbatim>\<open>internal/httpapi/router.go\<close>, \<^verbatim>\<open>cors.go\<close> and \<^verbatim>\<open>ratelimit.go\<close>: the route table of the read port and the
  middleware around it. A handler maps a request, the response writer and a server state to the
  new writer and state; the state type is left open here and fixed in theory Gateway.
  The token bucket of \<^verbatim>\<open>golang.org/x/time/rate\<close> is outside the repository: \<open>rl_new\<close> is a fresh bucket
  and \<open>rl_allow\<close> takes a token at a time, if there is one.
\<close>

section \<open>Definitions\<close>

type_synonym 's handler = "request \<Rightarrow> writer \<times> 's \<Rightarrow> writer \<times> 's"

subsection \<open>router.go\<close>

definition isLower :: "char \<Rightarrow> bool" where
  "isLower c \<longleftrightarrow> CHR ''a'' \<le> c \<and> c \<le> CHR ''z''"

definition parseSekaiPath :: "string \<Rightarrow> (string \<times> string) option" where
  "parseSekaiPath p =
     (if \<not> hasPrefix p ''/sekai-'' then None
      else
        let rest = drop (length ''/sekai-'') p
        in case strIndex rest ''-assets/'' of
             None \<Rightarrow> None
           | Some slash \<Rightarrow>
               if slash = 0 then None
               else
                 let server = take slash rest; rel = drop (slash + length ''-assets/'') rest
                 in if rel = [] then None
                    else if \<not> list_all isLower server then None
                    else Some (server, rel))"

text \<open>\<^verbatim>\<open>http.ServeMux\<close>: \<open>cleanPath\<close> decides on a redirect to the canonical path; a pattern without a
  trailing slash matches exactly, segment by segment after unescaping, and \<^verbatim>\<open>/\<close> matches the
  rest.\<close>

definition cleanPath :: "string \<Rightarrow> string" where
  "cleanPath p0 =
     (if p0 = [] then ''/''
      else
        let p = (if hasPrefix p0 ''/'' then p0 else ''/'' @ p0); np = pathClean p
        in if hasSuffix p ''/'' \<and> np \<noteq> ''/'' then np @ ''/'' else np)"

definition unescapeSeg :: "string \<Rightarrow> string" where
  "unescapeSeg s = (case pathUnescape s of None \<Rightarrow> s | Some t \<Rightarrow> t)"

definition muxMatch :: "string \<Rightarrow> request \<Rightarrow> bool" where
  "muxMatch pattern r \<longleftrightarrow> map unescapeSeg (strSplit CHR ''/'' (rq_escaped r)) = strSplit CHR ''/'' pattern"

definition redirectTo :: "string \<Rightarrow> 's handler" where
  "redirectTo url r ws = (writeHeader 301 (setHeader ''Location'' url (fst ws)), snd ws)"

record 's router =
  rt_Proxy :: "string \<Rightarrow> string \<Rightarrow> 's handler"
  rt_Browser :: "'s handler option"
  rt_Bundles :: "'s handler option"
  rt_Versions :: "'s handler option"
  rt_Metrics :: "'s handler option"

definition healthz :: "'s handler" where
  "healthz r ws = (writeBody (''ok'' @ [CHR 0x0A]) (setHeader ''Content-Type'' ''text/plain; charset=utf-8'' (fst ws)), snd ws)"

text \<open>The registered exact routes, in the order of the calls.\<close>

definition routes :: "'s router \<Rightarrow> (string \<times> 's handler) list" where
  "routes rt =
     [(''/healthz'', healthz)]
     @ (case rt_Metrics rt of None \<Rightarrow> [] | Some h \<Rightarrow> [(''/metrics'', h)])
     @ (case rt_Browser rt of None \<Rightarrow> [] | Some h \<Rightarrow> [(''/api/assets/browse'', h)])
     @ (case rt_Bundles rt of None \<Rightarrow> [] | Some h \<Rightarrow> [(''/api/assets/bundles'', h), (''/api/assets/bundle-files'', h)])
     @ (case rt_Versions rt of None \<Rightarrow> []
        | Some h \<Rightarrow> [(''/api/assets/versions'', h), (''/api/assets/diff'', h), (''/api/assets/bundle-diffs'', h),
                    (''/api/assets/bundle-diff-files'', h)])"

definition sekaiRoute :: "'s router \<Rightarrow> 's handler" where
  "sekaiRoute rt r ws =
     (case parseSekaiPath (rq_path r) of
        None \<Rightarrow> (httpNotFound (fst ws), snd ws)
      | Some (server, rel) \<Rightarrow> rt_Proxy rt server rel r ws)"

definition mux :: "'s router \<Rightarrow> 's handler" where
  "mux rt r ws =
     (let path = cleanPath (rq_escaped r)
      in if rq_method r \<noteq> ''CONNECT'' \<and> path \<noteq> rq_escaped r then redirectTo path r ws
         else case find (\<lambda>route. muxMatch (fst route) r) (routes rt) of
                Some route \<Rightarrow> snd route r ws
              | None \<Rightarrow> sekaiRoute rt r ws)"

subsection \<open>ratelimit.go\<close>

record 'l rate_ops =
  rl_new :: 'l
  rl_allow :: "int \<Rightarrow> 'l \<Rightarrow> bool \<times> 'l"

text \<open>\<open>rl_off\<close> is the outcome of \<^verbatim>\<open>float64(l.rps) <= 0\<close>.\<close>

record 'l ip_limiter =
  rl_off :: bool
  rl_seen :: "(string \<times> 'l) list"
  rl_lastGC :: int

definition NewIPRateLimiter :: "bool \<Rightarrow> int \<Rightarrow> 'l ip_limiter" where
  "NewIPRateLimiter off now = \<lparr>rl_off = off, rl_seen = [], rl_lastGC = now\<rparr>"

definition minute :: int where
  "minute = 60 * 1000000000"

text \<open>\<open>getter\<close>: the bucket of one address, and the limiter after it; \<open>now\<close> is read when the map has
  grown.\<close>

definition getter :: "'l rate_ops \<Rightarrow> int \<Rightarrow> string \<Rightarrow> 'l ip_limiter \<Rightarrow> 'l \<times> 'l ip_limiter" where
  "getter ops now ip l =
     (case mapGet ip (rl_seen l) of
        Some lim \<Rightarrow> (lim, l)
      | None \<Rightarrow>
          let lim = rl_new ops; seen = mapSet ip lim (rl_seen l)
          in if 16384 < length seen \<and> minute < now - rl_lastGC l
             then (lim, l\<lparr>rl_seen := mapSet ip lim [], rl_lastGC := now\<rparr>)
             else (lim, l\<lparr>rl_seen := seen\<rparr>))"

text \<open>\<^verbatim>\<open>net.SplitHostPort\<close>: the host, or \<open>None\<close> for an error.\<close>

definition splitHostPort :: "string \<Rightarrow> string option" where
  "splitHostPort hp =
     (if CHR '':'' \<notin> set hp then None
      else
        let i = length hp - 1 - length (takeWhile (\<lambda>c. c \<noteq> CHR '':'') (rev hp))
        in if hasPrefix hp ''['' then
             (if CHR '']'' \<notin> set hp then None
              else
                let e = length (takeWhile (\<lambda>c. c \<noteq> CHR '']'') hp)
                in if e + 1 \<noteq> i then None
                   else if CHR ''['' \<in> set (drop 1 hp) \<or> CHR '']'' \<in> set (drop (e + 1) hp) then None
                   else Some (take (e - 1) (drop 1 hp)))
           else if CHR '':'' \<in> set (take i hp) then None
           else if CHR ''['' \<in> set hp \<or> CHR '']'' \<in> set hp then None
           else Some (take i hp))"

fun trimSpaceLeft :: "string \<Rightarrow> string" where
  "trimSpaceLeft [] = []"
| "trimSpaceLeft (c # s) = (if c = CHR '' '' \<or> c = CHR 0x09 then trimSpaceLeft s else c # s)"

definition trimSpace :: "string \<Rightarrow> string" where
  "trimSpace s = rev (trimSpaceLeft (rev (trimSpaceLeft s)))"

definition clientIP :: "request \<Rightarrow> string" where
  "clientIP r =
     (let xff = hdrGet ''X-Forwarded-For'' (rq_header r)
      in if xff \<noteq> [] then trimSpace (takeWhile (\<lambda>c. c \<noteq> CHR '','') xff)
         else case splitHostPort (rq_remote r) of None \<Rightarrow> rq_remote r | Some host \<Rightarrow> host)"

text \<open>The middleware; the limiter is part of the state through \<open>lget\<close> and \<open>lput\<close>, and \<open>now\<close> is the
  clock of the request.\<close>

definition Middleware ::
    "'l rate_ops \<Rightarrow> int \<Rightarrow> ('s \<Rightarrow> 'l ip_limiter) \<Rightarrow> ('l ip_limiter \<Rightarrow> 's \<Rightarrow> 's) \<Rightarrow> 's handler \<Rightarrow> 's handler" where
  "Middleware ops now lget lput next r ws =
     (if rl_off (lget (snd ws)) then next r ws
      else
        let ip = clientIP r;
            (lim, l) = getter ops now ip (lget (snd ws));
            (ok, lim) = rl_allow ops now lim;
            st = lput (l\<lparr>rl_seen := mapSet ip lim (rl_seen l)\<rparr>) (snd ws)
        in if \<not> ok
           then (httpError ''rate limit exceeded'' 429 (setHeader ''Retry-After'' ''1'' (fst ws)), st)
           else next r (fst ws, st))"

subsection \<open>cors.go\<close>

definition addHeader :: "string \<Rightarrow> string \<Rightarrow> writer \<Rightarrow> writer" where
  "addHeader k v w = w\<lparr>rw_header := hdrAdd k v (rw_header w)\<rparr>"

definition withCORS :: "'s handler \<Rightarrow> 's handler" where
  "withCORS h r ws =
     (let w = setHeader ''Access-Control-Allow-Origin'' ''*'' (fst ws);
          w = setHeader ''Access-Control-Expose-Headers''
                ''ETag, Content-Length, Content-Range, Accept-Ranges, X-Serve-From, X-Version, X-Miss'' w;
          w = addHeader ''Vary'' ''Origin'' w
      in if rq_method r = ''OPTIONS'' then
           (let w = (if hdrGet ''Access-Control-Request-Method'' (rq_header r) \<noteq> []
                     then setHeader ''Access-Control-Allow-Methods'' ''GET, HEAD, OPTIONS'' w else w);
                reqHeaders = hdrGet ''Access-Control-Request-Headers'' (rq_header r);
                w = (if reqHeaders \<noteq> [] then setHeader ''Access-Control-Allow-Headers'' reqHeaders w else w);
                w = setHeader ''Access-Control-Max-Age'' ''86400'' w
            in (writeHeader 204 w, snd ws))
         else h r (w, snd ws))"

definition withAccessLog :: "'s handler \<Rightarrow> 's handler" where
  "withAccessLog h = h"

text \<open>\<open>Router.Handler\<close>: routes, then the limiter if there is one, then CORS.\<close>

definition Router_Handler ::
    "('l rate_ops \<times> int \<times> ('s \<Rightarrow> 'l ip_limiter) \<times> ('l ip_limiter \<Rightarrow> 's \<Rightarrow> 's)) option \<Rightarrow> 's router \<Rightarrow> 's handler" where
  "Router_Handler limiter rt =
     (let h = mux rt;
          h = (case limiter of None \<Rightarrow> h | Some (ops, now, lget, lput) \<Rightarrow> Middleware ops now lget lput h)
      in withAccessLog (withCORS h))"

section \<open>Routing facts\<close>

lemma strIndex_SomeD: "strIndex s sub = Some i \<Longrightarrow> s = take i s @ sub @ drop (i + length sub) s"
proof (induction s sub arbitrary: i rule: strIndex.induct)
  case (2 c s sub)
  show ?case
  proof (cases "hasPrefix (c # s) sub")
    case True
    with 2(2) have "i = 0" by simp
    with True show ?thesis by (auto simp: hasPrefix_iff)
  next
    case False
    with 2(2) obtain j where "strIndex s sub = Some j" "i = Suc j" by auto
    with 2(1) [OF False] show ?thesis by (simp add: append_eq_Cons_conv)
  qed
qed (auto split: if_splits)

lemma strIndex_fresh:
  "x \<notin> set s \<Longrightarrow> strIndex (s @ (x # sub) @ r) (x # sub) = Some (length s)"
proof (induction s)
  case Nil
  have "hasPrefix ((x # sub) @ r) (x # sub)" by (rule hasPrefix_append)
  then show ?case by simp
next
  case (Cons c s)
  then show ?case by auto
qed

lemma isLower_no_dash: "list_all isLower s \<Longrightarrow> CHR ''-'' \<notin> set s"
  by (auto simp: list_all_iff isLower_def less_eq_char_def)

lemma isLower_no_NUL: "list_all isLower s \<Longrightarrow> CHR 0x00 \<notin> set s"
  by (auto simp: list_all_iff isLower_def less_eq_char_def)

lemma parseSekaiPath_iff:
  "parseSekaiPath p = Some (server, rel) \<longleftrightarrow>
     p = ''/sekai-'' @ server @ ''-assets/'' @ rel \<and> server \<noteq> [] \<and> list_all isLower server \<and> rel \<noteq> []"
proof
  assume h: "parseSekaiPath p = Some (server, rel)"
  then obtain rest where p: "p = ''/sekai-'' @ rest"
    by (auto simp: parseSekaiPath_def hasPrefix_iff split: if_splits)
  with h obtain i where i: "strIndex rest ''-assets/'' = Some i" "i \<noteq> 0" "server = take i rest"
    "rel = drop (i + length ''-assets/'') rest" "rel \<noteq> []" "list_all isLower server"
    by (auto simp: parseSekaiPath_def Let_def split: option.splits if_splits)
  have "rest = server @ ''-assets/'' @ rel" using strIndex_SomeD [OF i(1)] i(3,4) by simp
  moreover have "server \<noteq> []"
  proof
    assume "server = []"
    with i(2,3) have "rest = []" by simp
    with i(1) show False by simp
  qed
  ultimately show "p = ''/sekai-'' @ server @ ''-assets/'' @ rel \<and> server \<noteq> [] \<and> list_all isLower server \<and> rel \<noteq> []"
    using p i(5,6) by simp
next
  assume h: "p = ''/sekai-'' @ server @ ''-assets/'' @ rel \<and> server \<noteq> [] \<and> list_all isLower server \<and> rel \<noteq> []"
  then have i: "strIndex (server @ ''-assets/'' @ rel) ''-assets/'' = Some (length server)"
    using strIndex_fresh [of "CHR ''-''" server "''assets/''" rel] isLower_no_dash by simp
  have "hasPrefix p ''/sekai-''" using h by (simp add: hasPrefix_iff)
  moreover have "drop (length ''/sekai-'') p = server @ ''-assets/'' @ rel" using h by simp
  ultimately show "parseSekaiPath p = Some (server, rel)"
    using h i by (simp add: parseSekaiPath_def Let_def)
qed

lemma canonKey_cors [simp]:
  "canonKey ''Access-Control-Allow-Origin'' = ''Access-Control-Allow-Origin''"
  "canonKey ''Access-Control-Expose-Headers'' = ''Access-Control-Expose-Headers''"
  "canonKey ''Access-Control-Allow-Methods'' = ''Access-Control-Allow-Methods''"
  "canonKey ''Access-Control-Allow-Headers'' = ''Access-Control-Allow-Headers''"
  "canonKey ''Access-Control-Max-Age'' = ''Access-Control-Max-Age''" "canonKey ''Vary'' = ''Vary''"
  "canonKey ''Retry-After'' = ''Retry-After''"
  by code_simp+

text \<open>A preflight request is answered by the outermost layer and touches nothing.\<close>

lemma preflight_answer:
  assumes "rq_method r = ''OPTIONS''" and "rw_status w = None"
  shows "rw_status (fst (Router_Handler lim rt r (w, st))) = Some 204" "snd (Router_Handler lim rt r (w, st)) = st"
    "hdrGet ''Access-Control-Allow-Origin'' (rw_header (fst (Router_Handler lim rt r (w, st)))) = ''*''"
  using assms by (simp_all add: Router_Handler_def withAccessLog_def withCORS_def addHeader_def Let_def)

section \<open>Rate limiting\<close>

lemma getter_seen:
  assumes "getter ops now ip l = (lim, l')"
  shows "mapGet ip (rl_seen l') = Some lim" and "rl_off l' = rl_off l"
  using assms by (auto simp: getter_def Let_def split: option.splits if_splits)

lemma getter_keeps:
  assumes "getter ops now ip l = (lim, l')" and "ip' \<noteq> ip"
  shows "mapGet ip' (rl_seen l') = mapGet ip' (rl_seen l) \<or> (length (rl_seen l') = 1 \<and> minute < now - rl_lastGC l)"
  using assms by (auto simp: getter_def Let_def length_mapSet split: option.splits if_splits)

text \<open>The middleware lets a request through exactly when its address has a token; otherwise the
  wrapped handler does not run.\<close>

lemma Middleware_decides:
  assumes "\<not> rl_off (lget st)" and "\<And>l s. lget (lput l s) = l" and "getter ops now (clientIP r) (lget st) = (lim, l)"
  shows "Middleware ops now lget lput next r (w, st) =
    (if fst (rl_allow ops now lim)
     then next r (w, lput (l\<lparr>rl_seen := mapSet (clientIP r) (snd (rl_allow ops now lim)) (rl_seen l)\<rparr>) st)
     else (httpError ''rate limit exceeded'' 429 (setHeader ''Retry-After'' ''1'' w),
           lput (l\<lparr>rl_seen := mapSet (clientIP r) (snd (rl_allow ops now lim)) (rl_seen l)\<rparr>) st))"
  using assms by (simp add: Middleware_def Let_def case_prod_unfold)

end
