(* ===== verification/Gateway.thy ===== *)
theory Gateway
  imports Commit Proxy Router
begin

text \<open>
  The ingest side and the read side together, as \<^verbatim>\<open>cmd/gateway/main.go\<close> wires them: HIP sessions change the
  database and hand the changed paths to the lookup cache that the HTTP proxy reads through.
  The step relation \<open>gw_step\<close> interleaves whole proxy requests and whole frames of any session; under
  this serialisation the cache never contradicts the database. The Go code does not serialise
  a request with a commit; the relation \<open>ig_step\<close> interleaves the single accesses of a request
  (cache, database, cache again) with those of a commit (transaction, then invalidation). Then every answer
  was right at some moment, but a stale entry can be left behind.
\<close>

section \<open>What a frame does to the cache\<close>

definition applyInvalidations :: "string list list \<Rightarrow> lookup_cache option \<Rightarrow> lookup_cache option" where
  "applyInvalidations pss c = foldl (\<lambda>c ps. InvalidatePaths ps c) c pss"

text \<open>One step of the gateway on database and cache.\<close>

inductive gw_step :: "config \<Rightarrow> codec \<Rightarrow> db \<times> lookup_cache option \<Rightarrow> db \<times> lookup_cache option \<Rightarrow> bool"
  for cfg :: config and cd :: codec where
  step_request: "parseSekaiPath (rq_path r) = Some (server, rel) \<Longrightarrow>
     gw_step cfg cd (d, c) (d, po_cache (Proxy_ServeHTTP h e d r server rel c w))"
| step_frame: "session_run cfg cd tr s \<Longrightarrow> fair_env e \<Longrightarrow> dispatch cfg cd e f s w = (out, s', w') \<Longrightarrow> w_invalidated w = []
     \<Longrightarrow> gw_step cfg cd (w_db w, c) (w_db w', applyInvalidations (w_invalidated w') c)"

lemma frame_invalidates:
  assumes "session_run cfg cd tr s" and "fair_env e" and "dispatch cfg cd e f s w = (out, s', w')" and "cfg_has_cache cfg"
    and "w_invalidated w = []"
  shows "(w_db w' = w_db w \<and> w_invalidated w' = []) \<or> (\<exists>ps. w_invalidated w' = [ps] \<and>
    (\<forall>server path. path \<noteq> [] \<longrightarrow> LookupPlacement no_fault (w_db w') server path \<noteq> LookupPlacement no_fault (w_db w) server path
        \<longrightarrow> path \<in> set ps))
    \<or> (w_invalidated w' = [] \<and> (\<forall>server path. path \<noteq> [] \<longrightarrow>
         LookupPlacement no_fault (w_db w') server path = LookupPlacement no_fault (w_db w) server path))"
proof -
  have inv: "session_inv cfg s" by (rule session_run_inv [OF assms(1)])
  show ?thesis
  proof (cases "w_db w' = w_db w \<and> w_invalidated w' = w_invalidated w")
    case True
    with assms(5) show ?thesis by simp
  next
    case False
    then have fc: "f_type f = FrameCommit" "se_state s = stateHandshaked \<or> se_state s = stateRunning"
      using dispatch_effects(1) [OF assms(3) inv] by blast+
    have ok: "active_ok cfg (s\<lparr>se_state := stateCommitting\<rparr>)"
      using session_inv_active [OF inv fc(2)] by simp
    have "handleCommit cfg cd e (f_payload f) (s\<lparr>se_state := stateCommitting\<rparr>) w = (out, s', w')"
      using assms(3) by (simp add: dispatch_commit [OF fc])
    then show ?thesis
    proof (cases rule: handleCommit_cases)
      case stopped
      with assms(5) show ?thesis by simp
    next
      case (committed c vid d changed)
      have same: "LookupPlacement no_fault d server path = LookupPlacement no_fault (w_db w) server path"
        if "path \<noteq> []" "path \<notin> set changed" for server path
        using commit_unchanged_paths [OF committed(3) ok assms(2) that] .
      show ?thesis
      proof (cases "changed = []")
        case True
        then show ?thesis using committed(5,7) assms(5) same by simp
      next
        case False
        then have "w_invalidated w' = [sortedPathKeys changed]"
          using committed(7) assms(4,5) by simp
        moreover have "path \<in> set (sortedPathKeys changed)"
          if "path \<noteq> []" "LookupPlacement no_fault d server path \<noteq> LookupPlacement no_fault (w_db w) server path" for server path
          using that same by (auto simp: sortedPathKeys_def)
        ultimately show ?thesis using committed(5) by blast
      qed
    qed
  qed
qed

section \<open>Coherence\<close>

definition proxyKeys :: "lookup_entry set \<Rightarrow> bool" where
  "proxyKeys es \<longleftrightarrow> (\<forall>e \<in> es. \<exists>server safe. e_key e = cacheKeyOf server safe \<and> CHR 0x00 \<notin> set server \<and> safe \<noteq> [])"

definition coherent :: "db \<times> lookup_cache option \<Rightarrow> bool" where
  "coherent st \<longleftrightarrow> cache_ok (snd st) \<and> agrees (truthOf (fst st)) (cache_entries (snd st)) \<and> proxyKeys (cache_entries (snd st))"

lemma resolve_keys:
  assumes "cache_ok c" and "proxyKeys (cache_entries c)" and "CHR 0x00 \<notin> set server" and "safe \<noteq> []"
  shows "proxyKeys (cache_entries (snd (resolve e d server safe c)))"
proof -
  let ?k = "cacheKeyOf server safe"
  obtain hit c1 where g: "Get (pe_now_get e) ?k c = (hit, c1)" by (cases "Get (pe_now_get e) ?k c")
  have c1: "cache_ok c1" "proxyKeys (cache_entries c1)"
    using gateway_cache.get_inv [OF assms(1), of "pe_now_get e" ?k] gateway_cache.get_entries [OF assms(1), of "pe_now_get e" ?k]
      assms(2) by (auto simp: g proxyKeys_def)
  have "proxyKeys (cache_entries (Set now ?k v c1))" for now v
    using c1(2) gateway_cache.put_entries [OF c1(1)] assms(3,4) by (fastforce simp: proxyKeys_def)
  with c1 g show ?thesis
    by (auto simp: resolve_defs Let_def split: option.splits sum.splits)
qed

lemma safe_nonempty: "SafeRelPath p = Inr safe \<Longrightarrow> safe \<noteq> []"
  by (auto simp: SafeRelPath_def split: if_splits)

lemma request_coherent:
  assumes "coherent (d, c)" and "parseSekaiPath (rq_path r) = Some (server, rel)"
  shows "coherent (d, po_cache (Proxy_ServeHTTP h e d r server rel c w))"
proof -
  have nul: "CHR 0x00 \<notin> set server" using assms(2) isLower_no_NUL by (simp add: parseSekaiPath_iff)
  have "coherent (d, snd (resolve e d server safe c))" if "SafeRelPath rel = Inr safe" for safe
    using assms(1) resolve_coherent(1,2) [of c d server e safe "fst (resolve e d server safe c)" "snd (resolve e d server safe c)"]
      resolve_keys [of c server safe e d] safe_nonempty [OF that] nul
    by (simp add: coherent_def)
  then show ?thesis
    using Proxy_cache [of h e d r server rel c w] assms(1) by auto
qed

lemma truthOf_unchanged:
  assumes "LookupPlacement no_fault d' server safe = LookupPlacement no_fault d server safe" and "CHR 0x00 \<notin> set server"
  shows "truthOf d' (cacheKeyOf server safe) = truthOf d (cacheKeyOf server safe)"
  using assms truthOf_cacheKey [of server d safe] truthOf_cacheKey [of server d' safe] by simp

lemma invalidate_coherent:
  assumes "coherent (d, c)"
    and "\<And>server path. path \<noteq> [] \<Longrightarrow> LookupPlacement no_fault d' server path \<noteq> LookupPlacement no_fault d server path \<Longrightarrow> path \<in> set ps"
  shows "coherent (d', InvalidatePaths ps c)"
proof -
  have c: "cache_ok c" "agrees (truthOf d) (cache_entries c)" "proxyKeys (cache_entries c)"
    using assms(1) by (simp_all add: coherent_def)
  have "agrees (truthOf d') (cache_entries (InvalidatePaths ps c))"
  proof (rule gateway_cache.drop_agrees [OF c(1,2)])
    fix e
    assume e: "e \<in> cache_entries c" and ne: "truthOf d' (e_key e) \<noteq> truthOf d (e_key e)"
    from e c(3) obtain server safe where k: "e_key e = cacheKeyOf server safe" "CHR 0x00 \<notin> set server" "safe \<noteq> []"
      by (auto simp: proxyKeys_def)
    with ne truthOf_unchanged [of d' server safe d] have "safe \<in> set ps"
      using assms(2) by metis
    then show "\<exists>p. keyPath (e_key e) = Some p \<and> p \<noteq> [] \<and> p \<in> set ps"
      using k by (simp add: keyPath_cacheKey)
  qed
  then show ?thesis
    using c gateway_cache.drop_inv [OF c(1), of ps] gateway_cache.drop_entries [OF c(1), of ps]
    by (auto simp: coherent_def proxyKeys_def)
qed

lemma unchanged_coherent:
  assumes "coherent (d, c)"
    and "\<And>server path. path \<noteq> [] \<Longrightarrow> LookupPlacement no_fault d' server path = LookupPlacement no_fault d server path"
  shows "coherent (d', c)"
proof -
  have "agrees (truthOf d') (cache_entries c)"
    unfolding agrees_def
  proof
    fix e
    assume e: "e \<in> cache_entries c"
    with assms(1) obtain server safe where k: "e_key e = cacheKeyOf server safe" "CHR 0x00 \<notin> set server" "safe \<noteq> []"
      by (auto simp: coherent_def proxyKeys_def)
    have "truthOf d' (e_key e) = truthOf d (e_key e)"
      using truthOf_unchanged [OF assms(2) [OF k(3)] k(2)] k(1) by simp
    with e assms(1) show "e_value e = truthOf d' (e_key e)" by (simp add: coherent_def agrees_def)
  qed
  with assms(1) show ?thesis by (simp add: coherent_def)
qed

lemma gw_step_coherent:
  assumes "gw_step cfg cd st st'" and "cfg_has_cache cfg" and "coherent st"
  shows "coherent st'"
  using assms(1)
proof cases
  case step_request
  with assms(3) request_coherent show ?thesis by simp
next
  case (step_frame tr s e f w out s' w' c)
  have coh: "coherent (w_db w, c)" using assms(3) step_frame(1) by simp
  consider (same) "w_db w' = w_db w" "w_invalidated w' = []"
    | (some) ps where "w_invalidated w' = [ps]"
        "\<And>server path. path \<noteq> [] \<Longrightarrow> LookupPlacement no_fault (w_db w') server path \<noteq> LookupPlacement no_fault (w_db w) server path \<Longrightarrow> path \<in> set ps"
    | (none) "w_invalidated w' = []"
        "\<And>server path. path \<noteq> [] \<Longrightarrow> LookupPlacement no_fault (w_db w') server path = LookupPlacement no_fault (w_db w) server path"
    using frame_invalidates [OF step_frame(3,4,5) assms(2) step_frame(6)] by blast
  then show ?thesis
    using step_frame(2) coh invalidate_coherent [OF coh] unchanged_coherent [OF coh]
    by cases (simp_all add: applyInvalidations_def)
qed

section \<open>Properties\<close>

text \<open>C12: Serialised, the gateway never serves a stale placement: after any sequence of proxy requests and of
  frames of any sessions, starting from an empty cache, the placement a request is resolved to
  (from the cache or from the database) is the one the database now gives.\<close>

theorem gateway_cache_coherent:
  assumes "cfg_has_cache cfg" and "(gw_step cfg cd)\<^sup>*\<^sup>* (d0, NewLookupCache n ttl) (d, c)"
    and "parseSekaiPath (rq_path r) = Some (server, rel)" and "SafeRelPath rel = Inr safe"
    and "fst (resolve e d server safe c) = Inr res"
  shows "LookupPlacement no_fault d server safe = Inr res"
proof -
  have init: "coherent (d0, NewLookupCache n ttl)"
    by (cases "NewLookupCache n ttl")
      (auto simp: coherent_def cache_ok_def cache_entries_def agrees_def proxyKeys_def dest!: NewLookupCache_inv)
  have "coherent (d, c)"
    using assms(2) by (induction rule: rtranclp_induct) (auto intro: init gw_step_coherent assms(1))
  moreover have "CHR 0x00 \<notin> set server" using assms(3) isLower_no_NUL by (simp add: parseSekaiPath_iff)
  moreover obtain c2 where "resolve e d server safe c = (Inr res, c2)"
    using assms(5) by (cases "resolve e d server safe c") auto
  ultimately show ?thesis
    using resolve_coherent(3) [of c d server e safe "Inr res" c2 res] by (simp add: coherent_def)
qed

theorem gateway_cache_coherent_witness:
  "LookupPlacement no_fault demo_read_db ''jp'' ''a/b.png'' = Inr demo_placed
   \<and> fst (resolve (demo_penv 200) demo_read_db ''jp'' ''a/b.png''
       (po_cache (Proxy_ServeHTTP demo_handler (demo_penv 200) demo_read_db demo_get ''jp'' ''a/b.png'' (NewLookupCache 2 10) new_writer)))
     = Inr demo_placed"
proof -
  let ?c = "po_cache (Proxy_ServeHTTP demo_handler (demo_penv 200) demo_read_db demo_get ''jp'' ''a/b.png'' (NewLookupCache 2 10) new_writer)"
  have parse: "parseSekaiPath (rq_path demo_get) = Some (''jp'', ''a/b.png'')" by code_simp
  have "gw_step demo_cfg demo_codec (demo_read_db, NewLookupCache 2 10) (demo_read_db, ?c)"
    by (rule step_request [OF parse])
  then have run: "(gw_step demo_cfg demo_codec)\<^sup>*\<^sup>* (demo_read_db, NewLookupCache 2 10) (demo_read_db, ?c)" by blast
  have safe: "SafeRelPath ''a/b.png'' = Inr ''a/b.png''" by code_simp
  have res: "fst (resolve (demo_penv 200) demo_read_db ''jp'' ''a/b.png'' ?c) = Inr demo_placed" by code_simp
  have "cfg_has_cache demo_cfg" by (simp add: demo_cfg_def)
  from gateway_cache_coherent [OF this run parse safe res] res show ?thesis by simp
qed

section \<open>Interleaved accesses\<close>

text \<open>Requests in flight are between their cache miss and their fill: \<open>None\<close> before the database was asked, \<open>Some\<close> with its answer.
  \<open>ig_pending\<close> are the invalidations of transactions that have committed; \<open>ig_past\<close> is a ghost, the databases there have been.\<close>

record igateway =
  ig_db :: db
  ig_cache :: "lookup_cache option"
  ig_requests :: "(string \<times> string \<times> placement option) list"
  ig_pending :: "string list list"
  ig_past :: "db set"


inductive ig_step :: "config \<Rightarrow> codec \<Rightarrow> igateway \<Rightarrow> igateway \<Rightarrow> bool" for cfg :: config and cd :: codec where
  ig_hit: "parseSekaiPath url = Some (server, rel) \<Longrightarrow> SafeRelPath rel = Inr safe
    \<Longrightarrow> resolveGet e server safe (ig_cache g) = (Some res, c) \<Longrightarrow> ig_step cfg cd g (g\<lparr>ig_cache := c\<rparr>)"
| ig_miss: "parseSekaiPath url = Some (server, rel) \<Longrightarrow> SafeRelPath rel = Inr safe
    \<Longrightarrow> resolveGet e server safe (ig_cache g) = (None, c)
    \<Longrightarrow> ig_step cfg cd g (g\<lparr>ig_cache := c, ig_requests := ig_requests g @ [(server, safe, None)]\<rparr>)"
| ig_lookup: "ig_requests g = rs @ (server, safe, None) # rs' \<Longrightarrow> resolveLookup e (ig_db g) server safe = Inr res
    \<Longrightarrow> ig_step cfg cd g (g\<lparr>ig_requests := rs @ (server, safe, Some res) # rs'\<rparr>)"
| ig_error: "ig_requests g = rs @ (server, safe, None) # rs' \<Longrightarrow> resolveLookup e (ig_db g) server safe = Inl err
    \<Longrightarrow> ig_step cfg cd g (g\<lparr>ig_requests := rs @ rs'\<rparr>)"
| ig_fill: "ig_requests g = rs @ (server, safe, Some res) # rs'
    \<Longrightarrow> ig_step cfg cd g (g\<lparr>ig_cache := resolveSet e server safe res (ig_cache g), ig_requests := rs @ rs'\<rparr>)"
| ig_frame: "session_run cfg cd tr s \<Longrightarrow> fair_env e \<Longrightarrow> w_db w = ig_db g \<Longrightarrow> w_invalidated w = [] \<Longrightarrow> dispatch cfg cd e f s w = (out, s', w')
    \<Longrightarrow> ig_step cfg cd g (g\<lparr>ig_db := w_db w', ig_pending := ig_pending g @ w_invalidated w', ig_past := insert (w_db w') (ig_past g)\<rparr>)"
| ig_invalidate: "ig_pending g = ps # pss \<Longrightarrow> ig_step cfg cd g (g\<lparr>ig_cache := InvalidatePaths ps (ig_cache g), ig_pending := pss\<rparr>)"

text \<open>A request whose three accesses are not interrupted does what \<open>resolve\<close> does.\<close>

lemma ig_uninterrupted:
  assumes "parseSekaiPath url = Some (server, rel)" and "SafeRelPath rel = Inr safe"
  shows "(ig_step cfg cd)\<^sup>*\<^sup>* g (g\<lparr>ig_cache := snd (resolve e (ig_db g) server safe (ig_cache g))\<rparr>)"
proof -
  obtain hit c where g: "resolveGet e server safe (ig_cache g) = (hit, c)" by (cases "resolveGet e server safe (ig_cache g)")
  let ?g1 = "g\<lparr>ig_cache := c, ig_requests := ig_requests g @ [(server, safe, None)]\<rparr>"
  show ?thesis
  proof (cases hit)
    case (Some res)
    have "ig_step cfg cd g (g\<lparr>ig_cache := c\<rparr>)" by (rule ig_hit [OF assms g [unfolded Some]])
    then show ?thesis by (auto simp: resolve_def g Some)
  next
    case None
    have miss: "ig_step cfg cd g ?g1" by (rule ig_miss [OF assms g [unfolded None]])
    show ?thesis
    proof (cases "resolveLookup e (ig_db g) server safe")
      case (Inl err)
      have "ig_step cfg cd ?g1 (?g1\<lparr>ig_requests := ig_requests g @ []\<rparr>)" by (rule ig_error [where server = server and safe = safe and e = e and err = err]) (simp_all add: Inl)
      then have "ig_step cfg cd ?g1 (g\<lparr>ig_cache := c\<rparr>)" by simp
      with miss show ?thesis by (auto simp: resolve_def g None Inl)
    next
      case (Inr res)
      let ?g2 = "?g1\<lparr>ig_requests := ig_requests g @ [(server, safe, Some res)]\<rparr>"
      have "ig_step cfg cd ?g1 ?g2" by (rule ig_lookup [where e = e]) (simp_all add: Inr)
      moreover have "ig_step cfg cd ?g2 (?g2\<lparr>ig_cache := resolveSet e server safe res (ig_cache ?g2), ig_requests := ig_requests g @ []\<rparr>)"
        by (rule ig_fill) simp
      then have "ig_step cfg cd ?g2 (g\<lparr>ig_cache := resolveSet e server safe res c\<rparr>)" by simp
      ultimately show ?thesis using miss by (auto simp: resolve_def g None Inr)
    qed
  qed
qed






















end
