(* ===== verification/Json.thy ===== *)
theory Json
  imports Http
begin

text \<open>
  The part of \<^verbatim>\<open>encoding/json\<close> the HTTP handlers use: \<^verbatim>\<open>json.Marshal\<close> on structs (a list of named fields,
  \<^verbatim>\<open>omitempty\<close> applied by the caller), \<^verbatim>\<open>json.Valid\<close> and the compaction of a \<^verbatim>\<open>json.RawMessage\<close>. The
  validity check is the byte-at-a-time scanner of the library, with its nesting limit.
\<close>

section \<open>Strings\<close>

definition lowerHex :: "nat \<Rightarrow> char" where
  "lowerHex d = (if d < 10 then char_of (48 + d) else char_of (87 + d))"

definition u00 :: "nat \<Rightarrow> string" where
  "u00 n = [CHR 0x5C] @ ''u00'' @ [lowerHex (n div 16), lowerHex (n mod 16)]"

definition jsonAscii :: "char \<Rightarrow> string" where
  "jsonAscii c =
     (if c = CHR 0x5C \<or> c = CHR 0x22 then [CHR 0x5C, c]
      else if c = CHR 0x08 then CHR 0x5C # ''b''
      else if c = CHR 0x0C then CHR 0x5C # ''f''
      else if c = CHR 0x0A then CHR 0x5C # ''n''
      else if c = CHR 0x0D then CHR 0x5C # ''r''
      else if c = CHR 0x09 then CHR 0x5C # ''t''
      else if (of_char c :: nat) < 32 \<or> c = CHR ''<'' \<or> c = CHR ''>'' \<or> c = CHR ''&'' then u00 (of_char c)
      else [c])"

text \<open>Invalid UTF-8 becomes the escape of U+FFFD; the line separators U+2028 and U+2029 are escaped.\<close>

function jsonChars :: "string \<Rightarrow> string" where
  "jsonChars s =
     (if s = [] then []
      else if (of_char (hd s) :: nat) < 128 then jsonAscii (hd s) @ jsonChars (tl s)
      else
        let (r, w) = decodeRune s
        in (if r = 65533 \<and> w = 1 then [CHR 0x5C] @ ''ufffd''
            else if r = 8232 \<or> r = 8233 then [CHR 0x5C] @ ''u202'' @ [lowerHex (r mod 16)]
            else take w s) @ jsonChars (drop w s))"
  by pat_completeness auto
termination
proof (relation "measure length")
  fix s :: string and x r w assume "s \<noteq> []" "x = decodeRune s" "(r, w) = x"
  then have "0 < w" using decodeRune_width [of s] by (metis snd_conv)
  with \<open>s \<noteq> []\<close> show "(drop w s, s) \<in> measure length" by simp
qed auto

declare jsonChars.simps [simp del]

text \<open>Evaluation by the bits of a character.\<close>

lemma char_bits: "(of_char c :: nat) < 128 \<longleftrightarrow> \<not> digit7 c" "(of_char c :: nat) < 32 \<longleftrightarrow> \<not> digit7 c \<and> \<not> digit6 c \<and> \<not> digit5 c"
  by (cases c; auto simp: of_char_Char)+

lemma jsonAscii_code [code]:
  "jsonAscii c =
     (if c = CHR 0x5C \<or> c = CHR 0x22 then [CHR 0x5C, c]
      else if \<not> digit7 c \<and> \<not> digit6 c \<and> \<not> digit5 c
        then (if c = CHR 0x08 then CHR 0x5C # ''b'' else if c = CHR 0x0C then CHR 0x5C # ''f'' else if c = CHR 0x0A then CHR 0x5C # ''n''
              else if c = CHR 0x0D then CHR 0x5C # ''r'' else if c = CHR 0x09 then CHR 0x5C # ''t'' else u00 (of_char c))
      else if c = CHR ''<'' \<or> c = CHR ''>'' \<or> c = CHR ''&'' then u00 (of_char c)
      else [c])"
  by (auto simp: jsonAscii_def char_bits)

lemma jsonChars_code [code]:
  "jsonChars [] = []"
  "jsonChars (c # s) =
     (if \<not> digit7 c then jsonAscii c @ jsonChars s
      else let (r, w) = decodeRune (c # s)
        in (if r = 65533 \<and> w = 1 then [CHR 0x5C] @ ''ufffd''
            else if r = 8232 \<or> r = 8233 then [CHR 0x5C] @ ''u202'' @ [lowerHex (r mod 16)]
            else take w (c # s)) @ jsonChars (drop w (c # s)))"
  by (subst jsonChars.simps; simp add: char_bits)+

definition jsonString :: "string \<Rightarrow> string" where
  "jsonString s = [CHR 0x22] @ jsonChars s @ [CHR 0x22]"

section \<open>The scanner\<close>

datatype jctx = ObjKey | ObjValue | ArrValue

datatype jstate = BeginValue | BeginValueOrEmpty | BeginStringOrEmpty | BeginString | EndValue | EndTop
  | InString | InEsc | InEscU nat | Neg | Num1 | Num0 | Dot | Dot0 | NumE | ESign | E0 | Lit string

definition isJsonSpace :: "char \<Rightarrow> bool" where
  "isJsonSpace c \<longleftrightarrow> c = CHR '' '' \<or> c = CHR 0x09 \<or> c = CHR 0x0D \<or> c = CHR 0x0A"

definition maxNestingDepth :: nat where
  "maxNestingDepth = 10000"

text \<open>A step gives the next state, the stack of open values and whether the byte is kept by compaction.\<close>

type_synonym jconf = "jstate \<times> jctx list \<times> bool"

definition pushParse :: "jctx \<Rightarrow> jstate \<Rightarrow> jctx list \<Rightarrow> jconf option" where
  "pushParse x st stk = (if length stk < maxNestingDepth then Some (st, x # stk, True) else None)"

definition popParse :: "jctx list \<Rightarrow> jconf option" where
  "popParse stk = (let stk = tl stk in Some (if stk = [] then EndTop else EndValue, stk, True))"

definition stateEndValue :: "jctx list \<Rightarrow> char \<Rightarrow> jconf option" where
  "stateEndValue stk c =
     (case stk of
        [] \<Rightarrow> if isJsonSpace c then Some (EndTop, [], False) else None
      | x # r \<Rightarrow>
          if isJsonSpace c then Some (EndValue, stk, False)
          else (case x of
                  ObjKey \<Rightarrow> if c = CHR '':'' then Some (BeginValue, ObjValue # r, True) else None
                | ObjValue \<Rightarrow> if c = CHR '','' then Some (BeginString, ObjKey # r, True)
                    else if c = CHR 0x7D then popParse stk else None
                | ArrValue \<Rightarrow> if c = CHR '','' then Some (BeginValue, stk, True)
                    else if c = CHR '']'' then popParse stk else None))"

definition stateBeginValue :: "jctx list \<Rightarrow> char \<Rightarrow> jconf option" where
  "stateBeginValue stk c =
     (if isJsonSpace c then Some (BeginValue, stk, False)
      else if c = CHR 0x7B then pushParse ObjKey BeginStringOrEmpty stk
      else if c = CHR ''['' then pushParse ArrValue BeginValueOrEmpty stk
      else if c = CHR 0x22 then Some (InString, stk, True)
      else if c = CHR ''-'' then Some (Neg, stk, True)
      else if c = CHR ''0'' then Some (Num0, stk, True)
      else if c = CHR ''t'' then Some (Lit ''rue'', stk, True)
      else if c = CHR ''f'' then Some (Lit ''alse'', stk, True)
      else if c = CHR ''n'' then Some (Lit ''ull'', stk, True)
      else if isDigit c then Some (Num1, stk, True)
      else None)"

definition stateBeginString :: "jctx list \<Rightarrow> char \<Rightarrow> jconf option" where
  "stateBeginString stk c =
     (if isJsonSpace c then Some (BeginString, stk, False)
      else if c = CHR 0x22 then Some (InString, stk, True) else None)"

definition stateNum0 :: "jctx list \<Rightarrow> char \<Rightarrow> jconf option" where
  "stateNum0 stk c =
     (if c = CHR ''.'' then Some (Dot, stk, True)
      else if c = CHR ''e'' \<or> c = CHR ''E'' then Some (NumE, stk, True)
      else stateEndValue stk c)"

fun jstep :: "jstate \<Rightarrow> jctx list \<Rightarrow> char \<Rightarrow> jconf option" where
  "jstep BeginValue stk c = stateBeginValue stk c"
| "jstep BeginValueOrEmpty stk c =
     (if isJsonSpace c then Some (BeginValueOrEmpty, stk, False)
      else if c = CHR '']'' then stateEndValue stk c else stateBeginValue stk c)"
| "jstep BeginStringOrEmpty stk c =
     (if isJsonSpace c then Some (BeginStringOrEmpty, stk, False)
      else if c = CHR 0x7D then stateEndValue (ObjValue # tl stk) c else stateBeginString stk c)"
| "jstep BeginString stk c = stateBeginString stk c"
| "jstep EndValue stk c = stateEndValue stk c"
| "jstep EndTop stk c = (if isJsonSpace c then Some (EndTop, stk, False) else None)"
| "jstep InString stk c =
     (if c = CHR 0x22 then Some (EndValue, stk, True)
      else if c = CHR 0x5C then Some (InEsc, stk, True)
      else if (of_char c :: nat) < 32 then None else Some (InString, stk, True))"
| "jstep InEsc stk c =
     (if c \<in> set ''bfnrt/'' \<or> c = CHR 0x5C \<or> c = CHR 0x22 then Some (InString, stk, True)
      else if c = CHR ''u'' then Some (InEscU 4, stk, True) else None)"
| "jstep (InEscU k) stk c =
     (if unhex c = None then None else Some (if k \<le> 1 then InString else InEscU (k - 1), stk, True))"
| "jstep Neg stk c =
     (if c = CHR ''0'' then Some (Num0, stk, True) else if isDigit c then Some (Num1, stk, True) else None)"
| "jstep Num1 stk c = (if isDigit c then Some (Num1, stk, True) else stateNum0 stk c)"
| "jstep Num0 stk c = stateNum0 stk c"
| "jstep Dot stk c = (if isDigit c then Some (Dot0, stk, True) else None)"
| "jstep Dot0 stk c =
     (if isDigit c then Some (Dot0, stk, True)
      else if c = CHR ''e'' \<or> c = CHR ''E'' then Some (NumE, stk, True) else stateEndValue stk c)"
| "jstep NumE stk c =
     (if c = CHR ''+'' \<or> c = CHR ''-'' then Some (ESign, stk, True)
      else if isDigit c then Some (E0, stk, True) else None)"
| "jstep ESign stk c = (if isDigit c then Some (E0, stk, True) else None)"
| "jstep E0 stk c = (if isDigit c then Some (E0, stk, True) else stateEndValue stk c)"
| "jstep (Lit []) stk c = stateEndValue stk c"
| "jstep (Lit (x # r)) stk c = (if c = x then Some (if r = [] then EndValue else Lit r, stk, True) else None)"

text \<open>At the end of the input the scanner takes one more blank and must be past the top value.\<close>

definition scanEof :: "jstate \<Rightarrow> jctx list \<Rightarrow> bool" where
  "scanEof st stk \<longleftrightarrow> (case jstep st stk (CHR '' '') of Some (EndTop, _, _) \<Rightarrow> True | _ \<Rightarrow> False)"

text \<open>\<open>appendCompact\<close> with HTML escaping; \<open>None\<close> for invalid JSON.\<close>

definition compactByte :: "string \<Rightarrow> string \<times> nat" where
  "compactByte s =
     (if hd s = CHR ''<'' \<or> hd s = CHR ''>'' \<or> hd s = CHR ''&'' then (u00 (of_char (hd s)), 1)
      else if take 2 s = [CHR 0xE2, CHR 0x80] \<and> 2 < length s \<and> (s ! 2 = CHR 0xA8 \<or> s ! 2 = CHR 0xA9)
        then ([CHR 0x5C] @ ''u202'' @ [lowerHex (of_char (s ! 2) mod 16)], 3)
      else ([hd s], 1))"

text \<open>\<open>skip\<close> counts the bytes of an escaped separator that have been emitted already.\<close>

fun compactFrom :: "jstate \<Rightarrow> jctx list \<Rightarrow> nat \<Rightarrow> string \<Rightarrow> string option" where
  "compactFrom st stk skip [] = (if scanEof st stk then Some [] else None)"
| "compactFrom st stk skip (c # s) =
     (case jstep st stk c of
        None \<Rightarrow> None
      | Some (st', stk', keep) \<Rightarrow>
          if 0 < skip then compactFrom st' stk' (skip - 1) s
          else map_option (\<lambda>out. (if keep then fst (compactByte (c # s)) else []) @ out)
                 (compactFrom st' stk' (snd (compactByte (c # s)) - 1) s))"

definition jsonCompact :: "string \<Rightarrow> string option" where
  "jsonCompact s = compactFrom BeginValue [] 0 s"

definition jsonValid :: "string \<Rightarrow> bool" where
  "jsonValid s \<longleftrightarrow> jsonCompact s \<noteq> None"

section \<open>Marshal\<close>

datatype json = JStr string | JInt int | JArr "json list" | JObj "(string \<times> json) list" | JRaw string

fun marshal :: "json \<Rightarrow> string option" and marshalList :: "json list \<Rightarrow> string list option"
  and marshalFields :: "(string \<times> json) list \<Rightarrow> string list option" where
  "marshal (JStr s) = Some (jsonString s)"
| "marshal (JInt n) = Some (formatInt n)"
| "marshal (JArr vs) = map_option (\<lambda>ps. ''['' @ strJoin (CHR '','') ps @ '']'') (marshalList vs)"
| "marshal (JObj fs) = map_option (\<lambda>ps. [CHR 0x7B] @ strJoin (CHR '','') ps @ [CHR 0x7D]) (marshalFields fs)"
| "marshal (JRaw s) = jsonCompact s"
| "marshalList [] = Some []"
| "marshalList (v # vs) =
     (case marshal v of None \<Rightarrow> None | Some p \<Rightarrow> map_option ((#) p) (marshalList vs))"
| "marshalFields [] = Some []"
| "marshalFields ((k, v) # fs) =
     (case marshal v of None \<Rightarrow> None
      | Some p \<Rightarrow> map_option ((#) (jsonString k @ '':'' @ p)) (marshalFields fs))"

text \<open>A field tagged \<^verbatim>\<open>omitempty\<close>: left out when the string is empty, the number zero or the pointer nil.\<close>

definition omitStr :: "string \<Rightarrow> string \<Rightarrow> (string \<times> json) list" where
  "omitStr k v = (if v = [] then [] else [(k, JStr v)])"

definition omitInt :: "string \<Rightarrow> int \<Rightarrow> (string \<times> json) list" where
  "omitInt k v = (if v = 0 then [] else [(k, JInt v)])"

definition omitPtr :: "string \<Rightarrow> int option \<Rightarrow> (string \<times> json) list" where
  "omitPtr k v = (case v of None \<Rightarrow> [] | Some n \<Rightarrow> [(k, JInt n)])"

section \<open>Encoding never fails without raw parts\<close>

fun noRaw :: "json \<Rightarrow> bool" where
  "noRaw (JRaw s) = jsonValid s"
| "noRaw (JArr vs) = list_all noRaw vs"
| "noRaw (JObj fs) = list_all (\<lambda>(k, v). noRaw v) fs"
| "noRaw v = True"

lemma marshal_total:
  "noRaw v \<Longrightarrow> \<exists>s. marshal v = Some s"
  "list_all noRaw vs \<Longrightarrow> \<exists>ps. marshalList vs = Some ps"
  "list_all (\<lambda>(k, v). noRaw v) fs \<Longrightarrow> \<exists>ps. marshalFields fs = Some ps"
  by (induction v and vs and fs rule: marshal_marshalList_marshalFields.induct) (auto simp: jsonValid_def)

end
