(* ===== verification/ApiCore.thy ===== *)
theory ApiCore
  imports Json Keys StorageClient Router AssetStore
begin

text \<open>
  What the JSON handlers of \<^verbatim>\<open>internal/httpapi\<close> share (it is written in \<^verbatim>\<open>browser.go\<close>): parameter
  validation, limits, the response cache and the end of every endpoint, which answers from the cache
  or computes, encodes, stores and writes the response. The fields of a handler that are set once are
  an \<open>api_conf\<close>; its mutable field, the cache, is the state of the handler. A nil map and an empty
  one are the same list. Clock readings of one request are a sequence, like its SQL faults.

  An endpoint is the function that validates a request and gives either the early answer or the
  cache key and the computation behind it. The locale \<open>cached_endpoint\<close> states what such a key has to
  determine, and shows what an answer from the cache then is; \<open>keyed_endpoint\<close> gives it from an injective key.
\<close>

section \<open>Definitions\<close>

subsection \<open>Handlers\<close>

record cached_browse_response =
  cr_expires :: int
  cr_body :: string

type_synonym resp_cache = "(string \<times> cached_browse_response) list"

record api_conf =
  ac_AllowedServers :: "string list"
  ac_DefaultLimit :: int
  ac_MaxLimit :: int
  ac_CacheTTL :: int
  ac_MaxCacheItems :: int

definition second :: int where
  "second = 1000000000"

definition defaultBrowseLimit :: int where "defaultBrowseLimit = 100"
definition maxBrowseLimit :: int where "maxBrowseLimit = 200"
definition defaultBrowseCacheTTL :: int where "defaultBrowseCacheTTL = 15 * second"
definition defaultBrowseCacheItems :: int where "defaultBrowseCacheItems = 2048"

definition defaultLimit :: "'a api_conf_scheme \<Rightarrow> int" where
  "defaultLimit h = (if 0 < ac_DefaultLimit h then ac_DefaultLimit h else defaultBrowseLimit)"

definition maxLimit :: "'a api_conf_scheme \<Rightarrow> int" where
  "maxLimit h = (if 0 < ac_MaxLimit h then ac_MaxLimit h else maxBrowseLimit)"

definition cacheTTL :: "'a api_conf_scheme \<Rightarrow> int" where
  "cacheTTL h = (if 0 < ac_CacheTTL h then ac_CacheTTL h else defaultBrowseCacheTTL)"

definition maxCacheItems :: "'a api_conf_scheme \<Rightarrow> int" where
  "maxCacheItems h = (if 0 < ac_MaxCacheItems h then ac_MaxCacheItems h else defaultBrowseCacheItems)"

definition getCached :: "'a api_conf_scheme \<Rightarrow> int \<Rightarrow> string \<Rightarrow> resp_cache \<Rightarrow> string option \<times> resp_cache" where
  "getCached h now key c =
     (if cacheTTL h \<le> 0 then (None, c)
      else case mapGet key c of
             None \<Rightarrow> (None, c)
           | Some cached \<Rightarrow> if cr_expires cached < now then (None, mapDel key c) else (Some (cr_body cached), c))"

definition setCached :: "'a api_conf_scheme \<Rightarrow> int \<Rightarrow> string \<Rightarrow> string \<Rightarrow> resp_cache \<Rightarrow> resp_cache" where
  "setCached h now key body c =
     (if cacheTTL h \<le> 0 then c
      else mapSet key \<lparr>cr_expires = now + cacheTTL h, cr_body = body\<rparr>
             (if maxCacheItems h \<le> int (length c) then [] else c))"

definition writeBrowseJSON :: "request \<Rightarrow> string \<Rightarrow> writer \<Rightarrow> writer" where
  "writeBrowseJSON r body w =
     (let w = setHeader ''Content-Type'' ''application/json; charset=utf-8'' w;
          w = setHeader ''Cache-Control'' ''public, max-age=30, stale-while-revalidate=60'' w
      in if rq_method r = ''HEAD''
         then writeHeader 200 (setHeader ''Content-Length'' (formatInt (int (length body))) w)
         else writeBody body w)"

subsection \<open>Parameters\<close>

definition normalizeBrowsePrefix :: "string \<Rightarrow> path_error + string" where
  "normalizeBrowsePrefix raw =
     (if raw = [] then Inr []
      else if contains raw [CHR 0x5C] \<or> contains raw [CHR 0x00] \<or> hasPrefix raw ''/'' \<or> hasPrefix raw ''.'' then Inl ErrBadPath
      else
        let trimmed = trimSuffix raw ''/''
        in if trimmed = [] then Inl ErrBadPath
           else bindR (SafeRelPath trimmed) (\<lambda>safe.
             if raw \<noteq> safe \<and> raw \<noteq> safe @ ''/'' then Inl ErrBadPath else Inr (safe @ ''/'')))"

definition normalizeBrowseCursor :: "string \<Rightarrow> string \<Rightarrow> path_error + string" where
  "normalizeBrowseCursor raw prefix =
     (if raw = [] then Inr []
      else if contains raw [CHR 0x5C] \<or> contains raw [CHR 0x00] \<or> hasPrefix raw ''/'' \<or> hasPrefix raw ''.'' then Inl ErrBadPath
      else
        let trimmed = trimSuffix raw ''/''
        in if trimmed = [] then Inl ErrBadPath
           else bindR (SafeRelPath trimmed) (\<lambda>safe.
             let normalized = (if hasSuffix raw ''/'' then safe @ ''/'' else safe)
             in if normalized \<noteq> raw then Inl ErrBadPath
                else if prefix \<noteq> [] \<and> \<not> hasPrefix normalized prefix then Inl ErrBadPath
                else Inr normalized))"

definition parseBrowseLimit :: "string \<Rightarrow> int \<Rightarrow> int \<Rightarrow> string + int" where
  "parseBrowseLimit raw def mx =
     (if raw = [] then Inr def
      else case atoi raw of
             None \<Rightarrow> Inl ''strconv.Atoi''
           | Some n \<Rightarrow> if n < 1 then Inl ''limit must be positive'' else if mx < n then Inr mx else Inr n)"

definition escapeAssetPath :: "string \<Rightarrow> string" where
  "escapeAssetPath p = strJoin (CHR ''/'') (map pathEscape (strSplit CHR ''/'' p))"

text \<open>The checks every handler starts with; the continuation gets the database and the server.\<close>

definition guardApi :: "(string \<Rightarrow> string) \<Rightarrow> 'a api_conf_scheme \<Rightarrow> string \<Rightarrow> db option \<Rightarrow> request \<Rightarrow> (db \<Rightarrow> string \<Rightarrow> (writer \<Rightarrow> writer) + 'x)
    \<Rightarrow> (writer \<Rightarrow> writer) + 'x" where
  "guardApi uni h unavailable d r k =
     (if rq_method r \<noteq> ''GET'' \<and> rq_method r \<noteq> ''HEAD''
      then Inl (\<lambda>w. httpError ''method not allowed'' 405 (setHeader ''Allow'' ''GET, HEAD, OPTIONS'' w))
      else case d of
             None \<Rightarrow> Inl (httpError unavailable 503)
           | Some d \<Rightarrow>
               let server = toLower uni (queryGet ''server'' r)
               in if server = [] then Inl (httpError ''server is required'' 400)
                  else if server \<notin> set (ac_AllowedServers h) then Inl httpNotFound
                  else k d server)"

abbreviation orElse :: "(writer \<Rightarrow> writer) \<Rightarrow> 'e + 'x \<Rightarrow> (writer \<Rightarrow> writer) + 'x" where
  "orElse stop m \<equiv> mapErr (\<lambda>_. stop) m"

subsection \<open>Endpoints\<close>

type_synonym plan = "(writer \<Rightarrow> writer) + string \<times> ((writer \<Rightarrow> writer) + json)"

definition servePlan :: "'a api_conf_scheme \<Rightarrow> (nat \<Rightarrow> int) \<Rightarrow> request \<Rightarrow> plan \<Rightarrow> writer \<times> resp_cache \<Rightarrow> writer \<times> resp_cache" where
  "servePlan h now r p wc =
     (case p of
        Inl stop \<Rightarrow> (stop (fst wc), snd wc)
      | Inr (key, fresh) \<Rightarrow>
          (case getCached h (now 0) key (snd wc) of
             (Some body, c) \<Rightarrow> (writeBrowseJSON r body (fst wc), c)
           | (None, c) \<Rightarrow>
               (case fresh of
                  Inl stop \<Rightarrow> (stop (fst wc), c)
                | Inr resp \<Rightarrow>
                    (case marshal resp of
                       None \<Rightarrow> (httpError ''encode response'' 500 (fst wc), c)
                     | Some body \<Rightarrow> (writeBrowseJSON r body (fst wc), setCached h (now 1) key body c)))))"

text \<open>One request with what it meets: the outcomes of its statements, its clock readings, the database.\<close>

record api_event =
  ev_fault :: sqlfault
  ev_now :: "nat \<Rightarrow> int"
  ev_db :: "db option"
  ev_req :: request

definition revisionOf :: "api_event \<Rightarrow> nat result" where
  "revisionOf e = (case ev_db e of None \<Rightarrow> Inl ''no database'' | Some d \<Rightarrow> LatestAssetID (ev_fault e) d)"

fun serveAll :: "(api_event \<Rightarrow> writer \<times> resp_cache \<Rightarrow> writer \<times> resp_cache) \<Rightarrow> api_event list \<Rightarrow> resp_cache \<Rightarrow> resp_cache" where
  "serveAll serve [] c = c"
| "serveAll serve (e # es) c = serveAll serve es (snd (serve e (new_writer, c)))"

text \<open>The request of \<open>e\<close>, put to the database of \<open>e0\<close>.\<close>

definition onDbOf :: "api_event \<Rightarrow> api_event \<Rightarrow> api_event" where
  "onDbOf e0 e = e\<lparr>ev_db := ev_db e0, ev_fault := ev_fault e0\<rparr>"

text \<open>What a caching handler promises: every answer is the uncached one, or the uncached one on the database of an
  earlier request that was stored no longer than the time to live ago and had the same asset revision.\<close>

definition answersRecent :: "'a api_conf_scheme \<Rightarrow> (api_event \<Rightarrow> writer \<times> resp_cache \<Rightarrow> writer \<times> resp_cache) \<Rightarrow> bool" where
  "answersRecent conf serve \<longleftrightarrow>
     (\<forall>e es w. let answer = fst (serve e (w, serveAll serve es []))
        in answer = fst (serve e (w, []))
           \<or> (\<exists>e0 \<in> set es. ev_now e 0 \<le> ev_now e0 1 + cacheTTL conf \<and> revisionOf e = revisionOf e0
                \<and> answer = fst (serve (onDbOf e0 e) (w, []))))"

text \<open>The \<^verbatim>\<open>Sprintf\<close> keys are their fields joined by NUL.\<close>

abbreviation nulJoin :: "string list \<Rightarrow> string" where
  "nulJoin \<equiv> strJoin (CHR 0x00)"

section \<open>The response cache\<close>

lemma cacheTTL_pos: "0 < cacheTTL h"
  by (simp add: cacheTTL_def defaultBrowseCacheTTL_def second_def)

lemma setCached_bound: "int (length c) \<le> maxCacheItems h \<Longrightarrow> int (length (setCached h now key body c)) \<le> maxCacheItems h"
  by (auto simp: setCached_def length_mapSet maxCacheItems_def defaultBrowseCacheItems_def)

text \<open>Every entry of a cache satisfies a predicate on key, expiry and body.\<close>

definition cacheAll :: "(string \<Rightarrow> int \<Rightarrow> string \<Rightarrow> bool) \<Rightarrow> resp_cache \<Rightarrow> bool" where
  "cacheAll P c \<longleftrightarrow> (\<forall>(k, e) \<in> set c. P k (cr_expires e) (cr_body e))"

lemma getCached_all:
  "cacheAll P c \<Longrightarrow> cacheAll P (snd (getCached h now key c))"
  "cacheAll P c \<Longrightarrow> fst (getCached h now key c) = Some body \<Longrightarrow> \<exists>x. P key x body \<and> now \<le> x"
  by (auto simp: cacheAll_def getCached_def set_mapDel dest!: mapGet_SomeD split: if_splits option.splits)

lemma setCached_all: "cacheAll P c \<Longrightarrow> P key (now + cacheTTL h) body \<Longrightarrow> cacheAll P (setCached h now key body c)"
  by (auto simp: cacheAll_def setCached_def set_mapSet)

lemma cacheAll_mono: "cacheAll P c \<Longrightarrow> (\<And>k x b. P k x b \<Longrightarrow> Q k x b) \<Longrightarrow> cacheAll Q c"
  by (fastforce simp: cacheAll_def)

lemma serveAll_snoc: "serveAll serve (es @ [e]) c = snd (serve e (new_writer, serveAll serve es c))"
  by (induction es arbitrary: c) simp_all

locale cached_endpoint =
  fixes conf :: "'a api_conf_scheme" and plan_of :: "api_event \<Rightarrow> plan"
  assumes key_revision: "plan_of e = Inr (k, x) \<Longrightarrow> plan_of e0 = Inr (k, x0) \<Longrightarrow> revisionOf e = revisionOf e0"
    and key_determines: "plan_of e = Inr (k, x) \<Longrightarrow> plan_of e0 = Inr (k, x0) \<Longrightarrow> plan_of (onDbOf e0 e) = Inr (k, x0)"
begin

definition serve :: "api_event \<Rightarrow> writer \<times> resp_cache \<Rightarrow> writer \<times> resp_cache" where
  "serve e = servePlan conf (ev_now e) (ev_req e) (plan_of e)"

text \<open>Where an entry can come from.\<close>

definition stored :: "api_event list \<Rightarrow> string \<Rightarrow> int \<Rightarrow> string \<Rightarrow> bool" where
  "stored es k x body \<longleftrightarrow> (\<exists>e0 \<in> set es. \<exists>resp. plan_of e0 = Inr (k, Inr resp) \<and> marshal resp = Some body
     \<and> x = ev_now e0 1 + cacheTTL conf)"

lemma serve_stored: "cacheAll (stored es) c \<Longrightarrow> cacheAll (stored (es @ [e])) (snd (serve e (w, c)))"
proof -
  assume "cacheAll (stored es) c"
  then have c: "cacheAll (stored (es @ [e])) c" by (rule cacheAll_mono) (auto simp: stored_def)
  then have "cacheAll (stored (es @ [e])) (snd (getCached conf t k c))" for t k by (rule getCached_all(1))
  moreover have "stored (es @ [e]) k (ev_now e 1 + cacheTTL conf) body"
    if "plan_of e = Inr (k, Inr resp)" "marshal resp = Some body" for k resp body
    using that by (auto simp: stored_def)
  ultimately show ?thesis
    using c by (auto simp: serve_def servePlan_def split: sum.splits prod.splits option.splits intro!: setCached_all)
      (metis snd_conv)+
qed

lemma serveAll_stored: "cacheAll (stored es) (serveAll serve es [])"
proof (induction es rule: rev_induct)
  case Nil
  then show ?case by (simp add: cacheAll_def)
next
  case (snoc e es)
  then show ?case unfolding serveAll_snoc by (rule serve_stored)
qed

lemma answer_recent:
  "fst (serve e (w, serveAll serve es [])) = fst (serve e (w, []))
   \<or> (\<exists>e0 \<in> set es. ev_now e 0 \<le> ev_now e0 1 + cacheTTL conf \<and> revisionOf e = revisionOf e0
        \<and> fst (serve e (w, serveAll serve es [])) = fst (serve (onDbOf e0 e) (w, [])))"
proof (cases "plan_of e")
  case (Inl stop)
  then show ?thesis by (simp add: serve_def servePlan_def)
next
  case (Inr kx)
  obtain k x where p: "plan_of e = Inr (k, x)" using Inr by (cases kx) simp
  let ?c = "serveAll serve es []"
  have none: "getCached conf t k [] = (None, [])" for t k by (simp add: getCached_def)
  show ?thesis
  proof (cases "fst (getCached conf (ev_now e 0) k ?c)")
    case None
    then obtain c' where "getCached conf (ev_now e 0) k ?c = (None, c')" by (metis prod.collapse)
    then show ?thesis using p none by (simp add: serve_def servePlan_def split: sum.split option.split)
  next
    case (Some body)
    from getCached_all(2) [OF serveAll_stored this] obtain e0 resp where e0: "e0 \<in> set es"
      "plan_of e0 = Inr (k, Inr resp)" "marshal resp = Some body" "ev_now e 0 \<le> ev_now e0 1 + cacheTTL conf"
      by (auto simp: stored_def)
    have "fst (serve e (w, ?c)) = writeBrowseJSON (ev_req e) body w"
      using p Some by (auto simp: serve_def servePlan_def split: prod.splits)
    moreover have "fst (serve (onDbOf e0 e) (w, [])) = writeBrowseJSON (ev_req e) body w"
      using key_determines [OF p e0(2)] e0(3) none by (simp add: serve_def servePlan_def onDbOf_def)
    ultimately show ?thesis using e0(1,4) key_revision [OF p e0(2)] by auto
  qed
qed

lemma answers_recent: "answersRecent conf serve"
  unfolding answersRecent_def Let_def using answer_recent by blast

end

text \<open>The endpoints of the gateway have a key that spells the revision, the server and their parameters.\<close>

definition serverOf :: "(string \<Rightarrow> string) \<Rightarrow> request \<Rightarrow> string" where
  "serverOf uni r = toLower uni (queryGet ''server'' r)"

definition passesGuard :: "(string \<Rightarrow> string) \<Rightarrow> 'a api_conf_scheme \<Rightarrow> request \<Rightarrow> bool" where
  "passesGuard uni h r \<longleftrightarrow> (rq_method r = ''GET'' \<or> rq_method r = ''HEAD'') \<and> serverOf uni r \<noteq> [] \<and> serverOf uni r \<in> set (ac_AllowedServers h)"

lemma guardApi_Inr:
  "guardApi uni h unavailable d r k = Inr x \<longleftrightarrow> passesGuard uni h r \<and> (\<exists>d'. d = Some d' \<and> k d' (serverOf uni r) = Inr x)"
  by (auto simp: guardApi_def passesGuard_def serverOf_def Let_def split: option.splits)

locale keyed_endpoint =
  fixes uni :: "string \<Rightarrow> string" and conf :: "'a api_conf_scheme" and plan_for :: "sqlfault \<Rightarrow> db option \<Rightarrow> request \<Rightarrow> plan"
    and params :: "request \<Rightarrow> 'p option" and key :: "nat \<Rightarrow> string \<Rightarrow> 'p \<Rightarrow> string"
    and fresh :: "sqlfault \<Rightarrow> db \<Rightarrow> string \<Rightarrow> 'p \<Rightarrow> (writer \<Rightarrow> writer) + json"
  assumes plan_Inr: "plan_for f d r = Inr (k, x) \<longleftrightarrow> passesGuard uni conf r
      \<and> (\<exists>d' ps revision. d = Some d' \<and> params r = Some ps \<and> LatestAssetID f d' = Inr revision
           \<and> k = key revision (serverOf uni r) ps \<and> x = fresh f d' (serverOf uni r) ps)"
    and key_inject: "params r = Some ps \<Longrightarrow> params r' = Some ps' \<Longrightarrow> key n s ps = key n' s' ps' \<Longrightarrow> n = n' \<and> s = s' \<and> ps = ps'"

sublocale keyed_endpoint \<subseteq> cached_endpoint conf "\<lambda>e. plan_for (ev_fault e) (ev_db e) (ev_req e)"
proof
  fix e e0 :: api_event and k x x0
  assume "plan_for (ev_fault e) (ev_db e) (ev_req e) = Inr (k, x)" "plan_for (ev_fault e0) (ev_db e0) (ev_req e0) = Inr (k, x0)"
  note p = this [unfolded plan_Inr]
  obtain d ps n where e: "ev_db e = Some d" "params (ev_req e) = Some ps" "LatestAssetID (ev_fault e) d = Inr n"
    "k = key n (serverOf uni (ev_req e)) ps"
    using p(1) by blast
  obtain d0 ps0 n0 where e0: "ev_db e0 = Some d0" "params (ev_req e0) = Some ps0" "LatestAssetID (ev_fault e0) d0 = Inr n0"
    "k = key n0 (serverOf uni (ev_req e0)) ps0" "x0 = fresh (ev_fault e0) d0 (serverOf uni (ev_req e0)) ps0"
    using p(2) by blast
  have eq: "n = n0 \<and> serverOf uni (ev_req e) = serverOf uni (ev_req e0) \<and> ps = ps0"
    using key_inject [OF e(2) e0(2)] e(4) e0(4) by metis
  then show "revisionOf e = revisionOf e0" using e e0 by (simp add: revisionOf_def)
  show "plan_for (ev_fault (onDbOf e0 e)) (ev_db (onDbOf e0 e)) (ev_req (onDbOf e0 e)) = Inr (k, x0)"
    using p(1) e e0 eq by (simp add: plan_Inr onDbOf_def)
qed

section \<open>Parameters\<close>

lemma trimSuffix_slash: "trimSuffix (s @ ''/'') ''/'' = s"
  by (simp add: trimSuffix_def hasSuffix_def)

lemma trimSuffix_none: "\<not> hasSuffix raw ''/'' \<Longrightarrow> trimSuffix raw ''/'' = raw"
  by (simp add: trimSuffix_def)

lemma safeSpec_start:
  "safeSpec s \<Longrightarrow> raw = s \<or> raw = s @ ''/'' \<Longrightarrow>
     raw \<noteq> [] \<and> \<not> contains raw [CHR 0x5C] \<and> \<not> contains raw [CHR 0x00] \<and> \<not> hasPrefix raw ''/'' \<and> \<not> hasPrefix raw ''.''"
  using plain_no_leading_slash [of s]
  by (cases s) (auto simp: safeSpec_def contains_single hasPrefix_def)

lemma safeSpec_no_trailing: "safeSpec s \<Longrightarrow> \<not> hasSuffix s ''/''"
  by (auto simp: hasSuffix_iff safeSpec_def strSplit_append_sep plainSeg_def)

lemma trimSuffix_back:
  "hasSuffix raw ''/'' \<Longrightarrow> trimSuffix raw ''/'' @ ''/'' = raw" "raw = trimSuffix raw ''/'' \<or> raw = trimSuffix raw ''/'' @ ''/''"
proof -
  show suffix: "hasSuffix raw ''/'' \<Longrightarrow> trimSuffix raw ''/'' @ ''/'' = raw" by (auto simp: hasSuffix_iff trimSuffix_slash)
  then show "raw = trimSuffix raw ''/'' \<or> raw = trimSuffix raw ''/'' @ ''/''" using trimSuffix_none by (metis (full_types))
qed

lemma normalizeBrowsePrefix_iff:
  "normalizeBrowsePrefix raw = Inr p \<longleftrightarrow> raw = [] \<and> p = [] \<or> (\<exists>s. safeSpec s \<and> p = s @ ''/'' \<and> (raw = s \<or> raw = s @ ''/''))"
  (is "_ \<longleftrightarrow> ?R")
proof
  assume "normalizeBrowsePrefix raw = Inr p"
  then show ?R by (auto simp: normalizeBrowsePrefix_def Let_def bindR_Inr_iff SafeRelPath_eq split: if_splits)
next
  assume ?R
  then consider "raw = []" "p = []" | s where "safeSpec s" "p = s @ ''/''" "raw = s \<or> raw = s @ ''/''" by blast
  then show "normalizeBrowsePrefix raw = Inr p"
  proof cases
    case (2 s)
    note s = 2(1,2) and raw = 2(3)
    from 2 have "trimSuffix raw ''/'' = s" using trimSuffix_slash trimSuffix_none safeSpec_no_trailing by blast
    moreover have "s \<noteq> []" using s(1) by (simp add: safeSpec_def)
    ultimately show ?thesis
      using s raw safeSpec_start [OF s(1) raw] by (auto simp: normalizeBrowsePrefix_def Let_def SafeRelPath_eq)
  qed (auto simp: normalizeBrowsePrefix_def)
qed

lemma normalizeBrowseCursor_iff:
  "normalizeBrowseCursor raw prefix = Inr c \<longleftrightarrow>
     c = raw \<and> (raw = [] \<or> safeSpec (trimSuffix raw ''/'') \<and> (prefix = [] \<or> hasPrefix raw prefix))" (is "_ \<longleftrightarrow> ?R")
proof
  assume "normalizeBrowseCursor raw prefix = Inr c"
  then show ?R by (auto simp: normalizeBrowseCursor_def Let_def bindR_Inr_iff SafeRelPath_eq split: if_splits)
next
  assume R: ?R
  show "normalizeBrowseCursor raw prefix = Inr c"
  proof (cases "raw = []")
    case False
    with R have s: "safeSpec (trimSuffix raw ''/'')" by simp
    moreover have "trimSuffix raw ''/'' \<noteq> []" using s by (auto simp: safeSpec_def)
    ultimately show ?thesis
      using R False safeSpec_start [OF s trimSuffix_back(2)] trimSuffix_back(1) [of raw] trimSuffix_none [of raw]
      by (auto simp: normalizeBrowseCursor_def Let_def SafeRelPath_eq)
  qed (use R in \<open>simp add: normalizeBrowseCursor_def\<close>)
qed

lemma parseBrowseLimit_range:
  "parseBrowseLimit raw def mx = Inr n \<Longrightarrow> 0 < def \<Longrightarrow> 0 < mx \<Longrightarrow> 0 < n \<and> (n \<le> mx \<or> n = def)"
  by (auto simp: parseBrowseLimit_def split: if_splits option.splits)

text \<open>An escaped asset path decodes to the path.\<close>

lemma pathUnescape_append: "pathUnescape t = Some u \<Longrightarrow> pathUnescape (pathEscape s @ t) = Some (s @ u)"
  by (induction s) (simp_all add: pathEscape_def unescape_escapeChar)

lemma unescape_joined: "pathUnescape (strJoin (CHR ''/'') (map pathEscape segs)) = Some (strJoin (CHR ''/'') segs)"
  by (induction "CHR ''/''" segs rule: strJoin.induct) (simp_all add: pathUnescape_append)

lemma escapeAssetPath_decodes: "pathUnescape (escapeAssetPath p) = Some p"
  by (simp add: escapeAssetPath_def unescape_joined)

section \<open>Keys\<close>

lemma strSplit_joined: "segs \<noteq> [] \<Longrightarrow> strSplit c (strJoin c segs) = concat (map (strSplit c) segs)"
  by (induction c segs rule: strJoin.induct) (simp_all add: strSplit_append_sep)

lemma concat_split_free: "list_all (\<lambda>s. c \<notin> set s) xs \<Longrightarrow> concat (map (strSplit c) xs) = xs"
  by (induction xs) (simp_all add: strSplit_free)

text \<open>One field of a key may hold any text, the others have no NUL: the key still determines all of them.\<close>

lemma nulJoin_middle:
  assumes "nulJoin (xs @ s # ys) = nulJoin (xs' @ s' # ys')"
    and "list_all (\<lambda>s. CHR 0x00 \<notin> set s) (xs @ ys)" and "list_all (\<lambda>s. CHR 0x00 \<notin> set s) (xs' @ ys')"
    and "length xs = length xs'" and "length ys = length ys'"
  shows "xs = xs' \<and> s = s' \<and> ys = ys'"
proof -
  have "xs @ strSplit (CHR 0x00) s @ ys = xs' @ strSplit (CHR 0x00) s' @ ys'"
    using arg_cong [OF assms(1), of "strSplit (CHR 0x00)"] assms(2,3)
    by (simp add: strSplit_joined concat_split_free)
  then have "xs = xs'" "ys = ys'" "strSplit (CHR 0x00) s = strSplit (CHR 0x00) s'" using assms(4,5) by auto
  then show ?thesis by (metis strJoin_strSplit)
qed

lemma formatNat_no_NUL: "CHR 0x00 \<notin> set (formatNat n)"
  using formatNat_digits [of n] by (auto simp: list_all_iff isDigit_def)

lemma formatInt_no_NUL: "CHR 0x00 \<notin> set (formatInt n)"
  using formatNat_no_NUL by (auto simp: formatInt_def)

lemma formatNat_inject_iff: "formatNat m = formatNat n \<longleftrightarrow> m = n"
  using formatNat_inject by blast

lemma formatInt_inject: "formatInt m = formatInt n \<longleftrightarrow> m = n"
proof -
  have "formatNat k \<noteq> CHR ''-'' # s" for k s
    using formatNat_digits [of k] by (auto simp: isDigit_def)
  then show ?thesis by (auto simp: formatInt_def dest: formatNat_inject sym)
qed

end
