(* ===== verification/Browse.thy ===== *)
theory Browse
  imports ReadPath
begin

text \<open>
  The directory listing of \<^verbatim>\<open>internal/store/readpath.go\<close>: \<open>BrowseCurrent\<close> walks the two current tables
  with range seeks, merging the server's overrides into the shared rows and jumping over a whole
  subtree once its directory has been listed. The reference it is compared with is the sorted
  set of the immediate children of the prefix (\<open>childKey\<close>), with the metadata of the row
  that the read path would serve.
\<close>

section \<open>Definitions\<close>

definition BrowseKindDirectory :: string where "BrowseKindDirectory = ''directory''"
definition BrowseKindAsset :: string where "BrowseKindAsset = ''asset''"
definition BrowseKindBundle :: string where "BrowseKindBundle = ''bundle''"

record browse_entry =
  be_kind :: string
  be_name :: string
  be_path :: string
  be_fingerprint :: string
  be_sha256 :: string
  be_version :: string
  be_size :: int
  be_from_shared :: bool

record browse_result =
  br_items :: "browse_entry list"
  br_next_cursor :: string
  br_revision :: nat

definition br_zero :: browse_result where
  "br_zero = \<lparr>br_items = [], br_next_cursor = [], br_revision = 0\<rparr>"

text \<open>The loop of \<open>nextAfterPrefix\<close>, on the bytes from the last to the first.\<close>

fun nextAfterLoop :: "string \<Rightarrow> string" where
  "nextAfterLoop [] = []"
| "nextAfterLoop (c # r) =
     (if (of_char c :: nat) < 255 then rev (char_of ((of_char c :: nat) + 1) # r) else nextAfterLoop r)"

definition nextAfterPrefix :: "string \<Rightarrow> string" where
  "nextAfterPrefix p = nextAfterLoop (rev p)"

definition nextAfterSubtree :: "string \<Rightarrow> string" where
  "nextAfterSubtree dirPath =
     (if nextAfterPrefix dirPath \<noteq> [] then nextAfterPrefix dirPath else dirPath @ [CHR 0xFF])"

text \<open>\<^verbatim>\<open>path >= ? AND path < ?\<close>, the second test only when the upper bound is non-empty.\<close>

definition inRange :: "string \<Rightarrow> string \<Rightarrow> string \<Rightarrow> bool" where
  "inRange bound upper path \<longleftrightarrow> bound \<le> path \<and> (upper = [] \<or> path < upper)"

definition seekCurrentShared :: "string option \<Rightarrow> db \<Rightarrow> string \<Rightarrow> string \<Rightarrow> asset option result" where
  "seekCurrentShared flt d bound upper =
     exec flt (map_option (\<lambda>r. scanCurrentAssetRow (selectShared r))
       (first_by s_path (filter (\<lambda>r. inRange bound upper (s_path r)) (db_shared d))))"

definition seekCurrentOverride :: "string option \<Rightarrow> db \<Rightarrow> string \<Rightarrow> string \<Rightarrow> string \<Rightarrow> asset option result" where
  "seekCurrentOverride flt d server bound upper =
     exec flt (map_option scanCurrentAssetRow
       (first_by c_path (filter (\<lambda>r. c_server r = server \<and> c_is_override r \<and> inRange bound upper (c_path r)) (db_current d))))"

definition dirEntry :: "string \<Rightarrow> string \<Rightarrow> browse_entry" where
  "dirEntry name path = \<lparr>be_kind = BrowseKindDirectory, be_name = name, be_path = path, be_fingerprint = [],
     be_sha256 = [], be_version = [], be_size = 0, be_from_shared = False\<rparr>"

definition assetEntry :: "string \<Rightarrow> asset \<Rightarrow> bool \<Rightarrow> browse_entry" where
  "assetEntry name a fromShared = \<lparr>be_kind = BrowseKindAsset, be_name = name, be_path = a_path a,
     be_fingerprint = a_fingerprint a, be_sha256 = a_sha256 a, be_version = a_version a, be_size = a_size a,
     be_from_shared = fromShared\<rparr>"

text \<open>\<open>if nextX == nil && !xDone { nextX = seek(); xDone = nextX == nil }\<close>\<close>

definition fillSeek :: "asset option result \<Rightarrow> asset option \<Rightarrow> bool \<Rightarrow> (asset option \<times> bool) result" where
  "fillSeek seek next isDone =
     (if next = None \<and> \<not> isDone then bindR seek (\<lambda>n. Inr (n, n = None)) else Inr (next, isDone))"

text \<open>The entry for the row picked and the bound the next iteration starts from.\<close>

definition emitEntry :: "string \<Rightarrow> asset \<Rightarrow> bool \<Rightarrow> browse_entry \<times> string" where
  "emitEntry prefix pick fromShared =
     (let rest = trimPrefix (a_path pick) prefix; (name, _, nested) = strCut CHR ''/'' rest
      in if nested
         then let dirPath = prefix @ name @ ''/'' in (dirEntry name dirPath, nextAfterSubtree dirPath)
         else (assetEntry rest pick fromShared, a_path pick @ [CHR 0x00]))"

definition pickRow :: "asset option \<Rightarrow> asset option \<Rightarrow> (asset \<times> bool) option" where
  "pickRow nextShared nextOverride =
     (case (nextShared, nextOverride) of
        (None, None) \<Rightarrow> None
      | (None, Some o') \<Rightarrow> Some (o', False)
      | (Some s, None) \<Rightarrow> Some (s, True)
      | (Some s, Some o') \<Rightarrow> if a_path o' \<le> a_path s then Some (o', False) else Some (s, True))"

definition dropPassed :: "string \<Rightarrow> asset option \<Rightarrow> asset option" where
  "dropPassed bound next = filter_option (\<lambda>a. \<not> a_path a < bound) next"

text \<open>The loop; statement \<open>k\<close> of the fault oracle is the next seek.\<close>

function browseLoop ::
    "sqlfault \<Rightarrow> db \<Rightarrow> string \<Rightarrow> string \<Rightarrow> string \<Rightarrow> nat \<Rightarrow> nat \<Rightarrow> string \<Rightarrow> asset option \<times> bool \<Rightarrow> asset option \<times> bool
      \<Rightarrow> browse_entry list \<Rightarrow> browse_entry list result" where
  "browseLoop f d server prefix upper limit k bound (ns, sDone) (no, oDone) items =
     (if length items < limit + 1
      then bindR (fillSeek (seekCurrentShared (f k) d bound upper) ns sDone) (\<lambda>(ns, sDone).
           bindR (fillSeek (seekCurrentOverride (f (k + 1)) d server bound upper) no oDone) (\<lambda>(no, oDone).
             case pickRow ns no of
               None \<Rightarrow> Inr items
             | Some (pick, fromShared) \<Rightarrow>
                 (let (entry, bound) = emitEntry prefix pick fromShared
                  in browseLoop f d server prefix upper limit (k + 2) bound
                       (dropPassed bound ns, sDone) (dropPassed bound no, oDone) (items @ [entry]))))
      else Inr items)"
  by pat_completeness auto
termination
  by (relation "measure (\<lambda>(f, d, server, prefix, upper, limit, k, bound, s, ov, items). limit + 1 - length items)") auto

declare browseLoop.simps [simp del]

definition startBound :: "string \<Rightarrow> string \<Rightarrow> string" where
  "startBound prefix cursor =
     (if cursor \<noteq> [] then (if hasSuffix cursor ''/'' then nextAfterSubtree cursor else cursor @ [CHR 0x00])
      else prefix)"

text \<open>Cutting a page off the limit-plus-one items found.\<close>

definition cutPage :: "('e \<Rightarrow> string) \<Rightarrow> nat \<Rightarrow> 'e list \<Rightarrow> 'e list \<times> string" where
  "cutPage path limit items =
     (if limit < length items then (take limit items, path (items ! (limit - 1))) else (items, []))"

definition BrowseCurrent :: "sqlfault \<Rightarrow> db \<Rightarrow> string \<Rightarrow> string \<Rightarrow> string \<Rightarrow> int \<Rightarrow> browse_result result" where
  "BrowseCurrent f d server prefix cursor limit =
     (if limit \<le> 0 then Inr br_zero
      else
        bindR (LatestAssetID f d) (\<lambda>revision.
        bindR (browseLoop (\<lambda>i. f (i + 1)) d server prefix (nextAfterPrefix prefix) (nat limit) 0
                 (startBound prefix cursor) (None, False) (None, False) []) (\<lambda>items.
          let (page, next) = cutPage be_path (nat limit) items
          in Inr \<lparr>br_items = page, br_next_cursor = next, br_revision = revision\<rparr>)))"

section \<open>Byte order\<close>

lemma list_append_less_iff: "(a @ x < a @ y) = (x < (y :: string))"
  by (induction a) auto

lemma list_append_le_iff: "(a @ x \<le> a @ y) = (x \<le> (y :: string))"
  by (induction a) auto

lemma prefix_le: "hasPrefix s p \<Longrightarrow> p \<le> s"
  by (induction s p rule: list_induct2') auto

lemma char_zero_least: "CHR 0x00 \<le> c"
  by (simp add: less_eq_char_def)

lemma char_zero_less: "(CHR 0x00 < c) = (c \<noteq> CHR 0x00)"
  using char_zero_least [of c] by (auto simp: le_less)

text \<open>Appending a zero byte gives the next string.\<close>

lemma snoc_zero_le: "(a @ [CHR 0x00] \<le> s) = (a < s)"
proof (induction a s rule: list_induct2')
  case (3 y ys)
  then show ?case by (cases ys) (auto simp: char_zero_less le_less)
qed (auto simp: char_zero_less le_less)

lemma nextAfterLoop_snoc:
  "nextAfterLoop (r @ [c]) =
     (if nextAfterLoop r \<noteq> [] then c # nextAfterLoop r
      else if (of_char c :: nat) < 255 then [char_of ((of_char c :: nat) + 1)] else [])"
  by (induction r) auto

lemma nextAfterPrefix_simps [simp]:
  "nextAfterPrefix [] = []"
  "nextAfterPrefix (c # s) =
     (if nextAfterPrefix s \<noteq> [] then c # nextAfterPrefix s
      else if (of_char c :: nat) < 255 then [char_of ((of_char c :: nat) + 1)] else [])"
  by (simp_all add: nextAfterPrefix_def nextAfterLoop_snoc del: char_of_nat)

lemma char_succ:
  fixes c x :: char
  assumes "(of_char c :: nat) < 255"
  shows "(x < char_of ((of_char c :: nat) + 1)) = (x \<le> c)" "(char_of ((of_char c :: nat) + 1) \<le> x) = (c < x)"
  using assms by (auto simp: less_char_def less_eq_char_def)

lemmas char_succ_Suc = char_succ [unfolded Suc_eq_plus1 [symmetric]]

lemma char_max: "\<not> (of_char c :: nat) < 255 \<Longrightarrow> x \<le> (c :: char)"
  using nat_of_char_less_256 [of x] unfolding less_eq_char_def by linarith

text \<open>The strings with a given prefix are an interval that ends at \<open>nextAfterPrefix\<close>.\<close>

lemma nextAfterPrefix_range:
  "(p \<le> s \<and> (nextAfterPrefix p = [] \<or> s < nextAfterPrefix p)) = hasPrefix s p"
proof (induction p arbitrary: s)
  case (Cons c p)
  show ?case
  proof (cases s)
    case (Cons x t)
    show ?thesis
    proof (cases "(of_char c :: nat) < 255")
      case True
      then show ?thesis
        using Cons.IH [of t] prefix_le [of t p]
        by (auto simp: Cons char_succ_Suc simp del: char_of_nat)
    next
      case False
      then show ?thesis
        using Cons.IH [of t] prefix_le [of t p] char_max [OF False, of x]
        by (auto simp: Cons le_less)
    qed
  qed simp
qed simp

section \<open>The reference listing\<close>

definition childRest :: "string \<Rightarrow> string" where
  "childRest r = (if CHR ''/'' \<in> set r then takeWhile (\<lambda>c. c \<noteq> CHR ''/'') r @ ''/'' else r)"

text \<open>The immediate child of \<open>prefix\<close> through which \<open>p\<close> is reached.\<close>

definition childKey :: "string \<Rightarrow> string \<Rightarrow> string" where
  "childKey prefix p = prefix @ childRest (trimPrefix p prefix)"

text \<open>The row the current tables give a server at a path: its override, else the shared row.\<close>

definition visibleRow :: "db \<Rightarrow> string \<Rightarrow> string \<Rightarrow> (asset \<times> bool) option" where
  "visibleRow d server p =
     (case filter_option c_is_override (tbl_lookup curKey (server, p) (db_current d)) of
        Some r \<Rightarrow> Some (scanCurrentAssetRow r, False)
      | None \<Rightarrow> map_option (\<lambda>r. (scanCurrentAssetRow (selectShared r), True)) (tbl_lookup s_path p (db_shared d)))"

definition visiblePaths :: "db \<Rightarrow> string \<Rightarrow> string set" where
  "visiblePaths d server = {p. visibleRow d server p \<noteq> None}"

definition childrenFrom :: "db \<Rightarrow> string \<Rightarrow> string \<Rightarrow> string \<Rightarrow> string set" where
  "childrenFrom d server prefix bound =
     childKey prefix ` {p \<in> visiblePaths d server. hasPrefix p prefix \<and> bound \<le> p}"

definition listEntry :: "db \<Rightarrow> string \<Rightarrow> string \<Rightarrow> string \<Rightarrow> browse_entry" where
  "listEntry d server prefix k =
     (let rest = trimPrefix k prefix
      in if CHR ''/'' \<in> set rest then dirEntry (takeWhile (\<lambda>c. c \<noteq> CHR ''/'') rest) k
         else (case visibleRow d server k of None \<Rightarrow> dirEntry [] [] | Some (a, fs) \<Rightarrow> assetEntry rest a fs))"

definition listing :: "db \<Rightarrow> string \<Rightarrow> string \<Rightarrow> string \<Rightarrow> browse_entry list" where
  "listing d server prefix bound =
     map (listEntry d server prefix) (sorted_list_of_set (childrenFrom d server prefix bound))"

lemma trimPrefix_append [simp]: "trimPrefix (p @ s) p = s"
  by (simp add: trimPrefix_def)

lemma hasPrefixE:
  assumes "hasPrefix p prefix"
  obtains r where "p = prefix @ r"
  using assms by (auto simp: hasPrefix_iff)

lemma childRest_mono: "r \<le> s \<Longrightarrow> childRest r \<le> childRest s"
proof (induction r s rule: list_induct2')
  case (4 x xs y ys)
  show ?case
  proof (cases "x = y")
    case False
    with 4(2) have "x < y" by auto
    then show ?thesis by (auto simp: childRest_def)
  next
    case True
    with 4 have "childRest xs \<le> childRest ys" by simp
    then show ?thesis using True by (auto simp: childRest_def split: if_splits)
  qed
qed (auto simp: childRest_def)

lemma childKey_mono:
  assumes "hasPrefix p prefix" "hasPrefix q prefix" "p \<le> q"
  shows "childKey prefix p \<le> childKey prefix q"
  using assms by (auto simp: childKey_def list_append_le_iff intro: childRest_mono elim!: hasPrefixE)

lemma takeWhile_sep: "c \<notin> set a \<Longrightarrow> takeWhile (\<lambda>x. x \<noteq> c) (a @ c # b) = a"
  by (induction a) auto

lemma takeWhile_free: "c \<notin> set (takeWhile (\<lambda>x. x \<noteq> c) s)"
  by (auto dest: set_takeWhileD)

lemma takeWhile_all: "c \<notin> set s \<Longrightarrow> takeWhile (\<lambda>x. x \<noteq> c) s = s"
  by (induction s) auto

lemma childRest_prefix: "hasPrefix r (childRest r)"
proof (cases "CHR ''/'' \<in> set r")
  case True
  then obtain a b where "r = a @ CHR ''/'' # b" "CHR ''/'' \<notin> set a" by (meson split_list_first)
  then have "r = (takeWhile (\<lambda>c. c \<noteq> CHR ''/'') r @ ''/'') @ b" by (simp add: takeWhile_sep)
  with True show ?thesis unfolding childRest_def by (metis hasPrefix_append)
next
  case False
  then show ?thesis by (simp add: childRest_def hasPrefix_iff)
qed

lemma strCut_alt:
  "strCut c s = (if c \<in> set s then (takeWhile (\<lambda>x. x \<noteq> c) s, drop (Suc (length (takeWhile (\<lambda>x. x \<noteq> c) s))) s, True)
                 else (s, [], False))"
proof (cases "c \<in> set s")
  case True
  then have "takeWhile (\<lambda>x. x \<noteq> c) s \<noteq> s" by (metis (full_types) set_takeWhileD)
  then have "length (takeWhile (\<lambda>x. x \<noteq> c) s) < length s"
    by (metis length_takeWhile_le order_le_less takeWhile_eq_take take_all_iff)
  with True show ?thesis by (simp add: strCut_def Let_def)
next
  case False
  then show ?thesis by (simp add: strCut_def Let_def takeWhile_all del: takeWhile_eq_all_conv)
qed

lemma nextAfterSubtree_dir: "nextAfterSubtree (d @ ''/'') = nextAfterPrefix (d @ ''/'') \<and> nextAfterPrefix (d @ ''/'') \<noteq> []"
proof -
  have "nextAfterPrefix (d @ ''/'') \<noteq> []" by (induction d) auto
  then show ?thesis by (simp add: nextAfterSubtree_def)
qed

lemma childKey_dir:
  assumes "hasPrefix q prefix" and "CHR ''/'' \<notin> set name"
  shows "hasPrefix q (prefix @ name @ ''/'') = (childKey prefix q = prefix @ name @ ''/'')"
proof -
  from assms(1) obtain t where t: "q = prefix @ t" by (rule hasPrefixE)
  show ?thesis
  proof
    assume "hasPrefix q (prefix @ name @ ''/'')"
    then obtain u where "t = name @ CHR ''/'' # u" by (auto simp: t hasPrefix_iff)
    then show "childKey prefix q = prefix @ name @ ''/''"
      by (simp add: t childKey_def childRest_def takeWhile_sep [OF assms(2)])
  next
    assume "childKey prefix q = prefix @ name @ ''/''"
    then show "hasPrefix q (prefix @ name @ ''/'')"
      using childRest_prefix [of t] by (auto simp: t childKey_def hasPrefix_iff)
  qed
qed

text \<open>The entry emitted for a row, and what the new bound leaves: the rows of every other child
  that are still ahead.\<close>

lemma emitEntry_correct:
  assumes "hasPrefix p prefix" and "a_path a = p" and "visibleRow d server p = Some (a, fs)"
    and "emitEntry prefix a fs = (entry, bound')"
  shows "entry = listEntry d server prefix (childKey prefix p)" and "p < bound'"
    and "\<And>q. hasPrefix q prefix \<Longrightarrow> p \<le> q \<Longrightarrow> (bound' \<le> q) = (childKey prefix q \<noteq> childKey prefix p)"
proof -
  from assms(1) obtain r where p: "p = prefix @ r" by (rule hasPrefixE)
  let ?name = "takeWhile (\<lambda>c. c \<noteq> CHR ''/'') r"
  have "entry = listEntry d server prefix (childKey prefix p) \<and> p < bound'
    \<and> (\<forall>q. hasPrefix q prefix \<longrightarrow> p \<le> q \<longrightarrow> (bound' \<le> q) = (childKey prefix q \<noteq> childKey prefix p))"
  proof (cases "CHR ''/'' \<in> set r")
    case True
    let ?dir = "prefix @ ?name @ ''/''"
    have key: "childKey prefix p = ?dir" using True by (simp add: p childKey_def childRest_def)
    have e: "entry = dirEntry ?name ?dir" "bound' = nextAfterSubtree ?dir"
      using assms(2,4) True by (simp_all add: emitEntry_def p strCut_alt Let_def)
    have next': "bound' = nextAfterPrefix ?dir" "bound' \<noteq> []"
      using e(2) nextAfterSubtree_dir [of "prefix @ ?name"] by simp_all
    have pd: "hasPrefix p ?dir"
      using childRest_prefix [of r] True by (auto simp: p childRest_def hasPrefix_iff)
    have "takeWhile (\<lambda>c. c \<noteq> CHR ''/'') (?name @ ''/'') = ?name"
      by (rule takeWhile_sep) (rule takeWhile_free)
    then have ent: "entry = listEntry d server prefix (childKey prefix p)"
      unfolding key by (simp add: e(1) listEntry_def)
    have "p < bound'"
      using nextAfterPrefix_range [of ?dir p] pd next' by simp
    moreover have "(bound' \<le> q) = (childKey prefix q \<noteq> ?dir)" if q: "hasPrefix q prefix" "p \<le> q" for q
    proof -
      have "?dir \<le> q" using prefix_le [OF pd] q(2) by simp
      then have "(bound' \<le> q) = (\<not> hasPrefix q ?dir)"
        using nextAfterPrefix_range [of ?dir q] next' by auto
      also have "hasPrefix q ?dir = (childKey prefix q = ?dir)"
        by (rule childKey_dir [OF q(1) takeWhile_free])
      finally show ?thesis by simp
    qed
    ultimately show ?thesis using ent key by simp
  next
    case False
    have key: "childKey prefix p = p" using False by (simp add: p childKey_def childRest_def)
    have e: "entry = assetEntry r a fs" "bound' = p @ [CHR 0x00]"
      using assms(2,4) False by (auto simp: emitEntry_def p strCut_alt Let_def)
    have "entry = listEntry d server prefix (childKey prefix p)"
      using False assms(3) unfolding key by (simp add: e(1) listEntry_def p)
    moreover have "p < bound'" using snoc_zero_le [of p bound'] by (simp add: e(2))
    moreover have "(bound' \<le> q) = (childKey prefix q \<noteq> p)" if q: "hasPrefix q prefix" "p \<le> q" for q
    proof -
      from q(1) obtain t where t: "q = prefix @ t" by (rule hasPrefixE)
      have "(bound' \<le> q) = (q \<noteq> p)" using q(2) by (auto simp: e(2) snoc_zero_le)
      also have "(q \<noteq> p) = (childKey prefix q \<noteq> p)"
        using False by (auto simp: t p childKey_def childRest_def)
      finally show ?thesis .
    qed
    ultimately show ?thesis using key by simp
  qed
  then show "entry = listEntry d server prefix (childKey prefix p)" "p < bound'"
    "\<And>q. hasPrefix q prefix \<Longrightarrow> p \<le> q \<Longrightarrow> (bound' \<le> q) = (childKey prefix q \<noteq> childKey prefix p)"
    by blast+
qed

section \<open>Seeking\<close>

abbreviation seekS :: "db \<Rightarrow> string \<Rightarrow> string \<Rightarrow> asset option" where
  "seekS d bound upper \<equiv> map_option (\<lambda>r. scanCurrentAssetRow (selectShared r))
     (first_by s_path (filter (\<lambda>r. inRange bound upper (s_path r)) (db_shared d)))"

abbreviation seekO :: "db \<Rightarrow> string \<Rightarrow> string \<Rightarrow> string \<Rightarrow> asset option" where
  "seekO d server bound upper \<equiv> map_option scanCurrentAssetRow
     (first_by c_path (filter (\<lambda>r. c_server r = server \<and> c_is_override r \<and> inRange bound upper (c_path r)) (db_current d)))"

definition sharedPaths :: "db \<Rightarrow> string set" where
  "sharedPaths d = s_path ` set (db_shared d)"

definition overridePaths :: "db \<Rightarrow> string \<Rightarrow> string set" where
  "overridePaths d server = c_path ` {r \<in> set (db_current d). c_server r = server \<and> c_is_override r}"

text \<open>What a seek over a set of paths promises: the least path in range, or none.\<close>

definition seeks :: "string set \<Rightarrow> string \<Rightarrow> string \<Rightarrow> asset option \<Rightarrow> bool" where
  "seeks P bound upper x \<longleftrightarrow>
     (case x of
        None \<Rightarrow> \<forall>p \<in> P. \<not> inRange bound upper p
      | Some a \<Rightarrow> a_path a \<in> P \<and> inRange bound upper (a_path a) \<and> (\<forall>p \<in> P. inRange bound upper p \<longrightarrow> a_path a \<le> p))"

lemma first_by_None: "first_by k t = None \<Longrightarrow> t = []"
  by (simp add: first_by_None_iff)

lemma seekS_seeks: "seeks (sharedPaths d) bound upper (seekS d bound upper)"
proof (cases "first_by s_path (filter (\<lambda>r. inRange bound upper (s_path r)) (db_shared d))")
  case None
  then show ?thesis
    using first_by_None [OF None] by (auto simp: seeks_def sharedPaths_def filter_empty_conv)
next
  case (Some r)
  then show ?thesis
    using first_by_SomeD [OF Some] by (auto simp: seeks_def sharedPaths_def scanCurrentAssetRow_def selectShared_def)
qed

lemma seekO_seeks: "seeks (overridePaths d server) bound upper (seekO d server bound upper)"
proof (cases "first_by c_path (filter (\<lambda>r. c_server r = server \<and> c_is_override r \<and> inRange bound upper (c_path r)) (db_current d))")
  case None
  then show ?thesis
    using first_by_None [OF None] by (auto simp: seeks_def overridePaths_def filter_empty_conv)
next
  case (Some r)
  then show ?thesis
    using first_by_SomeD [OF Some] by (auto simp: seeks_def overridePaths_def scanCurrentAssetRow_def)
qed

lemma seekS_row:
  assumes "tbl_unique s_path (db_shared d)" and "seekS d bound upper = Some a"
  shows "map_option (\<lambda>r. scanCurrentAssetRow (selectShared r)) (tbl_lookup s_path (a_path a) (db_shared d)) = Some a"
proof -
  from assms(2) obtain r where r: "first_by s_path (filter (\<lambda>r. inRange bound upper (s_path r)) (db_shared d)) = Some r"
    "a = scanCurrentAssetRow (selectShared r)" by auto
  from first_by_SomeD(1) [OF r(1)] have "r \<in> set (db_shared d)" by simp
  with r(2)
  show ?thesis
    using tbl_lookup_unique [OF assms(1), of r] by (simp add: scanCurrentAssetRow_def selectShared_def)
qed

lemma seekO_row:
  assumes "tbl_unique curKey (db_current d)" and "seekO d server bound upper = Some a"
  shows "map_option scanCurrentAssetRow (filter_option c_is_override (tbl_lookup curKey (server, a_path a) (db_current d))) = Some a"
proof -
  from assms(2) obtain r where sk: "first_by c_path (filter (\<lambda>r. c_server r = server \<and> c_is_override r \<and> inRange bound upper (c_path r)) (db_current d)) = Some r"
    "a = scanCurrentAssetRow r" by auto
  from first_by_SomeD(1) [OF sk(1)] have r: "r \<in> set (db_current d)" "c_server r = server" "c_is_override r" by simp_all
  with sk(2) have "tbl_lookup curKey (server, a_path a) (db_current d) = Some r"
    using tbl_lookup_unique [OF assms(1) r(1)] by (auto simp: curKey_def scanCurrentAssetRow_def)
  with r sk(2) show ?thesis by simp
qed

lemma overridePaths_lookup:
  assumes "tbl_unique curKey (db_current d)"
  shows "p \<in> overridePaths d server \<longleftrightarrow> filter_option c_is_override (tbl_lookup curKey (server, p) (db_current d)) \<noteq> None"
proof
  assume "p \<in> overridePaths d server"
  then obtain r where r: "r \<in> set (db_current d)" "c_server r = server" "c_is_override r" "c_path r = p"
    by (auto simp: overridePaths_def)
  then have "tbl_lookup curKey (server, p) (db_current d) = Some r"
    using tbl_lookup_unique [OF assms r(1)] by (auto simp: curKey_def)
  with r show "filter_option c_is_override (tbl_lookup curKey (server, p) (db_current d)) \<noteq> None" by simp
next
  assume "filter_option c_is_override (tbl_lookup curKey (server, p) (db_current d)) \<noteq> None"
  then obtain r where "tbl_lookup curKey (server, p) (db_current d) = Some r" "c_is_override r"
    by (cases "tbl_lookup curKey (server, p) (db_current d)") (auto split: if_splits)
  with tbl_lookup_SomeD [OF this(1)] show "p \<in> overridePaths d server"
    by (auto simp: overridePaths_def curKey_def)
qed

lemma sharedPaths_lookup: "p \<in> sharedPaths d \<longleftrightarrow> tbl_lookup s_path p (db_shared d) \<noteq> None"
  by (auto simp: sharedPaths_def tbl_lookup_None_iff)

lemma visiblePaths_eq:
  assumes "tbl_unique curKey (db_current d)"
  shows "visiblePaths d server = sharedPaths d \<union> overridePaths d server"
  by (auto simp: visiblePaths_def visibleRow_def overridePaths_lookup [OF assms] sharedPaths_lookup split: option.splits)

lemma finite_visiblePaths: "tbl_unique curKey (db_current d) \<Longrightarrow> finite (visiblePaths d server)"
  by (simp add: visiblePaths_eq sharedPaths_def overridePaths_def)

text \<open>Merging the two seeks picks the least visible path, with the row the tables give it.\<close>

lemma pickRow_correct:
  assumes "tbl_unique s_path (db_shared d)" and "tbl_unique curKey (db_current d)"
  shows "case pickRow (seekS d bound upper) (seekO d server bound upper) of
     None \<Rightarrow> \<forall>p \<in> visiblePaths d server. \<not> inRange bound upper p
   | Some (a, fs) \<Rightarrow> visibleRow d server (a_path a) = Some (a, fs) \<and> inRange bound upper (a_path a)
       \<and> (\<forall>p \<in> visiblePaths d server. inRange bound upper p \<longrightarrow> a_path a \<le> p)"
proof -
  note s = seekS_seeks [of d bound upper] and o' = seekO_seeks [of d server bound upper]
  note vis = visiblePaths_eq [OF assms(2), of server]
  show ?thesis
  proof (cases "seekO d server bound upper")
    case None
    show ?thesis
    proof (cases "seekS d bound upper")
      case (Some a)
      have "a_path a \<notin> overridePaths d server"
        using o' s unfolding None Some by (auto simp: seeks_def)
      then have "visibleRow d server (a_path a) = Some (a, True)"
        using seekS_row [OF assms(1) Some] overridePaths_lookup [OF assms(2)]
        by (auto simp: visibleRow_def split: option.splits)
      then show ?thesis
        using s o' unfolding None Some by (auto simp: pickRow_def seeks_def vis)
    qed (use s o' None in \<open>simp add: pickRow_def seeks_def vis ball_Un\<close>)
  next
    case (Some b)
    have row: "visibleRow d server (a_path b) = Some (b, False)"
      using seekO_row [OF assms(2) Some] by (auto simp: visibleRow_def split: option.splits)
    show ?thesis
    proof (cases "seekS d bound upper")
      case None
      show ?thesis
        using s o' row unfolding None Some by (auto simp: pickRow_def seeks_def vis)
    next
      case (Some a)
      note a = Some
      show ?thesis
      proof (cases "a_path b \<le> a_path a")
        case True
        then show ?thesis
          using s o' row unfolding a \<open>seekO d server bound upper = Some b\<close>
          by (auto simp: pickRow_def seeks_def vis)
      next
        case False
        then have "a_path a \<notin> overridePaths d server"
          using o' s unfolding a \<open>seekO d server bound upper = Some b\<close> by (auto simp: seeks_def)
        then have "visibleRow d server (a_path a) = Some (a, True)"
          using seekS_row [OF assms(1) a] overridePaths_lookup [OF assms(2)]
          by (auto simp: visibleRow_def split: option.splits)
        then show ?thesis
          using s o' False unfolding a \<open>seekO d server bound upper = Some b\<close>
          by (auto simp: pickRow_def seeks_def vis)
      qed
    qed
  qed
qed

section \<open>The walk\<close>

lemma inRange_prefix: "prefix \<le> bound \<Longrightarrow> inRange bound (nextAfterPrefix prefix) p \<longleftrightarrow> hasPrefix p prefix \<and> bound \<le> p"
  using nextAfterPrefix_range [of prefix p] by (auto simp: inRange_def)

lemma sorted_list_of_set_least:
  assumes "finite A" and "\<And>y. y \<in> A \<Longrightarrow> x < (y :: string)"
  shows "sorted_list_of_set (insert x A) = x # sorted_list_of_set A"
proof -
  have "x \<notin> A" using assms(2) by blast
  then have "sorted_list_of_set (insert x A) = insort x (sorted_list_of_set A)"
    using assms(1) by simp
  also have "\<dots> = x # sorted_list_of_set A"
    using assms by (intro insort_is_Cons) (auto simp: less_imp_le)
  finally show ?thesis .
qed

lemma listing_step:
  assumes "tbl_unique curKey (db_current d)" and "prefix \<le> bound"
    and "visibleRow d server (a_path a) = Some (a, fs)" and "inRange bound (nextAfterPrefix prefix) (a_path a)"
    and "\<And>p. p \<in> visiblePaths d server \<Longrightarrow> inRange bound (nextAfterPrefix prefix) p \<Longrightarrow> a_path a \<le> p"
    and "emitEntry prefix a fs = (entry, bound')"
  shows "listing d server prefix bound = entry # listing d server prefix bound'" and "bound < bound'"
proof -
  let ?p = "a_path a" and ?k = "childKey prefix (a_path a)"
  have pr: "hasPrefix ?p prefix" "bound \<le> ?p" using assms(2,4) by (simp_all add: inRange_prefix)
  have vis: "?p \<in> visiblePaths d server" using assms(3) by (simp add: visiblePaths_def)
  note emit = emitEntry_correct [OF pr(1) refl assms(3,6)]
  show lt: "bound < bound'" using pr(2) emit(2) by simp
  have mem: "hasPrefix q prefix \<Longrightarrow> q \<in> visiblePaths d server \<Longrightarrow> bound \<le> q \<Longrightarrow> ?p \<le> q" for q
    using assms(2,5) by (simp add: inRange_prefix)
  let ?Q = "{q \<in> visiblePaths d server. hasPrefix q prefix \<and> bound \<le> q}"
  have "{q \<in> visiblePaths d server. hasPrefix q prefix \<and> bound' \<le> q} = {q \<in> ?Q. childKey prefix q \<noteq> ?k}"
  proof -
    have "bound' \<le> q \<Longrightarrow> bound \<le> q" for q using lt by (meson less_imp_le order_trans)
    then show ?thesis using emit(3) mem by blast
  qed
  then have rest: "childrenFrom d server prefix bound' = childKey prefix ` {q \<in> ?Q. childKey prefix q \<noteq> ?k}"
    by (simp add: childrenFrom_def)
  have "childrenFrom d server prefix bound = insert ?k (childrenFrom d server prefix bound')"
    unfolding rest using vis pr by (auto simp: childrenFrom_def)
  moreover have "finite (childrenFrom d server prefix bound')"
    unfolding rest using finite_visiblePaths [OF assms(1)] by simp
  moreover have "?k < y" if "y \<in> childrenFrom d server prefix bound'" for y
  proof -
    from that obtain q where q: "q \<in> ?Q" "childKey prefix q \<noteq> ?k" "y = childKey prefix q"
      unfolding rest by blast
    with mem have "?p \<le> q" by blast
    then have "?k \<le> y" using childKey_mono [OF pr(1)] q by blast
    with q show ?thesis by simp
  qed
  ultimately have "sorted_list_of_set (childrenFrom d server prefix bound) = ?k # sorted_list_of_set (childrenFrom d server prefix bound')"
    using sorted_list_of_set_least by simp
  then show "listing d server prefix bound = entry # listing d server prefix bound'"
    by (simp add: listing_def emit(1))
qed

lemma listing_empty:
  assumes "prefix \<le> bound" and "\<And>p. p \<in> visiblePaths d server \<Longrightarrow> \<not> inRange bound (nextAfterPrefix prefix) p"
  shows "listing d server prefix bound = []"
proof -
  have "{p \<in> visiblePaths d server. hasPrefix p prefix \<and> bound \<le> p} = {}"
    using assms by (auto simp: inRange_prefix)
  then show ?thesis unfolding listing_def childrenFrom_def by (simp only: image_empty) simp
qed

text \<open>A row kept from an earlier seek is what a new seek would return.\<close>

lemma seeks_unique:
  assumes "seeks P b u (Some a)" and "seeks P b' u (Some a')" and "b \<le> b'" and "b' \<le> a_path a"
  shows "a_path a' = a_path a"
  using assms by (auto simp: seeks_def inRange_def intro!: antisym)

lemma seeks_None_mono: "seeks P b u None \<Longrightarrow> b \<le> b' \<Longrightarrow> seeks P b' u x \<Longrightarrow> x = None"
  by (cases x) (auto simp: seeks_def inRange_def)

lemma seeks_kept: "seeks P b u (Some a) \<Longrightarrow> b' \<le> a_path a \<Longrightarrow> seeks P b' u x \<Longrightarrow> x \<noteq> None"
  by (cases x) (auto simp: seeks_def inRange_def)

definition kept :: "asset option \<Rightarrow> asset option \<times> bool \<Rightarrow> bool" where
  "kept now st \<longleftrightarrow> (fst st \<noteq> None \<longrightarrow> fst st = now) \<and> (snd st \<longrightarrow> fst st = None \<and> now = None)"

lemma fillSeek_kept:
  assumes "fillSeek (exec flt now) n dn = Inr (n', dn')" and "kept now (n, dn)"
  shows "n' = now" and "dn' \<longrightarrow> now = None"
  using assms by (auto simp: fillSeek_def kept_def bindR_Inr_iff exec_Inr_iff split: if_splits)

lemma dropPassed_kept: "(b' \<le> a_path a \<Longrightarrow> x = Some a) \<Longrightarrow> \<not> dn \<Longrightarrow> kept x (dropPassed b' (Some a), dn)"
  by (auto simp: kept_def dropPassed_def)

lemma seekS_kept:
  assumes "tbl_unique s_path (db_shared d)" and "b \<le> b'" and "dn \<longrightarrow> seekS d b u = None"
  shows "kept (seekS d b' u) (dropPassed b' (seekS d b u), dn)"
proof (cases "seekS d b u")
  case None
  have "seeks (sharedPaths d) b u None" using seekS_seeks [of d b u] by (simp only: None)
  then have "seekS d b' u = None" by (rule seeks_None_mono [OF _ assms(2) seekS_seeks])
  with None show ?thesis by (simp add: kept_def dropPassed_def)
next
  case (Some a)
  have s: "seeks (sharedPaths d) b u (Some a)" using seekS_seeks [of d b u] by (simp only: Some)
  have "seekS d b' u = Some a" if ge: "b' \<le> a_path a"
  proof -
    obtain a' where a': "seekS d b' u = Some a'"
      using seeks_kept [OF s ge seekS_seeks] by blast
    have "seeks (sharedPaths d) b' u (Some a')" using seekS_seeks [of d b' u] by (simp only: a')
    then have "a_path a' = a_path a" using seeks_unique [OF s _ assms(2) ge] by blast
    then have "a' = a" using seekS_row [OF assms(1) Some] seekS_row [OF assms(1) a'] by (metis option.inject)
    with a' show ?thesis by simp
  qed
  then show ?thesis unfolding Some by (rule dropPassed_kept) (use assms(3) Some in auto)
qed

lemma seekO_kept:
  assumes "tbl_unique curKey (db_current d)" and "b \<le> b'" and "dn \<longrightarrow> seekO d server b u = None"
  shows "kept (seekO d server b' u) (dropPassed b' (seekO d server b u), dn)"
proof (cases "seekO d server b u")
  case None
  have "seeks (overridePaths d server) b u None" using seekO_seeks [of d server b u] by (simp only: None)
  then have "seekO d server b' u = None" by (rule seeks_None_mono [OF _ assms(2) seekO_seeks])
  with None show ?thesis by (simp add: kept_def dropPassed_def)
next
  case (Some a)
  have s: "seeks (overridePaths d server) b u (Some a)" using seekO_seeks [of d server b u] by (simp only: Some)
  have "seekO d server b' u = Some a" if ge: "b' \<le> a_path a"
  proof -
    obtain a' where a': "seekO d server b' u = Some a'"
      using seeks_kept [OF s ge seekO_seeks] by blast
    have "seeks (overridePaths d server) b' u (Some a')" using seekO_seeks [of d server b' u] by (simp only: a')
    then have "a_path a' = a_path a" using seeks_unique [OF s _ assms(2) ge] by blast
    then have "a' = a" using seekO_row [OF assms(1) Some] seekO_row [OF assms(1) a'] by (metis option.inject)
    with a' show ?thesis by simp
  qed
  then show ?thesis unfolding Some by (rule dropPassed_kept) (use assms(3) Some in auto)
qed

lemma browseLoop_correct:
  assumes "tbl_unique s_path (db_shared d)" and "tbl_unique curKey (db_current d)"
    and "browseLoop f d server prefix (nextAfterPrefix prefix) limit k bound sst ost items = Inr items'"
    and "prefix \<le> bound" and "length items \<le> limit + 1"
    and "kept (seekS d bound (nextAfterPrefix prefix)) sst" and "kept (seekO d server bound (nextAfterPrefix prefix)) ost"
  shows "items' = items @ take (limit + 1 - length items) (listing d server prefix bound)"
  using assms(3-)
proof (induction "limit + 1 - length items" arbitrary: k bound sst ost items)
  case 0
  then show ?case by (cases sst; cases ost) (simp add: browseLoop.simps)
next
  case (Suc n)
  let ?u = "nextAfterPrefix prefix"
  obtain ns0 sd0 no0 od0 where st: "sst = (ns0, sd0)" "ost = (no0, od0)" by (cases sst; cases ost)
  have len: "length items < limit + 1" using Suc.hyps(2) by simp
  obtain ns sd no od where fs: "fillSeek (exec (f k) (seekS d bound ?u)) ns0 sd0 = Inr (ns, sd)"
    and fo: "fillSeek (exec (f (k + 1)) (seekO d server bound ?u)) no0 od0 = Inr (no, od)"
    and res: "(case pickRow ns no of None \<Rightarrow> Inr items
        | Some (pick, fromShared) \<Rightarrow>
            (let (entry, bound) = emitEntry prefix pick fromShared
             in browseLoop f d server prefix ?u limit (k + 2) bound
                  (dropPassed bound ns, sd) (dropPassed bound no, od) (items @ [entry]))) = Inr items'"
    using Suc.prems(1) len
    by (subst (asm) st) (subst (asm) st(2), subst (asm) browseLoop.simps,
      auto simp: bindR_Inr_iff seekCurrentShared_def seekCurrentOverride_def)
  have ns: "ns = seekS d bound ?u" "sd \<longrightarrow> seekS d bound ?u = None"
    using fillSeek_kept [OF fs] Suc.prems(4) st(1) by simp_all
  have no: "no = seekO d server bound ?u" "od \<longrightarrow> seekO d server bound ?u = None"
    using fillSeek_kept [OF fo] Suc.prems(5) st(2) by simp_all
  note pick = pickRow_correct [OF assms(1,2), where bound = bound and upper = ?u and server = server, folded ns(1) no(1)]
  show ?case
  proof (cases "pickRow ns no")
    case None
    with pick res have "listing d server prefix bound = []" "items' = items"
      using listing_empty [OF Suc.prems(2)] by simp_all
    then show ?thesis by simp
  next
    case (Some ap)
    obtain a fs where ap: "ap = (a, fs)" by (cases ap)
    obtain entry bound' where em: "emitEntry prefix a fs = (entry, bound')" by (cases "emitEntry prefix a fs")
    have p: "visibleRow d server (a_path a) = Some (a, fs)" "inRange bound ?u (a_path a)"
      "\<And>p. p \<in> visiblePaths d server \<Longrightarrow> inRange bound ?u p \<Longrightarrow> a_path a \<le> p"
      using pick by (simp_all add: Some ap)
    note step = listing_step [OF assms(2) Suc.prems(2) p em]
    have le: "bound \<le> bound'" using step(2) by simp
    have "items' = (items @ [entry]) @ take (limit + 1 - length (items @ [entry])) (listing d server prefix bound')"
    proof (rule Suc.hyps(1))
      show "n = limit + 1 - length (items @ [entry])" using Suc.hyps(2) by simp
      show "browseLoop f d server prefix ?u limit (k + 2) bound' (dropPassed bound' ns, sd) (dropPassed bound' no, od) (items @ [entry]) = Inr items'"
        using res by (simp add: Some ap em)
      show "prefix \<le> bound'" using Suc.prems(2) le by simp
      show "length (items @ [entry]) \<le> limit + 1" using len by simp
      show "kept (seekS d bound' ?u) (dropPassed bound' ns, sd)" using seekS_kept [OF assms(1) le ns(2)] ns(1) by simp
      show "kept (seekO d server bound' ?u) (dropPassed bound' no, od)" using seekO_kept [OF assms(2) le no(2)] no(1) by simp
    qed
    moreover have "limit + 1 - length items = Suc (limit + 1 - length (items @ [entry]))" using len by simp
    ultimately show ?thesis by (simp add: step(1))
  qed
qed

section \<open>Pages\<close>

lemma sorted_list_of_set_after:
  assumes "finite A" and "i < card A"
  shows "sorted_list_of_set {y \<in> A. sorted_list_of_set A ! i < (y :: string)} = drop (Suc i) (sorted_list_of_set A)"
proof -
  let ?xs = "sorted_list_of_set A"
  have xs: "sorted_wrt (<) ?xs" "set ?xs = A" "length ?xs = card A" using assms(1) by simp_all
  have split: "A = set (take (Suc i) ?xs) \<union> set (drop (Suc i) ?xs)"
    using xs(2) by (metis append_take_drop_id set_append)
  have lt: "?xs ! i < y" if "y \<in> set (drop (Suc i) ?xs)" for y
  proof -
    from that obtain j where "y = ?xs ! (Suc i + j)" "Suc i + j < length ?xs"
      by (auto simp: in_set_conv_nth)
    then show ?thesis using xs(1) by (auto simp: sorted_wrt_iff_nth_less)
  qed
  have ge: "\<not> ?xs ! i < y" if "y \<in> set (take (Suc i) ?xs)" for y
  proof -
    from that obtain j where "y = ?xs ! j" "j \<le> i" "j < length ?xs"
      by (auto simp: in_set_conv_nth less_Suc_eq_le)
    then show ?thesis
      using xs(1,3) assms(2) by (cases "j = i") (auto simp: sorted_wrt_iff_nth_less less_imp_not_less)
  qed
  have "{y \<in> A. ?xs ! i < y} = set (drop (Suc i) ?xs)"
    using lt ge split by blast
  moreover have "sorted_list_of_set (set (drop (Suc i) ?xs)) = drop (Suc i) ?xs"
    by (intro sorted_list_of_set.idem_if_sorted_distinct) (simp_all add: sorted_wrt_drop)
  ultimately show ?thesis by simp
qed

lemma startBound_after:
  assumes "hasPrefix p prefix" and "p \<noteq> []" and "\<not> hasSuffix p ''/''" and "hasPrefix q prefix"
  shows "(startBound prefix (childKey prefix p) \<le> q) = (childKey prefix p < childKey prefix q)"
    and "hasPrefix (childKey prefix p) prefix" "childKey prefix p \<noteq> []"
proof -
  from assms(1) obtain r where p: "p = prefix @ r" by (rule hasPrefixE)
  from assms(4) obtain t where t: "q = prefix @ t" by (rule hasPrefixE)
  have below: "childKey prefix q \<le> q"
    using childRest_prefix [of t] by (auto simp: t childKey_def list_append_le_iff intro: prefix_le)
  show pre: "hasPrefix (childKey prefix p) prefix" by (simp add: childKey_def)
  have "childKey prefix p \<noteq> []
    \<and> (startBound prefix (childKey prefix p) \<le> q) = (childKey prefix p < childKey prefix q)"
  proof (cases "CHR ''/'' \<in> set r")
    case True
    let ?name = "takeWhile (\<lambda>c. c \<noteq> CHR ''/'') r"
    let ?dir = "prefix @ ?name @ ''/''"
    have key: "childKey prefix p = ?dir" using True by (simp add: p childKey_def childRest_def)
    have dd: "childKey prefix ?dir = ?dir"
      by (simp add: childKey_def childRest_def takeWhile_sep [OF takeWhile_free])
    have "hasSuffix ?dir ''/''" by (auto simp: hasSuffix_iff)
    then have b: "startBound prefix ?dir = nextAfterPrefix ?dir" "nextAfterPrefix ?dir \<noteq> []"
      using nextAfterSubtree_dir [of "prefix @ ?name"] by (simp_all add: startBound_def)
    have "?dir < nextAfterPrefix ?dir" using nextAfterPrefix_range [of ?dir ?dir] b(2) by (simp add: hasPrefix_def)
    then have "(nextAfterPrefix ?dir \<le> q) = (?dir \<le> q \<and> \<not> hasPrefix q ?dir)"
      using nextAfterPrefix_range [of ?dir q] b(2) by (meson leD leI less_imp_le order_trans)
    also have "hasPrefix q ?dir = (childKey prefix q = ?dir)"
      by (rule childKey_dir [OF assms(4) takeWhile_free])
    also have "(?dir \<le> q \<and> childKey prefix q \<noteq> ?dir) = (?dir < childKey prefix q)"
      using childKey_mono [of ?dir prefix q] dd assms(4) below by (auto simp: le_less)
    finally show ?thesis unfolding key b(1) by simp
  next
    case False
    have key: "childKey prefix p = p" using False by (simp add: p childKey_def childRest_def)
    have b: "startBound prefix p = p @ [CHR 0x00]" using assms(2,3) by (simp add: startBound_def)
    have "childKey prefix q = p \<Longrightarrow> q = p"
      using False by (auto simp: t p childKey_def childRest_def split: if_splits)
    then have "(p < q) = (p < childKey prefix q)"
      using childKey_mono [OF assms(1,4)] below key by (auto simp: le_less)
    then show ?thesis unfolding key b snoc_zero_le using assms(2) by simp
  qed
  then show "(startBound prefix (childKey prefix p) \<le> q) = (childKey prefix p < childKey prefix q)"
    "childKey prefix p \<noteq> []" by blast+
qed

lemma visibleRow_path: "visibleRow d server p = Some (a, fs) \<Longrightarrow> a_path a = p"
  by (auto simp: visibleRow_def scanCurrentAssetRow_def selectShared_def curKey_def filter_option_def
      dest!: tbl_lookup_SomeD split: option.splits if_splits)

lemma listEntry_path:
  assumes "k \<in> childrenFrom d server prefix b"
  shows "be_path (listEntry d server prefix k) = k"
    and "be_kind (listEntry d server prefix k) = BrowseKindDirectory
      \<or> (\<exists>a fs. visibleRow d server k = Some (a, fs) \<and> listEntry d server prefix k = assetEntry (trimPrefix k prefix) a fs)"
proof -
  from assms obtain p where p: "visibleRow d server p \<noteq> None" "hasPrefix p prefix" "k = childKey prefix p"
    by (auto simp: childrenFrom_def visiblePaths_def)
  then obtain r where r: "p = prefix @ r" by (auto elim: hasPrefixE)
  have "be_path (listEntry d server prefix k) = k
    \<and> (be_kind (listEntry d server prefix k) = BrowseKindDirectory
      \<or> (\<exists>a fs. visibleRow d server k = Some (a, fs) \<and> listEntry d server prefix k = assetEntry (trimPrefix k prefix) a fs))"
  proof (cases "CHR ''/'' \<in> set r")
    case True
    then show ?thesis by (simp add: p(3) r childKey_def childRest_def listEntry_def dirEntry_def Let_def)
  next
    case False
    then have "k = p" by (simp add: p(3) r childKey_def childRest_def)
    moreover obtain a fs where "visibleRow d server p = Some (a, fs)" using p(1) by auto
    ultimately show ?thesis
      using False visibleRow_path [of d server p a fs] by (simp add: r listEntry_def assetEntry_def)
  qed
  then show "be_path (listEntry d server prefix k) = k"
    "be_kind (listEntry d server prefix k) = BrowseKindDirectory
      \<or> (\<exists>a fs. visibleRow d server k = Some (a, fs) \<and> listEntry d server prefix k = assetEntry (trimPrefix k prefix) a fs)"
    by blast+
qed

lemma finite_childrenFrom: "tbl_unique curKey (db_current d) \<Longrightarrow> finite (childrenFrom d server prefix b)"
  by (simp add: childrenFrom_def finite_visiblePaths)

lemma listing_paths:
  "tbl_unique curKey (db_current d) \<Longrightarrow>
    map be_path (listing d server prefix b) = sorted_list_of_set (childrenFrom d server prefix b)"
  by (auto simp: listing_def listEntry_path(1) finite_childrenFrom intro!: map_idI)

lemma listing_after:
  assumes "tbl_unique curKey (db_current d)" and "i < length (listing d server prefix b)"
    and "\<And>p. p \<in> visiblePaths d server \<Longrightarrow> p \<noteq> [] \<and> \<not> hasSuffix p ''/''"
    and "prefix \<le> b"
  shows "listing d server prefix (startBound prefix (be_path (listing d server prefix b ! i))) = drop (Suc i) (listing d server prefix b)"
proof -
  let ?C = "childrenFrom d server prefix b"
  have fin: "finite ?C" by (rule finite_childrenFrom [OF assms(1)])
  have i: "i < card ?C" using assms(2) fin by (simp add: listing_def)
  define k where "k = sorted_list_of_set ?C ! i"
  have "k \<in> ?C" using i fin by (metis k_def nth_mem length_sorted_list_of_set set_sorted_list_of_set)
  then obtain p where p: "p \<in> visiblePaths d server" "hasPrefix p prefix" "b \<le> p" "k = childKey prefix p"
    by (auto simp: childrenFrom_def)
  have path: "be_path (listing d server prefix b ! i) = k"
    using i \<open>k \<in> ?C\<close> listEntry_path(1) by (simp add: listing_def k_def)
  have after: "(startBound prefix k \<le> q) = (k < childKey prefix q)" if "hasPrefix q prefix" for q
    using startBound_after(1) [OF p(2) _ _ that] assms(3) [OF p(1)] p(4) by simp
  have "b \<le> q" if "hasPrefix q prefix" "k < childKey prefix q" for q
  proof (rule ccontr)
    assume "\<not> b \<le> q"
    then have "childKey prefix q \<le> k" using childKey_mono [OF that(1) p(2)] p(3,4) by simp
    with that(2) show False by simp
  qed
  then have "childrenFrom d server prefix (startBound prefix k) = {y \<in> ?C. k < y}"
    by (auto simp: childrenFrom_def after)
  then show ?thesis
    unfolding path using sorted_list_of_set_after [OF fin i] by (simp add: listing_def drop_map k_def)
qed

section \<open>Properties\<close>

lemma BrowseCurrent_page:
  assumes "db_wf d" and "0 < limit" and "cursor = [] \<or> hasPrefix cursor prefix"
    and "BrowseCurrent f d server prefix cursor limit = Inr r"
  shows "(br_items r, br_next_cursor r) = cutPage be_path (nat limit) (take (nat limit + 1) (listing d server prefix (startBound prefix cursor)))"
    and "prefix \<le> startBound prefix cursor"
proof -
  have u: "tbl_unique s_path (db_shared d)" "tbl_unique curKey (db_current d)" using assms(1) by (simp_all add: db_wf_def)
  show le: "prefix \<le> startBound prefix cursor"
  proof (cases "cursor = []")
    case False
    then have c: "prefix \<le> cursor" using assms(3) prefix_le by blast
    have "cursor < startBound prefix cursor" if "hasSuffix cursor ''/''"
    proof -
      from that obtain x where x: "cursor = x @ ''/''" by (auto simp: hasSuffix_iff)
      have "cursor < nextAfterPrefix cursor"
        using nextAfterPrefix_range [of cursor cursor] nextAfterSubtree_dir [of x] by (simp add: x hasPrefix_def)
      then show ?thesis using False that nextAfterSubtree_dir [of x] by (simp add: startBound_def x)
    qed
    moreover have "cursor < startBound prefix cursor" if "\<not> hasSuffix cursor ''/''"
      using False that snoc_zero_le [of cursor "cursor @ [CHR 0x00]"] by (simp add: startBound_def)
    ultimately have "cursor < startBound prefix cursor" by blast
    with c show ?thesis by simp
  qed (simp add: startBound_def)
  obtain items where items: "browseLoop (\<lambda>i. f (i + 1)) d server prefix (nextAfterPrefix prefix) (nat limit) 0
      (startBound prefix cursor) (None, False) (None, False) [] = Inr items"
    "(br_items r, br_next_cursor r) = cutPage be_path (nat limit) items"
    using assms(2,4) by (auto simp: BrowseCurrent_def bindR_Inr_iff Let_def case_prod_unfold)
  have "items = take (nat limit + 1) (listing d server prefix (startBound prefix cursor))"
    using browseLoop_correct [OF u items(1) le] by (simp add: kept_def)
  with items(2) show "(br_items r, br_next_cursor r) = cutPage be_path (nat limit) (take (nat limit + 1) (listing d server prefix (startBound prefix cursor)))"
    by simp
qed

lemma cutPage_take:
  "0 < n \<Longrightarrow> cutPage path n (take (n + 1) xs) = (take n xs, if n < length xs then path (xs ! (n - 1)) else [])"
  by (auto simp: cutPage_def min_def)

lemma fillSeek_total: "\<exists>n' dn'. fillSeek (Inr x) n dn = Inr (n', dn')"
  by (simp add: fillSeek_def)

lemma browseLoop_total: "\<exists>items'. browseLoop no_fault d server prefix upper limit k bound sst ost items = Inr items'"
proof (induction "limit + 1 - length items" arbitrary: k bound sst ost items)
  case 0
  then show ?case by (cases sst; cases ost) (simp add: browseLoop.simps)
next
  case (Suc n)
  obtain ns sd no od where st: "sst = (ns, sd)" "ost = (no, od)" by (cases sst; cases ost)
  have len: "length items < limit + 1" using Suc.hyps(2) by simp
  obtain ns' sd' where a: "fillSeek (Inr (seekS d bound upper)) ns sd = Inr (ns', sd')"
    using fillSeek_total by blast
  obtain no' od' where b: "fillSeek (Inr (seekO d server bound upper)) no od = Inr (no', od')"
    using fillSeek_total by blast
  note unfold = st len seekCurrentShared_def seekCurrentOverride_def a b
  show ?case
  proof (cases "pickRow ns' no'")
    case None
    then show ?thesis by (subst st(1), subst st(2), subst browseLoop.simps) (simp add: unfold)
  next
    case (Some ap)
    obtain p fs where ap: "ap = (p, fs)" by (cases ap)
    obtain e bd where "emitEntry prefix p fs = (e, bd)" by (cases "emitEntry prefix p fs")
    moreover have "n = limit + 1 - length (items @ [e])" using Suc.hyps(2) by simp
    ultimately show ?thesis
      using Suc.hyps(1) Some ap
      by (subst st(1), subst st(2), subst browseLoop.simps) (simp add: unfold)
  qed
qed

lemma LookupPlacement_visible:
  assumes "visibleRow d server p = Some (a, fs)"
  shows "LookupPlacement no_fault d server p = Inr (placementFromAsset a fs)"
proof (cases "filter_option c_is_override (tbl_lookup curKey (server, p) (db_current d))")
  case (Some r)
  then have "tbl_lookup curKey (server, p) (db_current d) = Some r" "c_is_override r"
    by (auto simp: filter_option_def split: option.splits if_splits)
  with Some assms show ?thesis
    by (auto simp: LookupPlacement_def CurrentIndexedByServerPath_def visibleRow_def scanCurrentAssetRow_def)
next
  case None
  then have "filter_option a_is_override (map_option scanCurrentAssetRow (tbl_lookup curKey (server, p) (db_current d))) = None"
    by (cases "tbl_lookup curKey (server, p) (db_current d)") (auto simp: scanCurrentAssetRow_def split: if_splits)
  with None assms show ?thesis
    by (auto simp: LookupPlacement_def CurrentIndexedByServerPath_def CurrentIndexedSharedByPath_def visibleRow_def)
qed

lemma BrowseCurrent_correct_facts:
  assumes "db_wf d" and "0 < limit" and "cursor = [] \<or> hasPrefix cursor prefix"
  shows "\<exists>r. BrowseCurrent no_fault d server prefix cursor limit = Inr r"
    and "BrowseCurrent f d server prefix cursor limit = Inr r \<Longrightarrow>
      map be_path (br_items r) = take (nat limit) (sorted_list_of_set (childrenFrom d server prefix (startBound prefix cursor)))"
    and "BrowseCurrent f d server prefix cursor limit = Inr r \<Longrightarrow> e \<in> set (br_items r) \<Longrightarrow>
      be_kind e = BrowseKindDirectory
      \<or> (\<exists>p. LookupPlacement no_fault d server (be_path e) = Inr p \<and> p_found p \<and> p_from_shared p = be_from_shared e
          \<and> p_fingerprint p = be_fingerprint e \<and> p_sha256 p = be_sha256 e \<and> p_version p = be_version e \<and> p_size p = be_size e)"
proof -
  obtain items where "browseLoop no_fault d server prefix (nextAfterPrefix prefix) (nat limit) 0
      (startBound prefix cursor) (None, False) (None, False) [] = Inr items"
    using browseLoop_total by blast
  then show "\<exists>r. BrowseCurrent no_fault d server prefix cursor limit = Inr r"
    using assms(2) by (auto simp: BrowseCurrent_def LatestAssetID_def Let_def split: option.splits prod.splits)
next
  assume r: "BrowseCurrent f d server prefix cursor limit = Inr r"
  have u: "tbl_unique curKey (db_current d)" using assms(1) by (simp add: db_wf_def)
  have items: "br_items r = take (nat limit) (listing d server prefix (startBound prefix cursor))"
    using BrowseCurrent_page(1) [OF assms r] assms(2) by (simp add: cutPage_take [simplified])
  show "map be_path (br_items r) = take (nat limit) (sorted_list_of_set (childrenFrom d server prefix (startBound prefix cursor)))"
    using listing_paths [OF u, of server prefix "startBound prefix cursor"] by (simp add: items take_map [symmetric])
  show "be_kind e = BrowseKindDirectory
      \<or> (\<exists>p. LookupPlacement no_fault d server (be_path e) = Inr p \<and> p_found p \<and> p_from_shared p = be_from_shared e
          \<and> p_fingerprint p = be_fingerprint e \<and> p_sha256 p = be_sha256 e \<and> p_version p = be_version e \<and> p_size p = be_size e)"
    if "e \<in> set (br_items r)"
  proof -
    from that have "e \<in> set (listing d server prefix (startBound prefix cursor))"
      unfolding items by (rule in_set_takeD)
    then obtain k where k: "k \<in> childrenFrom d server prefix (startBound prefix cursor)" "e = listEntry d server prefix k"
      by (auto simp: listing_def finite_childrenFrom [OF u])
    show ?thesis
    proof (cases "be_kind e = BrowseKindDirectory")
      case False
      then obtain a fs where "visibleRow d server k = Some (a, fs)" "e = assetEntry (trimPrefix k prefix) a fs"
        using listEntry_path(2) [OF k(1)] k(2) by auto
      moreover from this(1) have "LookupPlacement no_fault d server (be_path e) = Inr (placementFromAsset a fs)"
        using LookupPlacement_visible listEntry_path(1) [OF k(1)] k(2) by simp
      ultimately show ?thesis by (simp add: placementFromAsset_def assetEntry_def)
    qed simp
  qed
qed

text \<open>C13: A page of the asset browser is the sorted list of the immediate children of the prefix, from the
  cursor on and cut at the limit, each child exactly once although the walk jumps over
  subtrees and keeps rows from earlier seeks; every asset entry carries the metadata of
  the placement the proxy serves for that path. Without a database fault a page is always produced.\<close>

theorem BrowseCurrent_correct:
  assumes "db_wf d" and "0 < limit" and "cursor = [] \<or> hasPrefix cursor prefix"
  shows "(\<exists>r. BrowseCurrent no_fault d server prefix cursor limit = Inr r)
    \<and> (\<forall>r. BrowseCurrent f d server prefix cursor limit = Inr r \<longrightarrow>
         map be_path (br_items r) = take (nat limit) (sorted_list_of_set (childrenFrom d server prefix (startBound prefix cursor)))
         \<and> (\<forall>e \<in> set (br_items r). be_kind e = BrowseKindDirectory
              \<or> (\<exists>p. LookupPlacement no_fault d server (be_path e) = Inr p \<and> p_found p \<and> p_from_shared p = be_from_shared e
                  \<and> p_fingerprint p = be_fingerprint e \<and> p_sha256 p = be_sha256 e \<and> p_version p = be_version e
                  \<and> p_size p = be_size e)))"
  using BrowseCurrent_correct_facts [OF assms] by blast

text \<open>A store with a shared directory, a shared file and an override.\<close>

definition demo_browse_db :: db where
  "demo_browse_db = empty_db\<lparr>
     db_shared := map (\<lambda>(p, fp). sharedOfAsset (mkAsset ''jp'' ''b'' p ''1'' fp False fp)) [(''a/z'', ''f5''), (''a/x/1'', ''f1''), (''a/y'', ''f3''), (''a/x/2'', ''f2'')],
     db_current := [curOfAsset (mkAsset ''en'' ''b'' ''a/y'' ''1'' ''f4'' True ''f4'')]\<rparr>"

lemma demo_browse_wf: "db_wf demo_browse_db"
  by code_simp

theorem BrowseCurrent_correct_witness:
  "db_wf demo_browse_db \<and> map be_path (br_items (projr (BrowseCurrent no_fault demo_browse_db ''en'' ''a/'' [] 2))) = [''a/x/'', ''a/y'']
   \<and> (\<exists>p. LookupPlacement no_fault demo_browse_db ''en'' ''a/y'' = Inr p \<and> p_fingerprint p = ''f4'')"
proof -
  have c: "[] = [] \<or> hasPrefix [] ''a/''" by simp
  obtain r where r: "BrowseCurrent no_fault demo_browse_db ''en'' ''a/'' [] 2 = Inr r"
    using BrowseCurrent_correct [OF demo_browse_wf _ c, of 2 "''en''"] by fastforce
  have items: "map (\<lambda>e. (be_path e, be_kind e, be_fingerprint e)) (br_items (projr (BrowseCurrent no_fault demo_browse_db ''en'' ''a/'' [] 2)))
      = [(''a/x/'', BrowseKindDirectory, []), (''a/y'', BrowseKindAsset, ''f4'')]"
    by code_simp
  then obtain z e where "br_items r = [z, e]" and e: "be_path e = ''a/y''" "be_kind e = BrowseKindAsset" "be_fingerprint e = ''f4''"
    by (auto simp: r map_eq_Cons_conv)
  then have mem: "e \<in> set (br_items r)" by simp
  have "map be_path (br_items r) = [''a/x/'', ''a/y'']" using items by (auto simp: r map_eq_Cons_conv)
  with BrowseCurrent_correct [OF demo_browse_wf _ c, of 2 "''en''" no_fault] e mem r demo_browse_wf show ?thesis
    by (fastforce simp: BrowseKindDirectory_def BrowseKindAsset_def)
qed

lemma BrowseCurrent_pages_facts:
  assumes "db_wf d" and "0 < limit" and "cursor = [] \<or> hasPrefix cursor prefix"
    and "\<And>p. p \<in> visiblePaths d server \<Longrightarrow> p \<noteq> [] \<and> \<not> hasSuffix p ''/''"
    and "BrowseCurrent f d server prefix cursor limit = Inr r"
  shows "listing d server prefix (startBound prefix cursor) =
      br_items r @ (if br_next_cursor r = [] then [] else listing d server prefix (startBound prefix (br_next_cursor r)))"
    and "length (br_items r) \<le> nat limit" and "br_next_cursor r \<noteq> [] \<Longrightarrow> hasPrefix (br_next_cursor r) prefix"
proof -
  have u: "tbl_unique curKey (db_current d)" using assms(1) by (simp add: db_wf_def)
  let ?b = "startBound prefix cursor" and ?n = "nat limit"
  let ?L = "listing d server prefix ?b"
  have le: "prefix \<le> ?b" and page: "br_items r = take ?n ?L" "br_next_cursor r = (if ?n < length ?L then be_path (?L ! (?n - 1)) else [])"
    using BrowseCurrent_page [OF assms(1-3,5)] assms(2) by (simp_all add: cutPage_take [simplified])
  have next_ok: "be_path (?L ! (?n - 1)) \<noteq> [] \<and> hasPrefix (be_path (?L ! (?n - 1))) prefix" if "?n < length ?L"
  proof -
    have "be_path (?L ! (?n - 1)) = sorted_list_of_set (childrenFrom d server prefix ?b) ! (?n - 1)"
      using that listing_paths [OF u, of server prefix ?b] by (metis nth_map less_imp_diff_less)
    moreover have "\<dots> \<in> childrenFrom d server prefix ?b"
      using that finite_childrenFrom [OF u, of server prefix ?b]
      by (metis listing_def length_map nth_mem set_sorted_list_of_set less_imp_diff_less)
    ultimately obtain p where "p \<in> visiblePaths d server" "hasPrefix p prefix" "be_path (?L ! (?n - 1)) = childKey prefix p"
      by (auto simp: childrenFrom_def)
    with startBound_after(2,3) [of p prefix p] assms(4) [of p] show ?thesis by simp
  qed
  show "?L = br_items r @ (if br_next_cursor r = [] then [] else listing d server prefix (startBound prefix (br_next_cursor r)))"
  proof (cases "?n < length ?L")
    case True
    then have "listing d server prefix (startBound prefix (be_path (?L ! (?n - 1)))) = drop ?n ?L"
      using listing_after [OF u _ assms(4) le, of "?n - 1"] assms(2) by simp
    with True page next_ok show ?thesis by simp
  qed (simp add: page)
  show "length (br_items r) \<le> ?n" by (simp add: page(1))
  show "hasPrefix (br_next_cursor r) prefix" if "br_next_cursor r \<noteq> []"
    using that next_ok by (auto simp: page(2) split: if_splits)
qed

text \<open>C26: Paging through a directory loses nothing and repeats nothing: a page followed by the listing
  from its next cursor is the listing from its own cursor, and a page without a next cursor is the
  last one. The stored paths must be canonical (not empty and not ending in a slash), as
  every path that was uploaded is.\<close>

theorem BrowseCurrent_pages:
  assumes "db_wf d" and "0 < limit" and "cursor = [] \<or> hasPrefix cursor prefix"
    and "\<And>p. p \<in> visiblePaths d server \<Longrightarrow> p \<noteq> [] \<and> \<not> hasSuffix p ''/''"
    and "BrowseCurrent f d server prefix cursor limit = Inr r"
  shows "listing d server prefix (startBound prefix cursor) =
      br_items r @ (if br_next_cursor r = [] then [] else listing d server prefix (startBound prefix (br_next_cursor r)))
    \<and> length (br_items r) \<le> nat limit \<and> (br_next_cursor r \<noteq> [] \<longrightarrow> hasPrefix (br_next_cursor r) prefix)"
  using BrowseCurrent_pages_facts [OF assms] by blast

theorem BrowseCurrent_pages_witness:
  "map be_path (listing demo_browse_db ''en'' ''a/'' (startBound ''a/'' [])) = [''a/x/'', ''a/y'', ''a/z'']"
proof -
  have u: "tbl_unique curKey (db_current demo_browse_db)" using demo_browse_wf by (simp add: db_wf_def)
  have "\<forall>p \<in> sharedPaths demo_browse_db \<union> overridePaths demo_browse_db ''en''. p \<noteq> [] \<and> \<not> hasSuffix p ''/''"
    by code_simp
  then have paths: "p \<noteq> [] \<and> \<not> hasSuffix p ''/''" if "p \<in> visiblePaths demo_browse_db ''en''" for p
    using that by (simp add: visiblePaths_eq [OF u])
  define r1 r2 where "r1 = projr (BrowseCurrent no_fault demo_browse_db ''en'' ''a/'' [] 2)"
    and "r2 = projr (BrowseCurrent no_fault demo_browse_db ''en'' ''a/'' ''a/y'' 2)"
  have r1: "BrowseCurrent no_fault demo_browse_db ''en'' ''a/'' [] 2 = Inr r1" unfolding r1_def by code_simp
  have r2: "BrowseCurrent no_fault demo_browse_db ''en'' ''a/'' ''a/y'' 2 = Inr r2" unfolding r2_def by code_simp
  have p1: "map be_path (br_items r1) = [''a/x/'', ''a/y'']" "br_next_cursor r1 = ''a/y''" unfolding r1_def by code_simp+
  have p2: "map be_path (br_items r2) = [''a/z'']" "br_next_cursor r2 = []" unfolding r2_def by code_simp+
  have c: "[] = [] \<or> hasPrefix [] ''a/''" "''a/y'' = [] \<or> hasPrefix ''a/y'' ''a/''" by simp_all
  from BrowseCurrent_pages [OF demo_browse_wf _ c(1) paths r1]
    BrowseCurrent_pages [OF demo_browse_wf _ c(2) paths r2]
  show ?thesis by (simp add: p1 p2)
qed

end
