(* ===== verification/BrowserApi.thy ===== *)
theory BrowserApi
  imports ApiCore Browse
begin

text \<open>
  \<^verbatim>\<open>internal/httpapi/browser.go\<close>: the directory listing endpoint. A response is the record of the Go
  struct and its JSON follows the struct tags.
\<close>

section \<open>Definitions\<close>

record asset_browse_item =
  ai_type :: string
  ai_name :: string
  ai_path :: string
  ai_url :: string
  ai_source :: string
  ai_size :: "int option"
  ai_fingerprint :: string
  ai_sha256 :: string
  ai_version :: string

record asset_browse_response =
  ar_server :: string
  ar_prefix :: string
  ar_limit :: int
  ar_next :: string
  ar_revision :: nat
  ar_items :: "asset_browse_item list"

definition assetBrowseItem_json :: "asset_browse_item \<Rightarrow> json" where
  "assetBrowseItem_json i = JObj ([(''type'', JStr (ai_type i)), (''name'', JStr (ai_name i)), (''path'', JStr (ai_path i))]
     @ omitStr ''url'' (ai_url i) @ omitStr ''source'' (ai_source i) @ omitPtr ''size'' (ai_size i)
     @ omitStr ''fingerprint'' (ai_fingerprint i) @ omitStr ''sha256'' (ai_sha256 i) @ omitStr ''version'' (ai_version i))"

definition assetBrowseResponse_json :: "asset_browse_response \<Rightarrow> json" where
  "assetBrowseResponse_json a = JObj ([(''server'', JStr (ar_server a)), (''prefix'', JStr (ar_prefix a)), (''limit'', JInt (ar_limit a))]
     @ omitStr ''nextCursor'' (ar_next a)
     @ [(''snapshotRevision'', JInt (int (ar_revision a))), (''items'', JArr (map assetBrowseItem_json (ar_items a)))])"

definition assetURL :: "string \<Rightarrow> string \<Rightarrow> string" where
  "assetURL server path = ''/sekai-'' @ server @ ''-assets/'' @ escapeAssetPath path"

definition toAssetBrowseItem :: "string \<Rightarrow> browse_entry \<Rightarrow> asset_browse_item" where
  "toAssetBrowseItem server entry =
     (let item = \<lparr>ai_type = be_kind entry, ai_name = be_name entry, ai_path = be_path entry, ai_url = [], ai_source = [],
                  ai_size = None, ai_fingerprint = [], ai_sha256 = [], ai_version = []\<rparr>
      in if be_kind entry \<noteq> BrowseKindAsset then item
         else item\<lparr>ai_url := assetURL server (be_path entry),
                ai_source := (if be_from_shared entry then ''shared'' else ''override''), ai_size := Some (be_size entry),
                ai_fingerprint := be_fingerprint entry, ai_sha256 := be_sha256 entry, ai_version := be_version entry\<rparr>)"

definition browseFresh :: "sqlfault \<Rightarrow> db \<Rightarrow> string \<Rightarrow> string \<Rightarrow> string \<Rightarrow> int \<Rightarrow> (writer \<Rightarrow> writer) + json" where
  "browseFresh f d server prefix cursor limit =
     bindR (orElse (httpError ''browse assets'' 500) (BrowseCurrent f d server prefix cursor limit)) (\<lambda>result.
       Inr (assetBrowseResponse_json
         \<lparr>ar_server = server, ar_prefix = prefix, ar_limit = limit, ar_next = br_next_cursor result,
          ar_revision = br_revision result, ar_items = map (toAssetBrowseItem server) (br_items result)\<rparr>))"

definition browsePlan :: "(string \<Rightarrow> string) \<Rightarrow> 'a api_conf_scheme \<Rightarrow> sqlfault \<Rightarrow> db option \<Rightarrow> request \<Rightarrow> plan" where
  "browsePlan uni h f d r =
     guardApi uni h ''asset browser unavailable'' d r (\<lambda>d server.
     bindR (orElse (httpError ''bad prefix'' 400) (normalizeBrowsePrefix (queryGet ''prefix'' r))) (\<lambda>prefix.
     bindR (orElse (httpError ''bad cursor'' 400) (normalizeBrowseCursor (queryGet ''cursor'' r) prefix)) (\<lambda>cursor.
     bindR (orElse (httpError ''bad limit'' 400) (parseBrowseLimit (queryGet ''limit'' r) (defaultLimit h) (maxLimit h))) (\<lambda>limit.
     bindR (orElse (httpError ''lookup revision'' 500) (LatestAssetID f d)) (\<lambda>revision.
       Inr (nulJoin [formatNat revision, server, prefix, cursor, formatInt limit],
            browseFresh (\<lambda>i. f (i + 1)) d server prefix cursor limit))))))"

definition AssetBrowserHandler_ServeHTTP ::
    "(string \<Rightarrow> string) \<Rightarrow> 'a api_conf_scheme \<Rightarrow> api_event \<Rightarrow> writer \<times> resp_cache \<Rightarrow> writer \<times> resp_cache" where
  "AssetBrowserHandler_ServeHTTP uni h e =
     servePlan h (ev_now e) (ev_req e) (browsePlan uni h (ev_fault e) (ev_db e) (ev_req e))"

section \<open>The cache key\<close>

definition browseParams :: "'a api_conf_scheme \<Rightarrow> request \<Rightarrow> (string \<times> string \<times> int) option" where
  "browseParams h r =
     (case normalizeBrowsePrefix (queryGet ''prefix'' r) of Inl _ \<Rightarrow> None
      | Inr p \<Rightarrow>
          (case (normalizeBrowseCursor (queryGet ''cursor'' r) p, parseBrowseLimit (queryGet ''limit'' r) (defaultLimit h) (maxLimit h)) of
             (Inr c, Inr l) \<Rightarrow> Some (p, c, l) | _ \<Rightarrow> None))"

lemma browsePlan_Inr:
  "browsePlan uni h f d r = Inr (k, x) \<longleftrightarrow> passesGuard uni h r
     \<and> (\<exists>d' ps revision. d = Some d' \<and> browseParams h r = Some ps \<and> LatestAssetID f d' = Inr revision
          \<and> k = (\<lambda>n s (p, c, l). nulJoin [formatNat n, s, p, c, formatInt l]) revision (serverOf uni r) ps
          \<and> x = (\<lambda>f d s (p, c, l). browseFresh (\<lambda>i. f (i + 1)) d s p c l) f d' (serverOf uni r) ps)"
  unfolding browsePlan_def guardApi_Inr by (auto simp: bindR_Inr_iff browseParams_def split: sum.splits)

lemma prefix_no_NUL: "normalizeBrowsePrefix raw = Inr p \<Longrightarrow> CHR 0x00 \<notin> set p"
  by (auto simp: normalizeBrowsePrefix_iff safeSpec_def)

lemma cursor_no_NUL: "normalizeBrowseCursor raw prefix = Inr c \<Longrightarrow> CHR 0x00 \<notin> set c"
proof -
  assume c: "normalizeBrowseCursor raw prefix = Inr c"
  have "set raw \<subseteq> insert (CHR ''/'') (set (trimSuffix raw ''/''))"
    using trimSuffix_back(2) [of raw] by (rule disjE) (drule arg_cong [of _ _ set], force)+
  with c show ?thesis by (auto simp: normalizeBrowseCursor_iff safeSpec_def)
qed

lemma browseParams_no_NUL: "browseParams h r = Some (p, c, l) \<Longrightarrow> CHR 0x00 \<notin> set p \<and> CHR 0x00 \<notin> set c"
  by (auto simp: browseParams_def prefix_no_NUL cursor_no_NUL split: sum.splits)

lemmas key_field_simps = formatNat_no_NUL formatInt_no_NUL formatInt_inject formatNat_inject_iff

interpretation browse: keyed_endpoint uni h "browsePlan uni h" "browseParams h" "\<lambda>n s (p, c, l). nulJoin [formatNat n, s, p, c, formatInt l]"
  "\<lambda>f d s (p, c, l). browseFresh (\<lambda>i. f (i + 1)) d s p c l" for uni h
proof
  fix r r' n n' s s' and ps ps' :: "string \<times> string \<times> int"
  assume "browseParams h r = Some ps" "browseParams h r' = Some ps'"
    and key: "(case ps of (p, c, l) \<Rightarrow> nulJoin [formatNat n, s, p, c, formatInt l]) = (case ps' of (p, c, l) \<Rightarrow> nulJoin [formatNat n', s', p, c, formatInt l])"
  moreover obtain p c l p' c' l' where ps: "ps = (p, c, l)" "ps' = (p', c', l')" by (metis prod_cases3)
  ultimately show "n = n' \<and> s = s' \<and> ps = ps'"
    using nulJoin_middle [of "[formatNat n]" s "[p, c, formatInt l]" "[formatNat n']" s' "[p', c', formatInt l']"]
    by (simp add: key_field_simps browseParams_no_NUL)
qed (rule browsePlan_Inr)

section \<open>URLs of listed assets\<close>

lemma plainSeg_pathEscape: "plainSeg (pathEscape s) \<longleftrightarrow> plainSeg s"
proof -
  have dots: "pathEscape [] = []" "pathEscape ''.'' = ''.''" "pathEscape ''..'' = ''..''"
    by (simp_all add: pathEscape_def escapeChar_def segmentSafe_def)
  have "pathEscape s = [] \<longleftrightarrow> s = []" "pathEscape s = ''.'' \<longleftrightarrow> s = ''.''" "pathEscape s = ''..'' \<longleftrightarrow> s = ''..''"
    using pathEscape_inject [of s "[]"] pathEscape_inject [of s "''.''"] pathEscape_inject [of s "''..''"] by (simp_all add: dots)
  then show ?thesis by (simp add: plainSeg_def)
qed

lemma escapeAssetPath_segs: "strSplit CHR ''/'' (escapeAssetPath p) = map pathEscape (strSplit CHR ''/'' p)"
  unfolding escapeAssetPath_def by (rule strSplit_strJoin) (auto simp: pathEscape_no_slash)

lemma safe_no_escape: "list_all segmentSafe s \<Longrightarrow> pathEscape s = s"
  by (induction s) (auto simp: pathEscape_def escapeChar_def)

lemma unescapeSeg_plain: "list_all segmentSafe s \<Longrightarrow> unescapeSeg s = s"
  by (metis option.simps(5) pathUnescape_pathEscape safe_no_escape unescapeSeg_def)

lemma isLower_safe: "list_all isLower s \<Longrightarrow> list_all segmentSafe s"
  by (auto simp: list_all_iff isLower_def segmentSafe_def less_eq_char_def)

definition serverSeg :: "string \<Rightarrow> string" where
  "serverSeg server = ''sekai-'' @ server @ ''-assets''"

lemma serverSeg_facts:
  assumes "list_all isLower server"
  shows "list_all segmentSafe (serverSeg server)" "CHR ''/'' \<notin> set (serverSeg server)" "plainSeg (serverSeg server)"
  using assms isLower_safe [OF assms] by (auto simp: serverSeg_def segmentSafe_def plainSeg_def list_all_iff isLower_def less_eq_char_def)

lemma serverSeg_neq: "serverSeg server \<notin> {''healthz'', ''metrics'', ''api''}"
  by (simp add: serverSeg_def)

lemma assetURL_segs:
  assumes "list_all isLower server"
  shows "strSplit CHR ''/'' (assetURL server p) = [] # serverSeg server # map pathEscape (strSplit CHR ''/'' p)"
proof -
  have "assetURL server p = [] @ CHR ''/'' # serverSeg server @ CHR ''/'' # escapeAssetPath p"
    by (simp add: assetURL_def serverSeg_def)
  then show ?thesis
    using serverSeg_facts(2) [OF assms] by (simp only: strSplit_append_sep) (simp add: strSplit_free escapeAssetPath_segs)
qed

lemma assetURL_clean:
  assumes "list_all isLower server" and "safeSpec p"
  shows "cleanPath (assetURL server p) = assetURL server p"
proof -
  let ?u = "serverSeg server @ CHR ''/'' # escapeAssetPath p"
  have u: "assetURL server p = CHR ''/'' # ?u" by (simp add: assetURL_def serverSeg_def)
  have plain: "list_all plainSeg (strSplit CHR ''/'' ?u)"
    using serverSeg_facts [OF assms(1)] safeSpec_segs [OF assms(2)]
    by (simp add: strSplit_append_sep strSplit_free escapeAssetPath_segs list_all_iff plainSeg_pathEscape)
  then have "pathClean (assetURL server p) = assetURL server p" unfolding u by (rule pathClean_rooted_plain)
  moreover have "?u \<noteq> s @ ''/''" for s
  proof
    assume "?u = s @ ''/''"
    from arg_cong [OF this, of "strSplit CHR ''/''"] plain show False by (simp add: strSplit_append_sep plainSeg_def)
  qed
  then have "\<not> hasSuffix (assetURL server p) ''/''" unfolding u by (auto simp: hasSuffix_iff Cons_eq_append_conv)
  ultimately show ?thesis by (simp add: cleanPath_def Let_def u hasPrefix_def)
qed

lemma unescape_plain_append:
  "list_all segmentSafe s \<Longrightarrow> pathUnescape t = Some u \<Longrightarrow> pathUnescape (s @ t) = Some (s @ u)"
  by (metis pathUnescape_append safe_no_escape)

lemma assetURL_decodes:
  assumes "list_all isLower server"
  shows "pathUnescape (assetURL server p) = Some (''/sekai-'' @ server @ ''-assets/'' @ p)"
proof -
  have "pathUnescape (CHR ''/'' # escapeAssetPath p) = Some (CHR ''/'' # p)" by (simp add: escapeAssetPath_decodes)
  from unescape_plain_append [OF serverSeg_facts(1) [OF assms] this] show ?thesis by (simp add: assetURL_def serverSeg_def)
qed

lemma assetURL_no_route:
  assumes "list_all isLower server" and "rq_escaped r = assetURL server p"
  shows "find (\<lambda>route. muxMatch (fst route) r) (routes rt) = None"
proof -
  have "hd (tl (map unescapeSeg (strSplit CHR ''/'' (rq_escaped r)))) = serverSeg server"
    using unescapeSeg_plain [OF serverSeg_facts(1) [OF assms(1)]]
    by (simp add: assms(2) assetURL_segs [OF assms(1)])
  moreover have "hd (tl (strSplit CHR ''/'' (fst route))) \<in> {''healthz'', ''metrics'', ''api''}" if "route \<in> set (routes rt)" for route
    using that by (auto simp: routes_def split: option.splits)
  ultimately have "\<not> muxMatch (fst route) r" if "route \<in> set (routes rt)" for route
    using that unfolding muxMatch_def by (metis serverSeg_neq)
  then show ?thesis by (auto simp: find_None_iff)
qed

section \<open>Cursors\<close>

lemma safeSpec_front: "safeSpec (a @ CHR ''/'' # b) \<Longrightarrow> safeSpec a"
proof -
  assume "safeSpec (a @ CHR ''/'' # b)"
  moreover from this have "a \<noteq> []" by (auto simp: safeSpec_def plainSeg_def)
  ultimately show ?thesis by (auto simp: safeSpec_def strSplit_append_sep)
qed

lemma childKey_cursor:
  assumes "safeSpec p" and "hasPrefix p prefix"
  shows "safeSpec (trimSuffix (childKey prefix p) ''/'')" "hasPrefix (childKey prefix p) prefix"
proof -
  obtain r where p: "p = prefix @ r" using assms(2) by (auto elim: hasPrefixE)
  show "hasPrefix (childKey prefix p) prefix" by (simp add: childKey_def hasPrefix_iff)
  show "safeSpec (trimSuffix (childKey prefix p) ''/'')"
  proof (cases "CHR ''/'' \<in> set r")
    case True
    then obtain a b where r: "r = a @ CHR ''/'' # b" "CHR ''/'' \<notin> set a" by (metis split_list_first)
    then have "childKey prefix p = (prefix @ a) @ ''/''" by (simp add: childKey_def p childRest_def takeWhile_sep)
    then have "trimSuffix (childKey prefix p) ''/'' = prefix @ a" by (simp only: trimSuffix_slash)
    then show ?thesis using safeSpec_front [of "prefix @ a" b] assms(1) by (simp add: p r(1))
  next
    case False
    then show ?thesis
      using assms(1) trimSuffix_none [OF safeSpec_no_trailing [OF assms(1)]] by (simp add: childKey_def p childRest_def)
  qed
qed

section \<open>Properties\<close>

lemma browse_answers_recent: "answersRecent conf (AssetBrowserHandler_ServeHTTP uni conf)"
  using browse.answers_recent [of conf uni] by (simp add: browse.serve_def [abs_def] AssetBrowserHandler_ServeHTTP_def [abs_def])

text \<open>C32: The URL of a listed asset leads back to it: the read port's mux does not redirect it, no API route takes it, and it
  reaches the proxy with the server and the path of the entry. The region is a name of lower-case letters, which the prefix
  the router parses requires and the configuration does not check.\<close>

theorem listed_url_reaches_proxy:
  assumes "server \<noteq> []" and "list_all isLower server" and "safeSpec (be_path entry)" and "be_kind entry = BrowseKindAsset"
    and "rq_escaped r = ai_url (toAssetBrowseItem server entry)" and "pathUnescape (rq_escaped r) = Some (rq_path r)"
  shows "mux rt r ws = rt_Proxy rt server (be_path entry) r ws"
proof -
  have u: "rq_escaped r = assetURL server (be_path entry)" using assms(4,5) by (simp add: toAssetBrowseItem_def Let_def)
  then have "parseSekaiPath (rq_path r) = Some (server, be_path entry)"
    using assms(1-3,6) by (simp add: assetURL_decodes [OF assms(2)] parseSekaiPath_iff safeSpec_def)
  then show ?thesis
    using assetURL_no_route [OF assms(2) u, of rt] assetURL_clean [OF assms(2,3)]
    by (simp add: mux_def Let_def u [symmetric] sekaiRoute_def)
qed

definition demo_entry :: browse_entry where
  "demo_entry = assetEntry ''c d.png'' (mkAsset ''jp'' ''a'' ''a/c d.png'' ''1'' ''f1'' False ''s1'') True"

definition demo_url_request :: request where
  "demo_url_request = \<lparr>rq_method = ''GET'', rq_path = ''/sekai-jp-assets/a/c d.png'', rq_escaped = ''/sekai-jp-assets/a/c%20d.png'',
     rq_query = [], rq_header = [], rq_remote = []\<rparr>"

definition demo_router :: "string router" where
  "demo_router = \<lparr>rt_Proxy = (\<lambda>server rel r ws. (fst ws, server @ '':'' @ rel)), rt_Browser = None, rt_Bundles = None,
     rt_Versions = None, rt_Metrics = None\<rparr>"

theorem listed_url_reaches_proxy_witness:
  "mux demo_router demo_url_request (new_writer, []) = (new_writer, ''jp:a/c d.png'')"
proof -
  have "list_all isLower ''jp''" "safeSpec (be_path demo_entry)" "be_kind demo_entry = BrowseKindAsset"
    "rq_escaped demo_url_request = ai_url (toAssetBrowseItem ''jp'' demo_entry)"
    "pathUnescape (rq_escaped demo_url_request) = Some (rq_path demo_url_request)"
    by code_simp+
  then have "mux demo_router demo_url_request (new_writer, [])
      = rt_Proxy demo_router ''jp'' (be_path demo_entry) demo_url_request (new_writer, [])"
    by (intro listed_url_reaches_proxy) simp_all
  moreover have "be_path demo_entry = ''a/c d.png''" by code_simp
  ultimately show ?thesis by (simp add: demo_router_def)
qed

text \<open>Paging through the HTTP interface never gets stuck: the cursor of any page of the listing is accepted, unchanged, as
  the cursor of the next request with the same prefix.\<close>

theorem browse_cursor_accepted:
  assumes "db_wf d" and "\<forall>p \<in> visiblePaths d server. safeSpec p" and "0 < limit"
    and "normalizeBrowsePrefix rawPrefix = Inr prefix" and "normalizeBrowseCursor rawCursor prefix = Inr cursor"
    and "BrowseCurrent f d server prefix cursor limit = Inr r"
  shows "normalizeBrowseCursor (br_next_cursor r) prefix = Inr (br_next_cursor r)"
proof -
  let ?l = "listing d server prefix (startBound prefix cursor)"
  have u: "tbl_unique curKey (db_current d)" using assms(1) by (simp add: db_wf_def)
  have c: "cursor = [] \<or> hasPrefix cursor prefix" using assms(5) by (auto simp: normalizeBrowseCursor_iff hasPrefix_def)
  have "br_next_cursor r = (if nat limit < length ?l then be_path (?l ! (nat limit - 1)) else [])"
    using BrowseCurrent_page(1) [OF assms(1,3) c assms(6)] assms(3) by (simp add: cutPage_take [simplified])
  moreover have "be_path (?l ! i) \<in> childrenFrom d server prefix (startBound prefix cursor)" if "i < length ?l" for i
    using that listing_paths [OF u, of server prefix "startBound prefix cursor"] finite_childrenFrom [OF u]
    by (metis length_map nth_map nth_mem set_sorted_list_of_set)
  ultimately consider "br_next_cursor r = []" | "br_next_cursor r \<in> childrenFrom d server prefix (startBound prefix cursor)"
    by (metis diff_less_Suc less_trans_Suc linorder_not_le less_imp_diff_less)
  then show ?thesis
  proof cases
    case 2
    then obtain p where "p \<in> visiblePaths d server" "hasPrefix p prefix" "br_next_cursor r = childKey prefix p"
      by (auto simp: childrenFrom_def)
    then show ?thesis using assms(2) childKey_cursor [of p prefix] by (simp add: normalizeBrowseCursor_iff)
  qed (simp add: normalizeBrowseCursor_iff)
qed

theorem browse_cursor_accepted_witness:
  "br_next_cursor (projr (BrowseCurrent no_fault demo_browse_db ''en'' ''a/'' [] 1)) = ''a/x/''
   \<and> normalizeBrowseCursor (br_next_cursor (projr (BrowseCurrent no_fault demo_browse_db ''en'' ''a/'' [] 1))) ''a/'' = Inr ''a/x/''"
proof -
  define r where "r = projr (BrowseCurrent no_fault demo_browse_db ''en'' ''a/'' [] 1)"
  have u: "tbl_unique curKey (db_current demo_browse_db)" using demo_browse_wf by (simp add: db_wf_def)
  have "\<forall>p \<in> sharedPaths demo_browse_db \<union> overridePaths demo_browse_db ''en''. safeSpec p" by code_simp
  then have paths: "\<forall>p \<in> visiblePaths demo_browse_db ''en''. safeSpec p" by (simp add: visiblePaths_eq [OF u])
  have n: "normalizeBrowsePrefix ''a'' = Inr ''a/''" "normalizeBrowseCursor [] ''a/'' = Inr []" by code_simp+
  have "BrowseCurrent no_fault demo_browse_db ''en'' ''a/'' [] 1 = Inr r" unfolding r_def by code_simp
  from browse_cursor_accepted [OF demo_browse_wf paths _ n this]
  have "normalizeBrowseCursor (br_next_cursor r) ''a/'' = Inr (br_next_cursor r)" by simp
  moreover have "br_next_cursor r = ''a/x/''" unfolding r_def by code_simp
  ultimately show ?thesis by (simp add: r_def)
qed

end
