(* ===== verification/BundleBrowse.thy ===== *)
theory BundleBrowse
  imports Browse "HOL-Library.Multiset"
begin

text \<open>
  The bundle views of \<^verbatim>\<open>internal/store/bundlebrowse.go\<close>: \<open>BrowseBundles\<close> lists the bundles and
  directories under a prefix from the aggregate tables, \<open>BundleFiles\<close> the files of one bundle as
  a server sees them. Both collect entries in a Go map that the override rows are written to after
  the shared ones, drop what the cursor has passed, sort and cut a page.
\<close>

section \<open>Definitions\<close>

record bundle_entry =
  bb_kind :: string
  bb_name :: string
  bb_path :: string
  bb_fingerprint :: string
  bb_file_count :: int
  bb_total_size :: int
  bb_updated_at :: int
  bb_from_shared :: bool

record bundle_result =
  bbr_items :: "bundle_entry list"
  bbr_next_cursor :: string
  bbr_revision :: nat

definition bbr_zero :: bundle_result where
  "bbr_zero = \<lparr>bbr_items = [], bbr_next_cursor = [], bbr_revision = 0\<rparr>"

record bundle_info =
  bi_path :: string
  bi_fingerprint :: string
  bi_file_count :: int
  bi_total_size :: int
  bi_updated_at :: int
  bi_from_shared :: bool

definition bi_zero :: bundle_info where
  "bi_zero = \<lparr>bi_path = [], bi_fingerprint = [], bi_file_count = 0, bi_total_size = 0, bi_updated_at = 0, bi_from_shared = False\<rparr>"

text \<open>The row \<open>scanBundleRows\<close> hands to its callback, with the flag the callback sets.\<close>

definition entryOfShared :: "shared_bundle \<Rightarrow> bundle_entry" where
  "entryOfShared b = \<lparr>bb_kind = [], bb_name = [], bb_path = sb_bundle_path b, bb_fingerprint = sb_fingerprint b,
     bb_file_count = sb_file_count b, bb_total_size = sb_total_size b, bb_updated_at = sb_updated_at b, bb_from_shared = True\<rparr>"

definition entryOfOverride :: "override_bundle \<Rightarrow> bundle_entry" where
  "entryOfOverride b = \<lparr>bb_kind = [], bb_name = [], bb_path = ob_bundle_path b, bb_fingerprint = ob_fingerprint b,
     bb_file_count = ob_file_count b, bb_total_size = ob_total_size b, bb_updated_at = ob_updated_at b, bb_from_shared = False\<rparr>"

definition addBundleBrowseEntry ::
    "string \<Rightarrow> (string \<times> bundle_entry) list \<Rightarrow> bundle_entry \<Rightarrow> (string \<times> bundle_entry) list" where
  "addBundleBrowseEntry prefix entries e =
     (if bb_path e = [] \<or> \<not> hasPrefix (bb_path e) prefix then entries
      else
        let rest = trimPrefix (bb_path e) prefix
        in if rest = [] then entries
           else
             let (name, _, nested) = strCut CHR ''/'' rest
             in if nested
                then (if name = [] then entries
                      else
                        let path = prefix @ name @ ''/''
                        in mapSet (BrowseKindDirectory @ [CHR 0x00] @ path)
                             \<lparr>bb_kind = BrowseKindDirectory, bb_name = name, bb_path = path, bb_fingerprint = [], bb_file_count = 0,
                              bb_total_size = 0, bb_updated_at = 0, bb_from_shared = False\<rparr> entries)
                else mapSet (BrowseKindBundle @ [CHR 0x00] @ bb_path e)
                       (e\<lparr>bb_kind := BrowseKindBundle, bb_name := rest\<rparr>) entries)"

text \<open>\<open>for _, entry := range entries\<close> with the cursor test; the sort makes the order of the map
  irrelevant.\<close>

definition afterCursor :: "string \<Rightarrow> string \<Rightarrow> bool" where
  "afterCursor cursor path \<longleftrightarrow> \<not> (cursor \<noteq> [] \<and> path \<le> cursor)"

definition BrowseBundles :: "sqlfault \<Rightarrow> db \<Rightarrow> string \<Rightarrow> string \<Rightarrow> string \<Rightarrow> int \<Rightarrow> bundle_result result" where
  "BrowseBundles f d server prefix cursor limit =
     (if limit \<le> 0 then Inr bbr_zero
      else
        bindR (LatestAssetID f d) (\<lambda>revision.
        let upper = nextAfterPrefix prefix
        in bindR (exec (f 1) (sort_key sb_bundle_path (filter (\<lambda>b. inRange prefix upper (sb_bundle_path b)) (db_sbundles d)))) (\<lambda>shared.
           bindR (exec (f 2) (foldl (addBundleBrowseEntry prefix) [] (map entryOfShared shared))) (\<lambda>entries.
           bindR (exec (f 3) (sort_key ob_bundle_path (filter (\<lambda>b. ob_server b = server \<and> inRange prefix upper (ob_bundle_path b)) (db_obundles d)))) (\<lambda>overrides.
           bindR (exec (f 4) (foldl (addBundleBrowseEntry prefix) entries (map entryOfOverride overrides))) (\<lambda>entries.
             let items = sort_key (\<lambda>e. (bb_path e, bb_kind e)) (filter (\<lambda>e. afterCursor cursor (bb_path e)) (map snd entries));
                 (page, next) = cutPage bb_path (nat limit) items
             in Inr \<lparr>bbr_items = page, bbr_next_cursor = next, bbr_revision = revision\<rparr>))))))"

definition lookupBundleInfo :: "sqlfault \<Rightarrow> db \<Rightarrow> string \<Rightarrow> string \<Rightarrow> (bundle_info \<times> bool) result" where
  "lookupBundleInfo f d server bundlePath =
     bindR (exec (f 0) (tbl_lookup obKey (server, bundlePath) (db_obundles d))) (\<lambda>ov.
       case ov of
         Some b \<Rightarrow> Inr (\<lparr>bi_path = bundlePath, bi_fingerprint = ob_fingerprint b, bi_file_count = ob_file_count b,
             bi_total_size = ob_total_size b, bi_updated_at = ob_updated_at b, bi_from_shared = False\<rparr>, True)
       | None \<Rightarrow>
           bindR (exec (f 1) (tbl_lookup sb_bundle_path bundlePath (db_sbundles d))) (\<lambda>sh.
             case sh of
               Some b \<Rightarrow> Inr (\<lparr>bi_path = bundlePath, bi_fingerprint = sb_fingerprint b, bi_file_count = sb_file_count b,
                   bi_total_size = sb_total_size b, bi_updated_at = sb_updated_at b, bi_from_shared = True\<rparr>, True)
             | None \<Rightarrow> Inr (bi_zero, False)))"

text \<open>The part after the last slash, for a file that is its own bundle.\<close>

definition lastSegment :: "string \<Rightarrow> string" where
  "lastSegment p = rev (takeWhile (\<lambda>c. c \<noteq> CHR ''/'') (rev p))"

definition addBundleFileEntry ::
    "string \<Rightarrow> bool \<Rightarrow> (string \<times> browse_entry) list \<Rightarrow> asset \<Rightarrow> (string \<times> browse_entry) list" where
  "addBundleFileEntry bundlePath fromShared entries a =
     (if a_path a = [] then entries
      else
        let name = trimPrefix (a_path a) (bundlePath @ ''/'');
            name = (if name = a_path a \<and> CHR ''/'' \<in> set (a_path a) then lastSegment (a_path a) else name)
        in mapSet (a_path a) (assetEntry name a fromShared) entries)"

definition BundleFiles ::
    "sqlfault \<Rightarrow> db \<Rightarrow> string \<Rightarrow> string \<Rightarrow> string \<Rightarrow> int \<Rightarrow> (browse_result \<times> bundle_info \<times> bool) result" where
  "BundleFiles f d server bundlePath cursor limit =
     (if limit \<le> 0 then Inr (br_zero, bi_zero, False)
      else
        bindR (LatestAssetID f d) (\<lambda>revision.
        bindR (lookupBundleInfo (\<lambda>i. f (i + 1)) d server bundlePath) (\<lambda>(info, found).
        if \<not> found then Inr (br_zero\<lparr>br_revision := revision\<rparr>, bi_zero, False)
        else
          bindR (exec (f 3) (sort_key s_path (filter (\<lambda>r. s_bundle_path r = bundlePath) (db_shared d)))) (\<lambda>shared.
          bindR (exec (f 4) (foldl (addBundleFileEntry bundlePath True) [] (map (\<lambda>r. scanCurrentAssetRow (selectShared r)) shared))) (\<lambda>entries.
          bindR (exec (f 5) (sort_key c_path (filter (\<lambda>r. c_server r = server \<and> c_is_override r \<and> c_bundle_path r = bundlePath) (db_current d)))) (\<lambda>overrides.
          bindR (exec (f 6) (foldl (addBundleFileEntry bundlePath False) entries (map scanCurrentAssetRow overrides))) (\<lambda>entries.
            let items = sort_key be_path (filter (\<lambda>e. afterCursor cursor (be_path e)) (map snd entries));
                (page, next) = cutPage be_path (nat limit) items
            in Inr (\<lparr>br_items = page, br_next_cursor = next, br_revision = revision\<rparr>, info, True))))))))"

section \<open>Collecting entries in a map\<close>

definition keyedPut :: "('e \<Rightarrow> ('k \<times> 'v) option) \<Rightarrow> ('k \<times> 'v) list \<Rightarrow> 'e \<Rightarrow> ('k \<times> 'v) list" where
  "keyedPut kf m e = (case kf e of None \<Rightarrow> m | Some (k, v) \<Rightarrow> mapSet k v m)"

lemma keyedPut_distinct: "distinct (map fst m) \<Longrightarrow> distinct (map fst (foldl (keyedPut kf) m es))"
  by (induction es arbitrary: m) (auto simp: keyedPut_def distinct_mapSet split: option.splits)

text \<open>The last element with a key decides.\<close>

lemma keyedPut_get:
  "mapGet k (foldl (keyedPut kf) m es) =
     (case mapGet k (rev (List.map_filter kf es)) of None \<Rightarrow> mapGet k m | Some v \<Rightarrow> Some v)"
proof (induction es arbitrary: m)
  case (Cons e es)
  then show ?case
    by (auto simp: keyedPut_def List.map_filter_simps mapGet_append split: option.splits)
qed (simp add: List.map_filter_simps)

lemma mapGet_rev:
  assumes "distinct (map fst kvs)"
  shows "mapGet k (rev kvs) = mapGet k kvs"
proof (cases "mapGet k kvs")
  case None
  then have "mapGet k (rev kvs) = None" by (simp add: mapGet_None_iff)
  with None show ?thesis by simp
next
  case (Some v)
  then have "(k, v) \<in> set (rev kvs)" by (simp add: mapGet_SomeD)
  moreover have "distinct (map fst (rev kvs))" using assms by (simp add: rev_map [symmetric])
  ultimately show ?thesis using Some mapGet_member by metis
qed

lemma map_sort_key: "map f (sort_key f xs) = sort (map f xs)"
  by (rule properties_for_sort [symmetric]) simp_all

text \<open>A page of a map whose values know their keys.\<close>

lemma page_of_map:
  assumes "distinct (map fst m)" and "\<And>k v. (k, v) \<in> set m \<Longrightarrow> path v = k"
  shows "map path (sort_key path (filter (\<lambda>e. P (path e)) (map snd m))) = sorted_list_of_set {k \<in> fst ` set m. P k}"
proof -
  have "map path (map snd m) = map fst m" using assms(2) by auto
  then have "map path (filter (\<lambda>e. P (path e)) (map snd m)) = filter P (map fst m)"
    by (metis (mono_tags, lifting) filter_cong filter_map o_apply)
  then have "map path (sort_key path (filter (\<lambda>e. P (path e)) (map snd m))) = sort (filter P (map fst m))"
    by (simp add: map_sort_key)
  also have "\<dots> = sorted_list_of_set (set (filter P (map fst m)))"
    using assms(1) by (metis distinct_filter distinct_remdups_id sorted_list_of_set_sort_remdups)
  finally show ?thesis by (simp add: conj_commute)
qed

lemma mapGet_members:
  assumes "distinct (map fst m)"
  shows "(k, v) \<in> set m \<longleftrightarrow> mapGet k m = Some v"
  using mapGet_member [OF assms] mapGet_SomeD by fast

section \<open>The files of a bundle\<close>

definition fileName :: "string \<Rightarrow> string \<Rightarrow> string" where
  "fileName bundlePath p =
     (let name = trimPrefix p (bundlePath @ ''/'')
      in if name = p \<and> CHR ''/'' \<in> set p then lastSegment p else name)"

definition fileKey :: "string \<Rightarrow> bool \<Rightarrow> asset \<Rightarrow> (string \<times> browse_entry) option" where
  "fileKey bp fs a = (if a_path a = [] then None else Some (a_path a, assetEntry (fileName bp (a_path a)) a fs))"

lemma addBundleFileEntry_keyed: "addBundleFileEntry bp fs = keyedPut (fileKey bp fs)"
  by (rule ext)+ (simp add: addBundleFileEntry_def keyedPut_def fileKey_def fileName_def Let_def)

text \<open>The row of a bundle at a path: the server's override in that bundle, else the shared row in it.\<close>

definition bundleFileRow :: "db \<Rightarrow> string \<Rightarrow> string \<Rightarrow> string \<Rightarrow> (asset \<times> bool) option" where
  "bundleFileRow d server bp p =
     (case filter_option (\<lambda>r. c_is_override r \<and> c_bundle_path r = bp) (tbl_lookup curKey (server, p) (db_current d)) of
        Some r \<Rightarrow> Some (scanCurrentAssetRow r, False)
      | None \<Rightarrow> map_option (\<lambda>r. (scanCurrentAssetRow (selectShared r), True))
                  (filter_option (\<lambda>r. s_bundle_path r = bp) (tbl_lookup s_path p (db_shared d))))"

lemma map_filter_fileKey:
  "List.map_filter (fileKey bp fs) as = map (\<lambda>a. (a_path a, assetEntry (fileName bp (a_path a)) a fs)) (filter (\<lambda>a. a_path a \<noteq> []) as)"
  by (induction as) (auto simp: List.map_filter_def fileKey_def)

lemma mapGet_assets:
  assumes "distinct (map a_path as)" and "p \<noteq> []"
  shows "mapGet p (rev (List.map_filter (fileKey bp fs) as)) =
    map_option (\<lambda>a. assetEntry (fileName bp p) a fs) (tbl_lookup a_path p as)"
proof -
  let ?kvs = "map (\<lambda>a. (a_path a, assetEntry (fileName bp (a_path a)) a fs)) (filter (\<lambda>a. a_path a \<noteq> []) as)"
  have "distinct (map fst ?kvs)" using assms(1) by (simp add: o_def distinct_map_filter)
  then have "mapGet p (rev ?kvs) = mapGet p ?kvs" by (rule mapGet_rev)
  also have "\<dots> = map_option (\<lambda>a. assetEntry (fileName bp p) a fs) (tbl_lookup a_path p as)"
    using assms(2) by (induction as) (auto simp: mapGet_def tbl_lookup_def)
  finally show ?thesis by (simp add: map_filter_fileKey)
qed

lemma distinct_sort_key: "tbl_unique key t \<Longrightarrow> distinct (map key (sort_key ord t))"
  by (simp add: tbl_unique_def distinct_map)

text \<open>The map that \<open>BundleFiles\<close> fills.\<close>

definition bundleFileMap :: "db \<Rightarrow> string \<Rightarrow> string \<Rightarrow> (string \<times> browse_entry) list" where
  "bundleFileMap d server bp =
     foldl (addBundleFileEntry bp False)
       (foldl (addBundleFileEntry bp True) [] (map (\<lambda>r. scanCurrentAssetRow (selectShared r))
          (sort_key s_path (filter (\<lambda>r. s_bundle_path r = bp) (db_shared d)))))
       (map scanCurrentAssetRow (sort_key c_path
          (filter (\<lambda>r. c_server r = server \<and> c_is_override r \<and> c_bundle_path r = bp) (db_current d))))"

lemma shared_rows:
  fixes d :: db and bp :: string
  assumes "tbl_unique s_path (db_shared d)"
  defines "as \<equiv> map (\<lambda>r. scanCurrentAssetRow (selectShared r)) (sort_key s_path (filter (\<lambda>r. s_bundle_path r = bp) (db_shared d)))"
  shows "distinct (map a_path as)"
    and "tbl_lookup a_path p as = map_option (\<lambda>r. scanCurrentAssetRow (selectShared r))
      (filter_option (\<lambda>r. s_bundle_path r = bp) (tbl_lookup s_path p (db_shared d)))"
proof -
  let ?t = "filter (\<lambda>r. s_bundle_path r = bp) (db_shared d)"
  have path: "a_path \<circ> (\<lambda>r. scanCurrentAssetRow (selectShared r)) = s_path"
    by (rule ext) (simp add: scanCurrentAssetRow_def selectShared_def)
  have u: "tbl_unique s_path ?t" using assms(1) by (rule tbl_unique_filter)
  then show "distinct (map a_path as)"
    unfolding as_def map_map path by (rule distinct_sort_key)
  have "tbl_lookup a_path p (map (\<lambda>r. scanCurrentAssetRow (selectShared r)) xs)
      = map_option (\<lambda>r. scanCurrentAssetRow (selectShared r)) (tbl_lookup s_path p xs)" for xs
    using fun_cong [OF path] by (induction xs) (auto simp: tbl_lookup_def)
  then show "tbl_lookup a_path p as = map_option (\<lambda>r. scanCurrentAssetRow (selectShared r))
      (filter_option (\<lambda>r. s_bundle_path r = bp) (tbl_lookup s_path p (db_shared d)))"
    by (simp add: as_def tbl_lookup_sort [OF u] tbl_lookup_filter [OF assms(1)])
qed

lemma override_rows:
  fixes d :: db and server bp :: string
  assumes "tbl_unique curKey (db_current d)"
  defines "as \<equiv> map scanCurrentAssetRow (sort_key c_path
      (filter (\<lambda>r. c_server r = server \<and> c_is_override r \<and> c_bundle_path r = bp) (db_current d)))"
  shows "distinct (map a_path as)"
    and "tbl_lookup a_path p as = map_option scanCurrentAssetRow
      (filter_option (\<lambda>r. c_is_override r \<and> c_bundle_path r = bp) (tbl_lookup curKey (server, p) (db_current d)))"
proof -
  let ?P = "\<lambda>r. c_server r = server \<and> c_is_override r \<and> c_bundle_path r = bp"
  let ?t = "filter ?P (db_current d)"
  have path: "a_path \<circ> scanCurrentAssetRow = c_path"
    by (rule ext) (simp add: scanCurrentAssetRow_def)
  have u: "tbl_unique curKey ?t" using assms(1) by (rule tbl_unique_filter)
  have keys: "map curKey ?t = map (\<lambda>r. (server, c_path r)) ?t" by (simp add: curKey_def)
  have "distinct (map (\<lambda>r. (server, c_path r)) ?t)" using u unfolding tbl_unique_def keys .
  then have dp: "tbl_unique c_path ?t" by (auto simp: tbl_unique_def distinct_map inj_on_def)
  then show "distinct (map a_path as)"
    unfolding as_def map_map path by (rule distinct_sort_key)
  have "tbl_lookup a_path p (map scanCurrentAssetRow xs) = map_option scanCurrentAssetRow (tbl_lookup c_path p xs)" for xs
    using fun_cong [OF path] by (induction xs) (auto simp: tbl_lookup_def)
  moreover have "tbl_lookup c_path p xs = tbl_lookup curKey (server, p) xs" if "\<forall>r \<in> set xs. c_server r = server" for xs
    using that by (induction xs) (auto simp: tbl_lookup_def curKey_def)
  moreover have "filter_option ?P (tbl_lookup curKey (server, p) (db_current d))
      = filter_option (\<lambda>r. c_is_override r \<and> c_bundle_path r = bp) (tbl_lookup curKey (server, p) (db_current d))"
    by (cases "tbl_lookup curKey (server, p) (db_current d)") (auto simp: curKey_def dest: tbl_lookup_SomeD)
  ultimately show "tbl_lookup a_path p as = map_option scanCurrentAssetRow
      (filter_option (\<lambda>r. c_is_override r \<and> c_bundle_path r = bp) (tbl_lookup curKey (server, p) (db_current d)))"
    by (simp add: as_def tbl_lookup_sort [OF dp] tbl_lookup_filter [OF assms(1)])
qed

lemma bundleFileMap_get:
  assumes "tbl_unique s_path (db_shared d)" and "tbl_unique curKey (db_current d)"
  shows "mapGet p (bundleFileMap d server bp) =
      (if p = [] then None else map_option (\<lambda>(a, fs). assetEntry (fileName bp p) a fs) (bundleFileRow d server bp p))"
    and "distinct (map fst (bundleFileMap d server bp))"
proof -
  note s = shared_rows [OF assms(1), where bp = bp] and o' = override_rows [OF assms(2), where server = server and bp = bp]
  show "distinct (map fst (bundleFileMap d server bp))"
    unfolding bundleFileMap_def addBundleFileEntry_keyed by (intro keyedPut_distinct) simp
  show "mapGet p (bundleFileMap d server bp) =
      (if p = [] then None else map_option (\<lambda>(a, fs). assetEntry (fileName bp p) a fs) (bundleFileRow d server bp p))"
  proof (cases "p = []")
    case True
    have "mapGet [] (rev (List.map_filter (fileKey bp fs) as)) = None" for fs as
      by (auto simp: map_filter_fileKey mapGet_None_iff)
    with True show ?thesis by (simp add: bundleFileMap_def addBundleFileEntry_keyed keyedPut_get)
  next
    case False
    show ?thesis
      unfolding bundleFileMap_def addBundleFileEntry_keyed keyedPut_get
        mapGet_assets [OF s(1) False] mapGet_assets [OF o'(1) False] s(2) o'(2)
      using False by (auto simp: bundleFileRow_def split: option.splits)
  qed
qed

lemma BundleFiles_page:
  assumes "db_wf d" and "0 < limit" and "BundleFiles f d server bp cursor limit = Inr (r, info, True)"
  shows "(br_items r, br_next_cursor r) = cutPage be_path (nat limit)
      (sort_key be_path (filter (\<lambda>e. afterCursor cursor (be_path e)) (map snd (bundleFileMap d server bp))))"
  using assms by (auto simp: BundleFiles_def bindR_Inr_iff exec_Inr_iff Let_def case_prod_unfold bundleFileMap_def split: if_splits)

lemma cutPage_cases:
  "0 < n \<Longrightarrow> cutPage path n xs = (take n xs, if n < length xs then path (xs ! (n - 1)) else [])"
  by (simp add: cutPage_def)

lemma cutPage_last:
  assumes "(a, []) = cutPage path n xs" and "0 < n" and "\<And>e. e \<in> set xs \<Longrightarrow> path e \<noteq> []"
  shows "a = xs"
proof (cases "n < length xs")
  case True
  then have "path (xs ! (n - 1)) \<noteq> []" by (intro assms(3) nth_mem) simp
  with True assms(1) show ?thesis by (simp add: cutPage_def)
qed (use assms(1) in \<open>simp add: cutPage_def\<close>)

lemma bundleFileMap_path:
  assumes "tbl_unique s_path (db_shared d)" and "tbl_unique curKey (db_current d)" and "(p, e) \<in> set (bundleFileMap d server bp)"
  shows "be_path e = p" and "\<exists>a fs. bundleFileRow d server bp p = Some (a, fs) \<and> e = assetEntry (fileName bp p) a fs" and "p \<noteq> []"
proof -
  have "mapGet p (bundleFileMap d server bp) = Some e"
    using bundleFileMap_get(2) [OF assms(1,2)] assms(3) by (rule mapGet_member)
  then obtain a fs where a: "bundleFileRow d server bp p = Some (a, fs)" "e = assetEntry (fileName bp p) a fs" "p \<noteq> []"
    by (auto simp: bundleFileMap_get(1) [OF assms(1,2)] split: if_splits)
  moreover have "a_path a = p"
    using a(1) by (auto simp: bundleFileRow_def scanCurrentAssetRow_def selectShared_def curKey_def filter_option_def
        dest!: tbl_lookup_SomeD split: option.splits if_splits)
  ultimately show "be_path e = p" "\<exists>a fs. bundleFileRow d server bp p = Some (a, fs) \<and> e = assetEntry (fileName bp p) a fs" "p \<noteq> []"
    by (auto simp: assetEntry_def)
qed

text \<open>Two shared files in one bundle; a server overrides one of them in another bundle.\<close>

definition demo_bundle_db :: db where
  "demo_bundle_db = empty_db\<lparr>
     db_shared := [sharedOfAsset (mkAsset ''jp'' ''b'' ''b/y'' ''1'' ''f3'' False ''f3''), sharedOfAsset (mkAsset ''jp'' ''b'' ''b/x'' ''1'' ''f1'' False ''f1'')],
     db_current := [curOfAsset (mkAsset ''en'' ''c'' ''b/y'' ''1'' ''f4'' True ''f4'')],
     db_sbundles := [\<lparr>sb_bundle_path = ''b'', sb_fingerprint = ''f3'', sb_file_count = 2, sb_total_size = 20, sb_updated_at = 0\<rparr>]\<rparr>"

definition demo_files :: "browse_result \<times> bundle_info \<times> bool" where
  "demo_files = projr (BundleFiles no_fault demo_bundle_db ''en'' ''b'' [] 5)"

lemma demo_bundle_wf: "db_wf demo_bundle_db"
  by code_simp

lemma demo_files_run: "BundleFiles no_fault demo_bundle_db ''en'' ''b'' [] 5 = Inr (fst demo_files, fst (snd demo_files), True)"
  "map (\<lambda>e. (be_path e, be_fingerprint e)) (br_items (fst demo_files)) = [(''b/x'', ''f1''), (''b/y'', ''f3'')]" "br_next_cursor (fst demo_files) = []"
  by code_simp+

lemma BundleFiles_correct_facts:
  assumes "db_wf d" and "0 < limit" and "BundleFiles f d server bp cursor limit = Inr (r, info, True)"
  shows "map be_path (br_items r) = take (nat limit)
      (sorted_list_of_set {p. p \<noteq> [] \<and> bundleFileRow d server bp p \<noteq> None \<and> afterCursor cursor p})"
    and "e \<in> set (br_items r) \<Longrightarrow> \<exists>a fs. bundleFileRow d server bp (be_path e) = Some (a, fs) \<and> e = assetEntry (fileName bp (be_path e)) a fs"
proof -
  have u: "tbl_unique s_path (db_shared d)" "tbl_unique curKey (db_current d)" using assms(1) by (simp_all add: db_wf_def)
  let ?m = "bundleFileMap d server bp"
  let ?items = "sort_key be_path (filter (\<lambda>e. afterCursor cursor (be_path e)) (map snd ?m))"
  have items: "br_items r = take (nat limit) ?items"
    using BundleFiles_page [OF assms] assms(2) by (simp add: cutPage_cases)
  have "p \<in> fst ` set ?m \<longleftrightarrow> mapGet p ?m \<noteq> None" for p by (simp add: mapGet_None_iff)
  then have "{p \<in> fst ` set ?m. afterCursor cursor p} = {p. p \<noteq> [] \<and> bundleFileRow d server bp p \<noteq> None \<and> afterCursor cursor p}"
    by (auto simp: bundleFileMap_get(1) [OF u])
  moreover have "map be_path ?items = sorted_list_of_set {p \<in> fst ` set ?m. afterCursor cursor p}"
    by (rule page_of_map [OF bundleFileMap_get(2) [OF u]]) (rule bundleFileMap_path(1) [OF u])
  ultimately show "map be_path (br_items r) = take (nat limit)
      (sorted_list_of_set {p. p \<noteq> [] \<and> bundleFileRow d server bp p \<noteq> None \<and> afterCursor cursor p})"
    by (simp add: items take_map [symmetric])
  assume "e \<in> set (br_items r)"
  then have "e \<in> set ?items" unfolding items by (rule in_set_takeD)
  then obtain p where "(p, e) \<in> set ?m" by auto
  with bundleFileMap_path [OF u this] show "\<exists>a fs. bundleFileRow d server bp (be_path e) = Some (a, fs) \<and> e = assetEntry (fileName bp (be_path e)) a fs"
    by simp
qed

text \<open>C27: The file listing of a bundle is complete, sorted and free of duplicates: the paths listed are
  the first ones after the cursor of those that the server's overrides or the shared rows put in the bundle,
  and at each path the override row of the bundle wins over the shared row.\<close>

theorem BundleFiles_correct:
  assumes "db_wf d" and "0 < limit" and "BundleFiles f d server bp cursor limit = Inr (r, info, True)"
  shows "map be_path (br_items r) = take (nat limit)
      (sorted_list_of_set {p. p \<noteq> [] \<and> bundleFileRow d server bp p \<noteq> None \<and> afterCursor cursor p})
    \<and> (\<forall>e \<in> set (br_items r). \<exists>a fs. bundleFileRow d server bp (be_path e) = Some (a, fs)
         \<and> e = assetEntry (fileName bp (be_path e)) a fs)"
  using BundleFiles_correct_facts [OF assms] by blast

theorem BundleFiles_correct_witness:
  "db_wf demo_bundle_db \<and> take 5 (sorted_list_of_set {p. p \<noteq> [] \<and> bundleFileRow demo_bundle_db ''en'' ''b'' p \<noteq> None \<and> afterCursor [] p})
     = [''b/x'', ''b/y'']"
proof -
  have "map be_path (br_items (fst demo_files)) = [''b/x'', ''b/y'']"
    using arg_cong [OF demo_files_run(2), of "map fst"] by (simp add: o_def)
  then show ?thesis
    using BundleFiles_correct [OF demo_bundle_wf _ demo_files_run(1)] demo_bundle_wf by simp
qed

text \<open>The bundle view and the proxy can disagree: where a server's override of a path sits in another
  bundle than the shared row, the shared row's bundle still lists the path with the shared
  metadata, while the proxy serves the override.\<close>

theorem BundleFiles_ignores_moved_override:
  assumes "db_wf d" and "BundleFiles f d server bp [] limit = Inr (r, info, True)" and "0 < limit" and "br_next_cursor r = []"
    and "tbl_lookup s_path p (db_shared d) = Some sh" and "s_bundle_path sh = bp" and "p \<noteq> []"
    and "tbl_lookup curKey (server, p) (db_current d) = Some ov" and "c_is_override ov" and "c_bundle_path ov \<noteq> bp"
  shows "\<exists>e \<in> set (br_items r). be_path e = p \<and> be_fingerprint e = s_fingerprint sh \<and> be_from_shared e
    \<and> LookupPlacement no_fault d server p = Inr (placementFromAsset (scanCurrentAssetRow ov) False)"
proof -
  have u: "tbl_unique s_path (db_shared d)" "tbl_unique curKey (db_current d)" using assms(1) by (simp_all add: db_wf_def)
  let ?m = "bundleFileMap d server bp" and ?e = "assetEntry (fileName bp p) (scanCurrentAssetRow (selectShared sh)) True"
  let ?items = "sort_key be_path (filter (\<lambda>e. afterCursor [] (be_path e)) (map snd ?m))"
  have "(br_items r, br_next_cursor r) = cutPage be_path (nat limit) ?items" by (rule BundleFiles_page [OF assms(1,3,2)])
  moreover have "bundleFileRow d server bp p = Some (scanCurrentAssetRow (selectShared sh), True)"
    using assms(5-) by (simp add: bundleFileRow_def)
  then have "mapGet p ?m = Some ?e" using assms(7) by (simp add: bundleFileMap_get(1) [OF u])
  then have mem: "?e \<in> set ?items" by (force simp: afterCursor_def dest: mapGet_SomeD)
  have path: "be_path e \<noteq> []" if "e \<in> set ?items" for e
    using that bundleFileMap_path(1,3) [OF u] by force
  ultimately have "br_items r = ?items"
    using assms(3,4) by (intro cutPage_last [of "br_items r" be_path "nat limit" ?items]) simp_all
  moreover have "be_path ?e = p" "be_fingerprint ?e = s_fingerprint sh" "be_from_shared ?e"
    using tbl_lookup_SomeD [OF assms(5)] by (auto simp: assetEntry_def scanCurrentAssetRow_def selectShared_def)
  moreover have "LookupPlacement no_fault d server p = Inr (placementFromAsset (scanCurrentAssetRow ov) False)"
    using assms(8,9) by (intro LookupPlacement_visible) (simp add: visibleRow_def)
  ultimately show ?thesis using mem by (metis (no_types, lifting))
qed

theorem BundleFiles_ignores_moved_override_witness:
  "\<exists>e \<in> set (br_items (fst demo_files)). be_path e = ''b/y'' \<and> be_fingerprint e = ''f3''
     \<and> (\<exists>p. LookupPlacement no_fault demo_bundle_db ''en'' ''b/y'' = Inr p \<and> p_fingerprint p = ''f4'')"
proof -
  have "tbl_lookup s_path ''b/y'' (db_shared demo_bundle_db) = Some (sharedOfAsset (mkAsset ''jp'' ''b'' ''b/y'' ''1'' ''f3'' False ''f3''))"
    "tbl_lookup curKey (''en'', ''b/y'') (db_current demo_bundle_db) = Some (curOfAsset (mkAsset ''en'' ''c'' ''b/y'' ''1'' ''f4'' True ''f4''))"
    by code_simp+
  from BundleFiles_ignores_moved_override [OF demo_bundle_wf demo_files_run(1) _ demo_files_run(3) this(1) _ _ this(2)]
  show ?thesis
    by (auto simp: sharedOfAsset_def curOfAsset_def mkAsset_def placementFromAsset_def scanCurrentAssetRow_def)
qed

end
