(* ===== verification/BundlesApi.thy ===== *)
theory BundlesApi
  imports BrowserApi BundleBrowse
begin

text \<open>
  \<^verbatim>\<open>internal/httpapi/bundles.go\<close>: the bundle listing and the file listing of one bundle, two endpoints of
  one handler with one response cache. The handler's limits and cache methods are the same text as in
  \<^verbatim>\<open>browser.go\<close> and are the definitions of theory ApiCore.
\<close>

section \<open>Definitions\<close>

record bundle_browse_item =
  bt_type :: string
  bt_name :: string
  bt_path :: string
  bt_fingerprint :: string
  bt_file_count :: "int option"
  bt_total_size :: "int option"
  bt_source :: string
  bt_files_url :: string

record bundle_browse_response =
  bw_server :: string
  bw_prefix :: string
  bw_limit :: int
  bw_next :: string
  bw_revision :: nat
  bw_items :: "bundle_browse_item list"

record bundle_meta =
  bm_path :: string
  bm_fingerprint :: string
  bm_file_count :: int
  bm_total_size :: int
  bm_source :: string

record bundle_files_response =
  bf_server :: string
  bf_bundle :: bundle_meta
  bf_limit :: int
  bf_next :: string
  bf_revision :: nat
  bf_items :: "asset_browse_item list"

definition bundleBrowseItem_json :: "bundle_browse_item \<Rightarrow> json" where
  "bundleBrowseItem_json i = JObj ([(''type'', JStr (bt_type i)), (''name'', JStr (bt_name i)), (''path'', JStr (bt_path i))]
     @ omitStr ''fingerprint'' (bt_fingerprint i) @ omitPtr ''fileCount'' (bt_file_count i) @ omitPtr ''totalSize'' (bt_total_size i)
     @ omitStr ''source'' (bt_source i) @ omitStr ''filesUrl'' (bt_files_url i))"

definition bundleBrowseResponse_json :: "bundle_browse_response \<Rightarrow> json" where
  "bundleBrowseResponse_json a = JObj ([(''server'', JStr (bw_server a)), (''prefix'', JStr (bw_prefix a)), (''limit'', JInt (bw_limit a))]
     @ omitStr ''nextCursor'' (bw_next a)
     @ [(''snapshotRevision'', JInt (int (bw_revision a))), (''items'', JArr (map bundleBrowseItem_json (bw_items a)))])"

definition bundleMeta_json :: "bundle_meta \<Rightarrow> json" where
  "bundleMeta_json m = JObj ([(''path'', JStr (bm_path m))] @ omitStr ''fingerprint'' (bm_fingerprint m)
     @ [(''fileCount'', JInt (bm_file_count m)), (''totalSize'', JInt (bm_total_size m)), (''source'', JStr (bm_source m))])"

definition bundleFilesResponse_json :: "bundle_files_response \<Rightarrow> json" where
  "bundleFilesResponse_json a = JObj ([(''server'', JStr (bf_server a)), (''bundle'', bundleMeta_json (bf_bundle a)), (''limit'', JInt (bf_limit a))]
     @ omitStr ''nextCursor'' (bf_next a)
     @ [(''snapshotRevision'', JInt (int (bf_revision a))), (''items'', JArr (map assetBrowseItem_json (bf_items a)))])"

definition filesURL :: "string \<Rightarrow> string \<Rightarrow> string" where
  "filesURL server path = ''/api/assets/bundle-files?server='' @ queryEscape server @ ''&path='' @ queryEscape path"

definition toBundleBrowseItem :: "string \<Rightarrow> bundle_entry \<Rightarrow> bundle_browse_item" where
  "toBundleBrowseItem server entry =
     (let item = \<lparr>bt_type = bb_kind entry, bt_name = bb_name entry, bt_path = bb_path entry, bt_fingerprint = [],
                  bt_file_count = None, bt_total_size = None, bt_source = [], bt_files_url = []\<rparr>
      in if bb_kind entry \<noteq> BrowseKindBundle then item
         else item\<lparr>bt_fingerprint := bb_fingerprint entry, bt_file_count := Some (bb_file_count entry),
                bt_total_size := Some (bb_total_size entry),
                bt_source := (if bb_from_shared entry then ''shared'' else ''override''),
                bt_files_url := filesURL server (bb_path entry)\<rparr>)"

definition normalizeBundlePath :: "string \<Rightarrow> path_error + string" where
  "normalizeBundlePath raw =
     (if raw = [] then Inl ErrBadPath
      else if contains raw [CHR 0x5C] \<or> contains raw [CHR 0x00] \<or> hasPrefix raw ''/'' \<or> hasPrefix raw ''.'' then Inl ErrBadPath
      else
        let trimmed = trimSuffix raw ''/''
        in if trimmed = [] then Inl ErrBadPath
           else bindR (SafeRelPath trimmed) (\<lambda>safe.
             if raw \<noteq> safe \<and> raw \<noteq> safe @ ''/'' then Inl ErrBadPath else Inr safe))"

definition bundlesFresh :: "sqlfault \<Rightarrow> db \<Rightarrow> string \<Rightarrow> string \<Rightarrow> string \<Rightarrow> int \<Rightarrow> (writer \<Rightarrow> writer) + json" where
  "bundlesFresh f d server prefix cursor limit =
     bindR (orElse (httpError ''browse bundles'' 500) (BrowseBundles f d server prefix cursor limit)) (\<lambda>result.
       Inr (bundleBrowseResponse_json
         \<lparr>bw_server = server, bw_prefix = prefix, bw_limit = limit, bw_next = bbr_next_cursor result,
          bw_revision = bbr_revision result, bw_items = map (toBundleBrowseItem server) (bbr_items result)\<rparr>))"

definition serveBundles :: "'a api_conf_scheme \<Rightarrow> sqlfault \<Rightarrow> db \<Rightarrow> string \<Rightarrow> request \<Rightarrow> plan" where
  "serveBundles h f d server r =
     bindR (orElse (httpError ''bad prefix'' 400) (normalizeBrowsePrefix (queryGet ''prefix'' r))) (\<lambda>prefix.
     bindR (orElse (httpError ''bad cursor'' 400) (normalizeBrowseCursor (queryGet ''cursor'' r) prefix)) (\<lambda>cursor.
     bindR (orElse (httpError ''bad limit'' 400) (parseBrowseLimit (queryGet ''limit'' r) (defaultLimit h) (maxLimit h))) (\<lambda>limit.
     bindR (orElse (httpError ''lookup revision'' 500) (LatestAssetID f d)) (\<lambda>revision.
       Inr (nulJoin [''bundles'', formatNat revision, server, prefix, cursor, formatInt limit],
            bundlesFresh (\<lambda>i. f (i + 1)) d server prefix cursor limit)))))"

definition bundleFilesFresh :: "sqlfault \<Rightarrow> db \<Rightarrow> string \<Rightarrow> string \<Rightarrow> string \<Rightarrow> int \<Rightarrow> (writer \<Rightarrow> writer) + json" where
  "bundleFilesFresh f d server bundlePath cursor limit =
     bindR (orElse (httpError ''list bundle files'' 500) (BundleFiles f d server bundlePath cursor limit)) (\<lambda>(result, info, found).
       if \<not> found then Inl httpNotFound
       else Inr (bundleFilesResponse_json
         \<lparr>bf_server = server,
          bf_bundle = \<lparr>bm_path = bi_path info, bm_fingerprint = bi_fingerprint info, bm_file_count = bi_file_count info,
                       bm_total_size = bi_total_size info, bm_source = (if bi_from_shared info then ''shared'' else ''override'')\<rparr>,
          bf_limit = limit, bf_next = br_next_cursor result, bf_revision = br_revision result,
          bf_items = map (toAssetBrowseItem server) (br_items result)\<rparr>))"

definition serveBundleFiles :: "'a api_conf_scheme \<Rightarrow> sqlfault \<Rightarrow> db \<Rightarrow> string \<Rightarrow> request \<Rightarrow> plan" where
  "serveBundleFiles h f d server r =
     bindR (orElse (httpError ''bad path'' 400) (normalizeBundlePath (queryGet ''path'' r))) (\<lambda>bundlePath.
     bindR (orElse (httpError ''bad cursor'' 400) (normalizeBrowseCursor (queryGet ''cursor'' r) (bundlePath @ ''/''))) (\<lambda>cursor.
     bindR (orElse (httpError ''bad limit'' 400) (parseBrowseLimit (queryGet ''limit'' r) (defaultLimit h) (maxLimit h))) (\<lambda>limit.
     bindR (orElse (httpError ''lookup revision'' 500) (LatestAssetID f d)) (\<lambda>revision.
       Inr (nulJoin [''bundle-files'', formatNat revision, server, bundlePath, cursor, formatInt limit],
            bundleFilesFresh (\<lambda>i. f (i + 1)) d server bundlePath cursor limit)))))"

definition bundlesPlan :: "(string \<Rightarrow> string) \<Rightarrow> 'a api_conf_scheme \<Rightarrow> sqlfault \<Rightarrow> db option \<Rightarrow> request \<Rightarrow> plan" where
  "bundlesPlan uni h f d r =
     guardApi uni h ''bundle browser unavailable'' d r (\<lambda>d server.
       if hasSuffix (rq_path r) ''/bundle-files'' then serveBundleFiles h f d server r else serveBundles h f d server r)"

definition AssetBundlesHandler_ServeHTTP ::
    "(string \<Rightarrow> string) \<Rightarrow> 'a api_conf_scheme \<Rightarrow> api_event \<Rightarrow> writer \<times> resp_cache \<Rightarrow> writer \<times> resp_cache" where
  "AssetBundlesHandler_ServeHTTP uni h e =
     servePlan h (ev_now e) (ev_req e) (bundlesPlan uni h (ev_fault e) (ev_db e) (ev_req e))"

section \<open>The cache key\<close>

text \<open>What the request of a listing decides: the endpoint, the path parameter, the cursor and the limit.\<close>

definition bundleParams :: "'a api_conf_scheme \<Rightarrow> request \<Rightarrow> (bool \<times> string \<times> string \<times> int) option" where
  "bundleParams h r =
     (let files = hasSuffix (rq_path r) ''/bundle-files'';
          path = (if files then normalizeBundlePath (queryGet ''path'' r) else normalizeBrowsePrefix (queryGet ''prefix'' r))
      in case path of Inl _ \<Rightarrow> None
         | Inr p \<Rightarrow>
             (case (normalizeBrowseCursor (queryGet ''cursor'' r) (if files then p @ ''/'' else p),
                    parseBrowseLimit (queryGet ''limit'' r) (defaultLimit h) (maxLimit h)) of
                (Inr c, Inr l) \<Rightarrow> Some (files, p, c, l) | _ \<Rightarrow> None))"

definition bundleTag :: "bool \<Rightarrow> string" where
  "bundleTag files = (if files then ''bundle-files'' else ''bundles'')"

lemma bundleTag_facts: "CHR 0x00 \<notin> set (bundleTag b)" "bundleTag b = bundleTag b' \<longleftrightarrow> b = b'"
  by (simp_all add: bundleTag_def)

definition bundlesKey :: "nat \<Rightarrow> string \<Rightarrow> bool \<times> string \<times> string \<times> int \<Rightarrow> string" where
  "bundlesKey revision server = (\<lambda>(files, p, c, l).
     nulJoin [bundleTag files, formatNat revision, server, p, c, formatInt l])"

definition bundleFresh :: "sqlfault \<Rightarrow> db \<Rightarrow> string \<Rightarrow> bool \<times> string \<times> string \<times> int \<Rightarrow> (writer \<Rightarrow> writer) + json" where
  "bundleFresh f d server = (\<lambda>(files, p, c, l).
     if files then bundleFilesFresh (\<lambda>i. f (i + 1)) d server p c l else bundlesFresh (\<lambda>i. f (i + 1)) d server p c l)"

lemma bundlesPlan_Inr:
  "bundlesPlan uni h f d r = Inr (k, x) \<longleftrightarrow> passesGuard uni h r
     \<and> (\<exists>d' ps revision. d = Some d' \<and> bundleParams h r = Some ps \<and> LatestAssetID f d' = Inr revision
          \<and> k = bundlesKey revision (serverOf uni r) ps \<and> x = bundleFresh f d' (serverOf uni r) ps)"
  unfolding bundlesPlan_def guardApi_Inr
  by (auto simp: serveBundles_def serveBundleFiles_def bindR_Inr_iff bundleParams_def bundlesKey_def bundleTag_def bundleFresh_def Let_def
      split: sum.splits)

lemma normalizeBundlePath_iff: "normalizeBundlePath raw = Inr p \<longleftrightarrow> safeSpec p \<and> (raw = p \<or> raw = p @ ''/'')"
proof -
  have "normalizeBundlePath raw = Inr p \<longleftrightarrow> raw \<noteq> [] \<and> normalizeBrowsePrefix raw = Inr (p @ ''/'')"
    by (auto simp: normalizeBundlePath_def normalizeBrowsePrefix_def Let_def bindR_Inr_iff)
  then show ?thesis by (auto simp: normalizeBrowsePrefix_iff safeSpec_def)
qed

lemma bundleParams_no_NUL: "bundleParams h r = Some (b, p, c, l) \<Longrightarrow> CHR 0x00 \<notin> set p \<and> CHR 0x00 \<notin> set c"
  by (auto simp: bundleParams_def Let_def prefix_no_NUL cursor_no_NUL normalizeBundlePath_iff safeSpec_def split: sum.splits if_splits)

interpretation bundles: keyed_endpoint uni h "bundlesPlan uni h" "bundleParams h" bundlesKey bundleFresh for uni h
proof
  fix r r' n n' s s' and ps ps' :: "bool \<times> string \<times> string \<times> int"
  assume "bundleParams h r = Some ps" "bundleParams h r' = Some ps'" and key: "bundlesKey n s ps = bundlesKey n' s' ps'"
  moreover obtain b p c l b' p' c' l' where ps: "ps = (b, p, c, l)" "ps' = (b', p', c', l')" by (metis prod_cases4)
  ultimately show "n = n' \<and> s = s' \<and> ps = ps'"
    using nulJoin_middle [of "[bundleTag b, formatNat n]" s "[p, c, formatInt l]" "[bundleTag b', formatNat n']" s' "[p', c', formatInt l']"]
    by (simp add: key_field_simps bundleParams_no_NUL bundlesKey_def bundleTag_facts)
qed (rule bundlesPlan_Inr)

section \<open>Properties\<close>

text \<open>C30: The listing endpoints answer, whatever they served before, as handlers without a cache would: on the database of the
  request itself, or on that of an earlier request stored at most the time to live ago, under the same asset
  revision. In particular no two different queries share an answer: the NUL-separated keys determine the
  endpoint and every parameter.\<close>

theorem listings_answer_recent:
  "answersRecent conf (AssetBrowserHandler_ServeHTTP uni conf) \<and> answersRecent conf (AssetBundlesHandler_ServeHTTP uni conf)"
  using browse_answers_recent [of conf uni] bundles.answers_recent [of conf uni]
  by (simp add: bundles.serve_def [abs_def] AssetBundlesHandler_ServeHTTP_def [abs_def])

end
