(* ===== verification/VersionDiff.thy ===== *)
theory VersionDiff
  imports Http BundleBrowse
begin

text \<open>
  \<^verbatim>\<open>internal/store/versiondiff.go\<close>: the version history and what each version changed. The SQL fragment
  adds \<^verbatim>\<open>LIKE\<close> (without an \<^verbatim>\<open>ESCAPE\<close> clause: the backslash is an ordinary character, ASCII letters
  match in either case), \<^verbatim>\<open>COUNT\<close>, \<^verbatim>\<open>GROUP BY\<close> and keyset paging. Which row of a group SQLite takes a
  bare column from is not determined; it is the parameter \<open>bare\<close>.
\<close>

section \<open>Definitions\<close>

subsection \<open>LIKE\<close>

lemma rune_shrinks: "length (drop (snd (decodeRune (x # s))) (x # s)) \<le> length s"
  using decodeRune_width [of "x # s"] by (cases "snd (decodeRune (x # s))") simp_all

function (sequential) sqlLike :: "string \<Rightarrow> string \<Rightarrow> bool" where
  "sqlLike [] s = (s = [])"
| "sqlLike (c # p) [] = (c = CHR ''%'' \<and> sqlLike p [])"
| "sqlLike (c # p) (x # s) =
     (if c = CHR ''%'' then sqlLike p (x # s) \<or> sqlLike (c # p) (drop (snd (decodeRune (x # s))) (x # s))
      else if c = CHR ''_'' then sqlLike p (drop (snd (decodeRune (x # s))) (x # s))
      else lowerChar x = lowerChar c \<and> sqlLike p s)"
  by pat_completeness auto
termination
  using rune_shrinks by (relation "measures [\<lambda>(p, s). length p, \<lambda>(p, s). length s]") (auto simp del: length_drop simp: less_Suc_eq_le)

declare sqlLike.simps [simp del]

subsection \<open>Versions\<close>

record version_summary =
  vs_version :: version
  vs_changed_assets :: int

text \<open>\<open>fillChangedAssetCounts\<close>: one grouped count, read back per version string.\<close>

definition changedCount :: "db \<Rightarrow> string \<Rightarrow> string \<Rightarrow> int" where
  "changedCount d server ver =
     int (length (filter (\<lambda>a. a_server a = server \<and> a_path a \<noteq> [] \<and> a_version a = ver) (db_assets d)))"

definition fillChangedAssetCounts :: "sqlfault \<Rightarrow> db \<Rightarrow> string \<Rightarrow> version list \<Rightarrow> version_summary list result" where
  "fillChangedAssetCounts f d server page =
     (if page = [] then Inr []
      else bindR (exec (f 0) (map (\<lambda>v. \<lparr>vs_version = v, vs_changed_assets = changedCount d server (v_asset_version v)\<rparr>) page))
        (\<lambda>out. exec (f 1) out))"

definition ListVersions :: "sqlfault \<Rightarrow> db \<Rightarrow> string \<Rightarrow> int \<Rightarrow> int \<Rightarrow> (version_summary list \<times> int) result" where
  "ListVersions f d server beforeID limit =
     (if limit \<le> 0 then Inr ([], 0)
      else
        bindR (exec (f 0) (take (nat limit + 1) (sort_key (\<lambda>v. - v_id v)
                 (filter (\<lambda>v. v_server v = server \<and> (beforeID = 0 \<or> v_id v < beforeID)) (db_versions d))))) (\<lambda>out.
        bindR (exec (f 1) out) (\<lambda>out.
          let (page, next) = (if nat limit < length out then (take (nat limit) out, v_id (out ! (nat limit - 1))) else (out, 0))
          in bindR (fillChangedAssetCounts (\<lambda>i. f (i + 2)) d server page) (\<lambda>page. Inr (page, next)))))"

definition newestVersion :: "db \<Rightarrow> string \<Rightarrow> string \<Rightarrow> version option" where
  "newestVersion d server ver =
     first_by (\<lambda>v. - v_id v) (filter (\<lambda>v. v_server v = server \<and> v_asset_version v = ver) (db_versions d))"

subsection \<open>File diffs\<close>

record diff_entry =
  de_path :: string
  de_bundle_path :: string
  de_fingerprint :: string
  de_sha256 :: string
  de_size :: int
  de_is_override :: bool
  de_existed :: bool

record diff_cursor =
  dc_size :: int
  dc_path :: string
  dc_set :: bool

definition dc_zero :: diff_cursor where
  "dc_zero = \<lparr>dc_size = 0, dc_path = [], dc_set = False\<rparr>"

record diff_options =
  do_action :: string
  do_exts :: "string list"
  do_min_mp3 :: int
  do_cursor :: diff_cursor
  do_limit :: int

record version_diff =
  vd_version :: version
  vd_total :: int
  vd_items :: "diff_entry list"
  vd_next :: diff_cursor

definition version_zero :: version where
  "version_zero = \<lparr>v_id = 0, v_server = [], v_app_version = [], v_asset_version = [], v_asset_hash = [], v_bundle_count = 0,
     v_committed_at = 0, v_stats_json = []\<rparr>"

definition vd_zero :: version_diff where
  "vd_zero = \<lparr>vd_version = version_zero, vd_total = 0, vd_items = [], vd_next = dc_zero\<rparr>"

definition existedBefore :: "db \<Rightarrow> asset \<Rightarrow> bool" where
  "existedBefore d a \<longleftrightarrow> (\<exists>p \<in> set (db_assets d). a_server p = a_server a \<and> a_path p = a_path a \<and> a_id p < a_id a)"

definition actionCondition :: "(string \<Rightarrow> string) \<Rightarrow> string \<Rightarrow> db \<Rightarrow> asset \<Rightarrow> bool" where
  "actionCondition uni action d a =
     (let act = toLower uni action
      in if act = ''updated'' \<or> act = ''replaced'' then existedBefore d a
         else if act = ''all'' then True
         else \<not> existedBefore d a)"

definition extSuffixCondition :: "string list \<Rightarrow> int \<Rightarrow> asset \<Rightarrow> bool" where
  "extSuffixCondition exts minMp3Size a \<longleftrightarrow>
     exts = [] \<or> list_ex (\<lambda>ext. sqlLike (''%.'' @ ext) (a_path a)
       \<and> (ext = ''mp3'' \<and> 0 < minMp3Size \<longrightarrow> minMp3Size \<le> a_size a)) exts"

definition pageCondition :: "diff_cursor \<Rightarrow> asset \<Rightarrow> bool" where
  "pageCondition c a \<longleftrightarrow> \<not> dc_set c \<or> a_size a < dc_size c \<or> (a_size a = dc_size c \<and> dc_path c < a_path a)"

definition diffEntryOf :: "db \<Rightarrow> asset \<Rightarrow> diff_entry" where
  "diffEntryOf d a = \<lparr>de_path = a_path a, de_bundle_path = a_bundle_path a, de_fingerprint = a_fingerprint a,
     de_sha256 = a_sha256 a, de_size = a_size a, de_is_override = a_is_override a, de_existed = existedBefore d a\<rparr>"

text \<open>The rows both queries of a diff select, \<open>scope\<close> being the test on the bundle where there is one.\<close>

definition diffRows :: "(string \<Rightarrow> string) \<Rightarrow> db \<Rightarrow> string \<Rightarrow> string \<Rightarrow> (asset \<Rightarrow> bool) \<Rightarrow> diff_options \<Rightarrow> asset list" where
  "diffRows uni d server ver scope opts =
     filter (\<lambda>a. a_server a = server \<and> a_version a = ver \<and> scope a \<and> a_path a \<noteq> []
        \<and> actionCondition uni (do_action opts) d a \<and> extSuffixCondition (do_exts opts) (do_min_mp3 opts) a) (db_assets d)"

definition diffPage ::
    "(string \<Rightarrow> string) \<Rightarrow> sqlfault \<Rightarrow> db \<Rightarrow> string \<Rightarrow> string \<Rightarrow> (asset \<Rightarrow> bool) \<Rightarrow> diff_options \<Rightarrow> (version_diff \<times> bool) result" where
  "diffPage uni f d server ver scope opts =
     (if do_limit opts \<le> 0 then Inr (vd_zero, False)
      else
        bindR (exec (f 0) (newestVersion d server ver)) (\<lambda>row.
        case row of
          None \<Rightarrow> Inr (vd_zero, False)
        | Some v \<Rightarrow>
            bindR (exec (f 1) (int (length (diffRows uni d server ver scope opts)))) (\<lambda>total.
            bindR (exec (f 2) (take (nat (do_limit opts) + 1) (sort_key (\<lambda>a. (- a_size a, a_path a))
                     (filter (pageCondition (do_cursor opts)) (diffRows uni d server ver scope opts))))) (\<lambda>rows.
            bindR (exec (f 3) (map (diffEntryOf d) rows)) (\<lambda>items.
              let n = nat (do_limit opts)
              in if n < length items
                 then let last = items ! (n - 1)
                      in Inr (\<lparr>vd_version = v, vd_total = total, vd_items = take n items,
                               vd_next = \<lparr>dc_size = de_size last, dc_path = de_path last, dc_set = True\<rparr>\<rparr>, True)
                 else Inr (\<lparr>vd_version = v, vd_total = total, vd_items = items, vd_next = dc_zero\<rparr>, True))))))"

definition DiffVersion ::
    "(string \<Rightarrow> string) \<Rightarrow> sqlfault \<Rightarrow> db \<Rightarrow> string \<Rightarrow> string \<Rightarrow> diff_options \<Rightarrow> (version_diff \<times> bool) result" where
  "DiffVersion uni f d server assetVersion opts = diffPage uni f d server assetVersion (\<lambda>_. True) opts"

record version_bundle_files_diff =
  vf_bundle_path :: string
  vf_diff :: version_diff

definition DiffBundleFiles ::
    "(string \<Rightarrow> string) \<Rightarrow> sqlfault \<Rightarrow> db \<Rightarrow> string \<Rightarrow> string \<Rightarrow> string \<Rightarrow> diff_options
     \<Rightarrow> (version_bundle_files_diff \<times> bool) result" where
  "DiffBundleFiles uni f d server assetVersion bundlePath opts =
     bindR (diffPage uni f d server assetVersion (\<lambda>a. a_bundle_path a = bundlePath) opts)
       (\<lambda>(vd, found). Inr (\<lparr>vf_bundle_path = bundlePath, vf_diff = vd\<rparr>, found))"

subsection \<open>Bundle diffs\<close>

record bundle_diff_entry =
  bd_bundle_path :: string
  bd_fingerprint :: string
  bd_source :: string
  bd_file_count :: int
  bd_total_size :: int

record version_bundle_diff =
  vb_version :: version
  vb_total :: int
  vb_items :: "bundle_diff_entry list"
  vb_next :: string

definition vb_zero :: version_bundle_diff where
  "vb_zero = \<lparr>vb_version = version_zero, vb_total = 0, vb_items = [], vb_next = []\<rparr>"

record diff_bundle_options =
  db_prefix :: string
  db_cursor :: string
  db_limit :: int

text \<open>\<^verbatim>\<open>strings.ReplaceAll(strings.ReplaceAll(prefix, "%", "\%"), "_", "\_") + "%"\<close>\<close>

definition prefixLike :: "string \<Rightarrow> string" where
  "prefixLike prefix =
     concat (map (\<lambda>c. if c = CHR ''%'' \<or> c = CHR ''_'' then [CHR 0x5C, c] else [c]) prefix) @ ''%''"

definition prefixCond :: "string \<Rightarrow> string \<Rightarrow> bool" where
  "prefixCond prefix path \<longleftrightarrow> prefix = [] \<or> sqlLike (prefixLike prefix) path"

definition cursorCond :: "string \<Rightarrow> string \<Rightarrow> bool" where
  "cursorCond cursor path \<longleftrightarrow> cursor = [] \<or> cursor < path"

text \<open>The assets a version put in a bundle.\<close>

definition bundleAssets :: "db \<Rightarrow> string \<Rightarrow> string \<Rightarrow> string \<Rightarrow> asset list" where
  "bundleAssets d server ver bp =
     filter (\<lambda>a. a_server a = server \<and> a_version a = ver \<and> a_bundle_path a \<noteq> [] \<and> a_bundle_path a = bp) (db_assets d)"

definition versionCompletions :: "db \<Rightarrow> string \<Rightarrow> string \<Rightarrow> bundle_completion list" where
  "versionCompletions d server ver =
     filter (\<lambda>bc. bc_server bc = server \<and> bc_asset_version bc = ver) (db_completions d)"

definition versionBundlePaths :: "db \<Rightarrow> string \<Rightarrow> string \<Rightarrow> string list" where
  "versionBundlePaths d server ver =
     remdups (map a_bundle_path (filter (\<lambda>a. a_server a = server \<and> a_version a = ver \<and> a_bundle_path a \<noteq> []) (db_assets d)))"

definition DiffVersionBundles ::
    "(asset list \<Rightarrow> asset) \<Rightarrow> sqlfault \<Rightarrow> db \<Rightarrow> string \<Rightarrow> string \<Rightarrow> diff_bundle_options \<Rightarrow> (version_bundle_diff \<times> bool) result" where
  "DiffVersionBundles bare f d server ver opts =
     (if db_limit opts \<le> 0 then Inr (vb_zero, False)
      else
        bindR (exec (f 0) (newestVersion d server ver)) (\<lambda>row.
        case row of
          None \<Rightarrow> Inr (vb_zero, False)
        | Some v \<Rightarrow>
            let count = (case f 1 of None \<Rightarrow> length (versionCompletions d server ver) | Some _ \<Rightarrow> 0);
                n = nat (db_limit opts);
                finish = (\<lambda>total items.
                  let (page, next) = cutPage bd_bundle_path n items
                  in Inr (\<lparr>vb_version = v, vb_total = total, vb_items = page, vb_next = next\<rparr>, True))
            in if 0 < count
               then
                 let rows = filter (\<lambda>bc. prefixCond (db_prefix opts) (bc_bundle_path bc)) (versionCompletions d server ver)
                 in bindR (exec (f 2) (int (length rows))) (\<lambda>total.
                    bindR (exec (f 3) (take (n + 1) (sort_key bc_bundle_path
                             (filter (\<lambda>bc. cursorCond (db_cursor opts) (bc_bundle_path bc)) rows)))) (\<lambda>rows.
                    bindR (exec (f 4) (map (\<lambda>bc. let as = bundleAssets d server ver (bc_bundle_path bc)
                              in \<lparr>bd_bundle_path = bc_bundle_path bc, bd_fingerprint = bc_fingerprint bc, bd_source = bc_source bc,
                                  bd_file_count = int (length as), bd_total_size = sum_list (map a_size as)\<rparr>) rows)) (\<lambda>items.
                      finish total items)))
               else
                 let paths = filter (prefixCond (db_prefix opts)) (versionBundlePaths d server ver)
                 in bindR (exec (f 2) (int (length paths))) (\<lambda>total.
                    bindR (exec (f 3) (take (n + 1) (sort (filter (cursorCond (db_cursor opts)) paths)))) (\<lambda>paths.
                    bindR (exec (f 4) (map (\<lambda>bp. let as = bundleAssets d server ver bp
                              in \<lparr>bd_bundle_path = bp, bd_fingerprint = a_fingerprint (bare as), bd_source = ''uploaded'',
                                  bd_file_count = int (length as), bd_total_size = sum_list (map a_size as)\<rparr>) paths)) (\<lambda>items.
                      finish total items)))))"

text \<open>A client reading a diff to its end: it asks again with the returned cursor until none is set.\<close>

inductive diff_walk :: "(diff_cursor \<Rightarrow> (version_diff \<times> bool) result) \<Rightarrow> diff_cursor \<Rightarrow> diff_entry list \<Rightarrow> bool"
  for page where
  last_page: "page c = Inr (vd, True) \<Longrightarrow> \<not> dc_set (vd_next vd) \<Longrightarrow> diff_walk page c (vd_items vd)"
| next_page: "page c = Inr (vd, True) \<Longrightarrow> dc_set (vd_next vd) \<Longrightarrow> diff_walk page (vd_next vd) rest
     \<Longrightarrow> diff_walk page c (vd_items vd @ rest)"

text \<open>The whole diff in its order, \<open>c\<close> being where it starts.\<close>

definition diffKey :: "asset \<Rightarrow> int \<times> string" where
  "diffKey a = (- a_size a, a_path a)"

definition diffFrom ::
    "(string \<Rightarrow> string) \<Rightarrow> db \<Rightarrow> string \<Rightarrow> string \<Rightarrow> (asset \<Rightarrow> bool) \<Rightarrow> diff_options \<Rightarrow> diff_cursor \<Rightarrow> asset list" where
  "diffFrom uni d server ver scope opts c = sort_key diffKey (filter (pageCondition c) (diffRows uni d server ver scope opts))"

section \<open>LIKE patterns\<close>

lemma sqlLike_percent: "sqlLike ''%'' s"
proof (induction s rule: length_induct)
  case (1 s)
  show ?case
  proof (cases s)
    case (Cons x s')
    then have "sqlLike ''%'' (drop (snd (decodeRune (x # s'))) (x # s'))"
      using 1 rune_shrinks [of x s'] by (simp del: length_drop)
    then show ?thesis unfolding Cons by (subst sqlLike.simps) simp
  qed (simp add: sqlLike.simps)
qed

lemma lowerChar_backslash: "lowerChar c = lowerChar (CHR 0x5C) \<longleftrightarrow> c = CHR 0x5C"
proof -
  have "of_char (lowerChar c) = (92 :: nat) \<longleftrightarrow> of_char c = (92 :: nat)"
    by (auto simp: lowerChar_def Let_def)
  moreover have "of_char (CHR 0x5C) = (92 :: nat)" "lowerChar (CHR 0x5C) = CHR 0x5C" by (simp_all add: lowerChar_def)
  ultimately show ?thesis by (metis of_char_eq_iff)
qed

lemma prefixLike_Cons: "prefixLike (c # p) = (if c = CHR ''%'' \<or> c = CHR ''_'' then CHR 0x5C # c # prefixLike p else c # prefixLike p)"
  by (simp add: prefixLike_def)

text \<open>Without a wildcard character the pattern is a case-insensitive prefix test; with one it asks for a
  backslash in the path.\<close>

lemma prefixLike_plain:
  "CHR ''%'' \<notin> set p \<Longrightarrow> CHR ''_'' \<notin> set p \<Longrightarrow> sqlLike (prefixLike p) s \<longleftrightarrow> hasPrefix (map lowerChar s) (map lowerChar p)"
proof (induction p arbitrary: s)
  case Nil
  then show ?case by (simp add: prefixLike_def sqlLike_percent hasPrefix_def)
next
  case (Cons c p)
  then show ?case by (cases s) (auto simp: prefixLike_Cons sqlLike.simps hasPrefix_def)
qed

lemma prefixLike_wild:
  "CHR ''%'' \<in> set p \<or> CHR ''_'' \<in> set p \<Longrightarrow> sqlLike (prefixLike p) s \<Longrightarrow> CHR 0x5C \<in> set s"
proof (induction p arbitrary: s)
  case (Cons c p)
  then show ?case
    by (cases s) (auto simp: prefixLike_Cons sqlLike.simps lowerChar_backslash split: if_splits)
qed simp

section \<open>Keyset paging\<close>

lemma keyset_rest:
  fixes key :: "'a \<Rightarrow> 'k::linorder"
  assumes "distinct (map key xs)" and "0 < n" and "n \<le> length xs"
  shows "sort_key key (filter (\<lambda>x. key (sort_key key xs ! (n - 1)) < key x) xs) = drop n (sort_key key xs)"
proof -
  define ys where "ys = sort_key key xs"
  have sorted: "sorted (map key ys)" and len: "length ys = length xs" by (simp_all add: ys_def)
  have "distinct (map key ys)" using assms(1) by (simp add: ys_def distinct_map)
  with sorted have "sorted_wrt (<) (map key ys)" by (simp add: strict_sorted_iff)
  then have strict: "key (ys ! i) < key (ys ! j)" if "i < j" "j < length ys" for i j
    using sorted_wrt_nth_less [of "(<)" "map key ys" i j] that by simp
  have "filter (\<lambda>x. key (ys ! (n - 1)) < key x) (take n ys) = []"
    using strict sorted assms(2,3) len
    by (auto simp: filter_empty_conv in_set_conv_nth not_less sorted_iff_nth_mono)
  moreover have "filter (\<lambda>x. key (ys ! (n - 1)) < key x) (drop n ys) = drop n ys"
    using strict assms(2,3) len by (auto simp: filter_id_conv in_set_conv_nth)
  ultimately have "filter (\<lambda>x. key (ys ! (n - 1)) < key x) ys = drop n ys"
    by (metis append_Nil append_take_drop_id filter_append)
  then show ?thesis by (simp add: ys_def filter_sort)
qed

lemma pageCondition_after:
  "pageCondition \<lparr>dc_size = a_size l, dc_path = a_path l, dc_set = True\<rparr> a \<longleftrightarrow> diffKey l < diffKey a"
  by (auto simp: pageCondition_def diffKey_def less_prod_def')

lemma pageCondition_trans: "pageCondition c l \<Longrightarrow> diffKey l < diffKey a \<Longrightarrow> pageCondition c a"
  by (auto simp: pageCondition_def diffKey_def less_prod_def' split: if_splits)

lemma distinct_diffKey: "db_wf d \<Longrightarrow> distinct (map diffKey (filter P (diffRows uni d server ver scope opts)))"
  unfolding db_wf_def tbl_unique_def diffRows_def distinct_map
  by (auto simp: assetKey_def diffKey_def inj_on_def)

lemma diffFrom_rest:
  assumes "db_wf d" and "0 < n" and "n < length (diffFrom uni d server ver scope opts c)"
    and "l = diffFrom uni d server ver scope opts c ! (n - 1)"
  shows "diffFrom uni d server ver scope opts \<lparr>dc_size = a_size l, dc_path = a_path l, dc_set = True\<rparr>
    = drop n (diffFrom uni d server ver scope opts c)"
proof -
  let ?rows = "diffRows uni d server ver scope opts"
  have "l \<in> set (diffFrom uni d server ver scope opts c)" using assms(3,4) by simp
  then have "pageCondition c l" by (simp add: diffFrom_def)
  then have "filter (\<lambda>a. diffKey l < diffKey a) ?rows = filter (\<lambda>a. diffKey l < diffKey a) (filter (pageCondition c) ?rows)"
    by (auto intro!: filter_cong dest: pageCondition_trans)
  moreover have "sort_key diffKey (filter (\<lambda>a. diffKey l < diffKey a) (filter (pageCondition c) ?rows))
    = drop n (diffFrom uni d server ver scope opts c)"
    unfolding assms(4) diffFrom_def using assms(2,3)
    by (intro keyset_rest distinct_diffKey [OF assms(1)]) (simp_all add: diffFrom_def)
  moreover have "pageCondition \<lparr>dc_size = a_size l, dc_path = a_path l, dc_set = True\<rparr> = (\<lambda>a. diffKey l < diffKey a)"
    by (simp add: pageCondition_after fun_eq_iff)
  ultimately show ?thesis by (simp add: diffFrom_def)
qed

lemma diffPage_run:
  assumes "0 < do_limit opts" and "newestVersion d server ver = Some v"
  shows "\<exists>vd. diffPage uni no_fault d server ver scope opts = Inr (vd, True) \<and> vd_version vd = v
    \<and> vd_total vd = int (length (diffRows uni d server ver scope opts))
    \<and> vd_items vd = map (diffEntryOf d) (take (nat (do_limit opts)) (diffFrom uni d server ver scope opts (do_cursor opts)))
    \<and> vd_next vd = (let rows = diffFrom uni d server ver scope opts (do_cursor opts); n = nat (do_limit opts)
        in if n < length rows then \<lparr>dc_size = a_size (rows ! (n - 1)), dc_path = a_path (rows ! (n - 1)), dc_set = True\<rparr> else dc_zero)"
  using assms
  by (auto simp: diffPage_def diffFrom_def diffKey_def [abs_def] Let_def take_map diffEntryOf_def min_def)

text \<open>A page that is returned is the one without faults.\<close>

lemma diffPage_found:
  assumes "diffPage uni f d server ver scope opts = Inr (vd, True)"
  shows "0 < do_limit opts" "newestVersion d server ver \<noteq> None" "diffPage uni no_fault d server ver scope opts = Inr (vd, True)"
proof -
  show pos: "0 < do_limit opts" using assms by (simp add: diffPage_def split: if_splits)
  have "f 0 = None \<and> newestVersion d server ver \<noteq> None \<and> f 1 = None \<and> f 2 = None \<and> f 3 = None"
    using assms pos by (cases "f 0"; cases "newestVersion d server ver"; cases "f 1"; cases "f 2"; cases "f 3") (simp_all add: diffPage_def)
  then obtain v where "newestVersion d server ver = Some v" "f 0 = None" "f 1 = None" "f 2 = None" "f 3 = None" by blast
  then have "newestVersion d server ver \<noteq> None" "diffPage uni f d server ver scope opts = diffPage uni no_fault d server ver scope opts"
    by (simp_all add: diffPage_def)
  with assms show "newestVersion d server ver \<noteq> None" "diffPage uni no_fault d server ver scope opts = Inr (vd, True)" by simp_all
qed

lemma diff_walk_rest:
  fixes uni :: "string \<Rightarrow> string" and scope :: "asset \<Rightarrow> bool"
  assumes "db_wf d" and "0 < do_limit opts" and "newestVersion d server ver = Some v"
  defines "pg \<equiv> \<lambda>c. diffPage uni no_fault d server ver scope (opts\<lparr>do_cursor := c\<rparr>)"
  shows "diff_walk pg c items \<longleftrightarrow> items = map (diffEntryOf d) (diffFrom uni d server ver scope opts c)"
proof -
  let ?from = "diffFrom uni d server ver scope opts"
  let ?n = "nat (do_limit opts)"
  have opt: "diffFrom uni d server ver scope (opts\<lparr>do_cursor := c\<rparr>) = ?from" for c
    by (simp add: diffFrom_def [abs_def] diffRows_def)
  have run: "\<exists>vd. pg c = Inr (vd, True) \<and> vd_items vd = map (diffEntryOf d) (take ?n (?from c))
      \<and> (\<not> dc_set (vd_next vd) \<longrightarrow> length (?from c) \<le> ?n)
      \<and> (dc_set (vd_next vd) \<longrightarrow> ?n < length (?from c) \<and> ?from (vd_next vd) = drop ?n (?from c))" for c
    using diffPage_run [of "opts\<lparr>do_cursor := c\<rparr>" d server ver v uni scope] assms(2,3)
      diffFrom_rest [OF assms(1), of ?n uni server ver scope opts c]
    by (auto simp: pg_def opt Let_def dc_zero_def split: if_splits)
  have "diff_walk pg c items \<Longrightarrow> items = map (diffEntryOf d) (?from c)"
  proof (induction rule: diff_walk.induct)
    case (last_page c vd)
    then show ?case using run [of c] by auto
  next
    case (next_page c vd rest)
    then show ?case using run [of c] by (auto simp flip: map_append)
  qed
  moreover have "diff_walk pg c (map (diffEntryOf d) (?from c))"
  proof (induction "length (?from c)" arbitrary: c rule: less_induct)
    case less
    obtain vd where vd: "pg c = Inr (vd, True)" "vd_items vd = map (diffEntryOf d) (take ?n (?from c))"
      "\<not> dc_set (vd_next vd) \<Longrightarrow> length (?from c) \<le> ?n"
      "dc_set (vd_next vd) \<Longrightarrow> ?n < length (?from c) \<and> ?from (vd_next vd) = drop ?n (?from c)"
      using run [of c] by blast
    show ?case
    proof (cases "dc_set (vd_next vd)")
      case True
      with vd(4) assms(2) have "diff_walk pg (vd_next vd) (map (diffEntryOf d) (?from (vd_next vd)))"
        by (intro less) auto
      from diff_walk.next_page [of pg c, OF vd(1) True this] show ?thesis
        using vd(2,4) True by (simp flip: map_append)
    next
      case False
      from diff_walk.last_page [of pg c, OF vd(1) False] show ?thesis using vd(2,3) False by simp
    qed
  qed
  ultimately show ?thesis by blast
qed

lemma diff_walk_versions:
  assumes "db_wf d" and "0 < do_limit opts" and "newestVersion d server ver = Some v"
  shows "diff_walk (\<lambda>c. DiffVersion uni no_fault d server ver (opts\<lparr>do_cursor := c\<rparr>)) dc_zero items
    \<longleftrightarrow> items = map (diffEntryOf d) (sort_key diffKey (diffRows uni d server ver (\<lambda>_. True) opts))"
  using diff_walk_rest [OF assms, of uni "\<lambda>_. True" dc_zero items]
  by (simp add: DiffVersion_def diffFrom_def pageCondition_def [abs_def] dc_zero_def)

section \<open>Properties\<close>

text \<open>Two versions: the second adds two files and replaces one of the first.\<close>

definition demo_diff_db :: db where
  "demo_diff_db = empty_db\<lparr>
     db_assets := [(mkAsset ''jp'' ''b_1'' ''b_1/x.png'' ''1'' ''f1'' False ''s1'')\<lparr>a_id := 1, a_size := 5\<rparr>,
                   (mkAsset ''jp'' ''b_1'' ''b_1/x.png'' ''2'' ''f2'' False ''s2'')\<lparr>a_id := 2, a_size := 7\<rparr>,
                   (mkAsset ''jp'' ''b_1'' ''b_1/y.png'' ''2'' ''f2'' False ''s3'')\<lparr>a_id := 3, a_size := 9\<rparr>,
                   (mkAsset ''jp'' ''b_1'' ''b_1/z.mp3'' ''2'' ''f2'' False ''s4'')\<lparr>a_id := 4, a_size := 9\<rparr>],
     db_asset_seq := 4,
     db_versions := [version_zero\<lparr>v_id := 1, v_server := ''jp'', v_asset_version := ''1''\<rparr>,
                     version_zero\<lparr>v_id := 2, v_server := ''jp'', v_asset_version := ''2''\<rparr>],
     db_version_seq := 2\<rparr>"

definition demo_diff_options :: diff_options where
  "demo_diff_options = \<lparr>do_action = ''all'', do_exts = [], do_min_mp3 = 0, do_cursor = dc_zero, do_limit = 2\<rparr>"

lemma demo_diff_wf: "db_wf demo_diff_db"
  by code_simp

text \<open>C29: A client that follows the cursors of a version's diff from the start gets a finite sequence of pages whose
  entries are exactly the rows the filters select, each once, the largest first and paths breaking ties.\<close>

theorem DiffVersion_walk_complete:
  assumes "db_wf d" and "0 < do_limit opts" and "newestVersion d server ver = Some v"
  shows "\<exists>items. diff_walk (\<lambda>c. DiffVersion uni no_fault d server ver (opts\<lparr>do_cursor := c\<rparr>)) dc_zero = (\<lambda>is. is = items)
    \<and> mset items = image_mset (diffEntryOf d) (filter_mset (\<lambda>a. a_server a = server \<and> a_version a = ver \<and> a_path a \<noteq> []
        \<and> actionCondition uni (do_action opts) d a \<and> extSuffixCondition (do_exts opts) (do_min_mp3 opts) a) (mset (db_assets d)))
    \<and> sorted_wrt (\<lambda>x y. de_size y < de_size x \<or> (de_size x = de_size y \<and> de_path x < de_path y)) items"
proof -
  let ?rows = "sort_key diffKey (diffRows uni d server ver (\<lambda>_. True) opts)"
  let ?items = "map (diffEntryOf d) ?rows"
  have "distinct (map diffKey ?rows)"
    using distinct_diffKey [OF assms(1), of "\<lambda>_. True"] by (simp add: distinct_map)
  then have "sorted_wrt (<) (map diffKey ?rows)" by (simp add: strict_sorted_iff)
  then have "sorted_wrt (\<lambda>x y. de_size y < de_size x \<or> (de_size x = de_size y \<and> de_path x < de_path y)) ?items"
    unfolding sorted_wrt_map
    by (rule sorted_wrt_mono_rel [rotated]) (auto simp: diffKey_def diffEntryOf_def less_prod_def')
  moreover have "mset ?items = image_mset (diffEntryOf d) (mset (diffRows uni d server ver (\<lambda>_. True) opts))" by simp
  ultimately show ?thesis
    by (intro exI [of _ ?items] conjI ext diff_walk_versions [OF assms]) (simp_all add: diffRows_def)
qed

theorem DiffVersion_walk_complete_witness:
  "\<exists>items. diff_walk (\<lambda>c. DiffVersion id no_fault demo_diff_db ''jp'' ''2'' (demo_diff_options\<lparr>do_cursor := c\<rparr>)) dc_zero items
     \<and> length items = 3"
proof -
  have "newestVersion demo_diff_db ''jp'' ''2'' = Some (db_versions demo_diff_db ! 1)" "0 < do_limit demo_diff_options"
    by code_simp+
  from DiffVersion_walk_complete [OF demo_diff_wf this(2,1), of id]
  obtain items where w: "diff_walk (\<lambda>c. DiffVersion id no_fault demo_diff_db ''jp'' ''2'' (demo_diff_options\<lparr>do_cursor := c\<rparr>)) dc_zero = (\<lambda>is. is = items)"
    and m: "mset items = image_mset (diffEntryOf demo_diff_db) (filter_mset (\<lambda>a. a_server a = ''jp'' \<and> a_version a = ''2'' \<and> a_path a \<noteq> []
        \<and> actionCondition id (do_action demo_diff_options) demo_diff_db a \<and> extSuffixCondition (do_exts demo_diff_options) (do_min_mp3 demo_diff_options) a)
          (mset (db_assets demo_diff_db)))"
    by (elim exE conjE) (rule that)
  have "length (filter (\<lambda>a. a_server a = ''jp'' \<and> a_version a = ''2'' \<and> a_path a \<noteq> []
        \<and> actionCondition id (do_action demo_diff_options) demo_diff_db a \<and> extSuffixCondition (do_exts demo_diff_options) (do_min_mp3 demo_diff_options) a)
          (db_assets demo_diff_db)) = 3"
    by code_simp
  then have "length items = 3" using arg_cong [OF m, of size] by (simp flip: mset_filter)
  then show ?thesis using w by auto
qed

text \<open>The prefix filter of the bundle diff escapes \<^verbatim>\<open>%\<close> and \<^verbatim>\<open>_\<close> with a backslash, but the query has no \<^verbatim>\<open>ESCAPE\<close>
  clause: a prefix with such a character selects nothing, and the total is zero, unless a stored bundle path holds a backslash.\<close>

theorem DiffVersionBundles_wildcard_prefix:
  assumes "0 < db_limit opts" and "newestVersion d server ver = Some v"
    and "CHR ''%'' \<in> set (db_prefix opts) \<or> CHR ''_'' \<in> set (db_prefix opts)"
    and "\<forall>bc \<in> set (db_completions d). CHR 0x5C \<notin> set (bc_bundle_path bc)"
    and "\<forall>a \<in> set (db_assets d). CHR 0x5C \<notin> set (a_bundle_path a)"
  shows "DiffVersionBundles bare no_fault d server ver opts = Inr (\<lparr>vb_version = v, vb_total = 0, vb_items = [], vb_next = []\<rparr>, True)"
proof -
  have cond: "\<not> prefixCond (db_prefix opts) p" if "CHR 0x5C \<notin> set p" for p
    using that assms(3) prefixLike_wild [OF assms(3)] by (auto simp: prefixCond_def)
  have "filter (\<lambda>bc. prefixCond (db_prefix opts) (bc_bundle_path bc)) (versionCompletions d server ver) = []"
    using assms(4) cond by (auto simp: filter_empty_conv versionCompletions_def)
  moreover have "filter (prefixCond (db_prefix opts)) (versionBundlePaths d server ver) = []"
    using assms(5) cond by (auto simp: filter_empty_conv versionBundlePaths_def)
  ultimately show ?thesis
    using assms(1,2) by (simp add: DiffVersionBundles_def Let_def cutPage_def)
qed

theorem DiffVersionBundles_wildcard_prefix_witness:
  "DiffVersionBundles hd no_fault demo_diff_db ''jp'' ''2'' \<lparr>db_prefix = ''b_'', db_cursor = [], db_limit = 10\<rparr>
     = Inr (\<lparr>vb_version = db_versions demo_diff_db ! 1, vb_total = 0, vb_items = [], vb_next = []\<rparr>, True)
   \<and> versionBundlePaths demo_diff_db ''jp'' ''2'' = [''b_1'']"
proof
  have "newestVersion demo_diff_db ''jp'' ''2'' = Some (db_versions demo_diff_db ! 1)"
    "\<forall>bc \<in> set (db_completions demo_diff_db). CHR 0x5C \<notin> set (bc_bundle_path bc)"
    "\<forall>a \<in> set (db_assets demo_diff_db). CHR 0x5C \<notin> set (a_bundle_path a)"
    by code_simp+
  then show "DiffVersionBundles hd no_fault demo_diff_db ''jp'' ''2'' \<lparr>db_prefix = ''b_'', db_cursor = [], db_limit = 10\<rparr>
     = Inr (\<lparr>vb_version = db_versions demo_diff_db ! 1, vb_total = 0, vb_items = [], vb_next = []\<rparr>, True)"
    by (intro DiffVersionBundles_wildcard_prefix) simp_all
qed code_simp

end
