(* ===== verification/VersionsApi.thy ===== *)
theory VersionsApi
  imports BrowserApi VersionDiff
begin

text \<open>
  \<^verbatim>\<open>internal/httpapi/versions.go\<close>: the version history, the diff of a version, its bundles and the files
  of one bundle of it: four endpoints of one handler with one response cache. Limits and cache
  methods are the same text as in \<^verbatim>\<open>browser.go\<close> and are the definitions of theory ApiCore; the two further
  settings of this handler extend the configuration record. \<open>bare\<close> is the choice SQLite makes for a bare column of a
  group (theory VersionDiff).
\<close>

section \<open>Definitions\<close>

record versions_conf = api_conf +
  vc_DefaultTypes :: "string list option"
  vc_DefaultMinMp3Size :: "int option"

definition maxAssetVersionLen :: nat where "maxAssetVersionLen = 128"
definition maxDiffTypes :: nat where "maxDiffTypes = 16"
definition defaultDiffTypes :: "string list" where "defaultDiffTypes = [''webp'', ''mp3'']"
definition defaultMinMp3SizeConst :: int where "defaultMinMp3SizeConst = 1 * 1024 * 1024"

definition defaultTypes :: "'a versions_conf_scheme \<Rightarrow> string list" where
  "defaultTypes h = (case vc_DefaultTypes h of Some ts \<Rightarrow> ts | None \<Rightarrow> defaultDiffTypes)"

definition defaultMinMp3Size :: "'a versions_conf_scheme \<Rightarrow> int" where
  "defaultMinMp3Size h = (case vc_DefaultMinMp3Size h of Some n \<Rightarrow> n | None \<Rightarrow> defaultMinMp3SizeConst)"

subsection \<open>Responses\<close>

record asset_version_item =
  vi_asset_version :: string
  vi_app_version :: string
  vi_asset_hash :: string
  vi_bundle_count :: int
  vi_committed_at :: int
  vi_changed_assets :: int
  vi_stats :: string
  vi_diff_url :: string
  vi_bundle_diff_url :: string

record asset_versions_response =
  vr_server :: string
  vr_limit :: int
  vr_next :: string
  vr_items :: "asset_version_item list"

record asset_diff_item =
  di_change_type :: string
  di_path :: string
  di_url :: string
  di_source :: string
  di_size :: int
  di_fingerprint :: string
  di_sha256 :: string
  di_bundle_path :: string

record asset_diff_response =
  dr_server :: string
  dr_asset_version :: string
  dr_app_version :: string
  dr_asset_hash :: string
  dr_committed_at :: int
  dr_action :: string
  dr_types :: "string list"
  dr_total :: int
  dr_limit :: int
  dr_next :: string
  dr_items :: "asset_diff_item list"

record bundle_diff_item =
  bdi_bundle_path :: string
  bdi_fingerprint :: string
  bdi_file_count :: int
  bdi_total_size :: int
  bdi_source :: string
  bdi_files_url :: string

record bundle_diffs_response =
  bds_server :: string
  bds_asset_version :: string
  bds_app_version :: string
  bds_asset_hash :: string
  bds_committed_at :: int
  bds_prefix :: string
  bds_total :: int
  bds_limit :: int
  bds_next :: string
  bds_items :: "bundle_diff_item list"

record bundle_diff_files_response =
  bfr_server :: string
  bfr_asset_version :: string
  bfr_app_version :: string
  bfr_bundle_path :: string
  bfr_total :: int
  bfr_limit :: int
  bfr_next :: string
  bfr_items :: "asset_diff_item list"

definition assetVersionItem_json :: "asset_version_item \<Rightarrow> json" where
  "assetVersionItem_json i = JObj ([(''assetVersion'', JStr (vi_asset_version i)), (''appVersion'', JStr (vi_app_version i))]
     @ omitStr ''assetHash'' (vi_asset_hash i) @ omitInt ''bundleCount'' (vi_bundle_count i)
     @ [(''committedAt'', JInt (vi_committed_at i)), (''changedAssets'', JInt (vi_changed_assets i))]
     @ (if vi_stats i = [] then [] else [(''stats'', JRaw (vi_stats i))])
     @ [(''diffUrl'', JStr (vi_diff_url i))] @ omitStr ''bundleDiffUrl'' (vi_bundle_diff_url i))"

definition assetVersionsResponse_json :: "asset_versions_response \<Rightarrow> json" where
  "assetVersionsResponse_json a = JObj ([(''server'', JStr (vr_server a)), (''limit'', JInt (vr_limit a))] @ omitStr ''nextCursor'' (vr_next a)
     @ [(''items'', JArr (map assetVersionItem_json (vr_items a)))])"

definition assetDiffItem_json :: "asset_diff_item \<Rightarrow> json" where
  "assetDiffItem_json i = JObj ([(''changeType'', JStr (di_change_type i)), (''path'', JStr (di_path i)), (''url'', JStr (di_url i)),
       (''source'', JStr (di_source i)), (''size'', JInt (di_size i))]
     @ omitStr ''fingerprint'' (di_fingerprint i) @ omitStr ''sha256'' (di_sha256 i) @ omitStr ''bundlePath'' (di_bundle_path i))"

definition assetDiffResponse_json :: "asset_diff_response \<Rightarrow> json" where
  "assetDiffResponse_json a = JObj ([(''server'', JStr (dr_server a)), (''assetVersion'', JStr (dr_asset_version a)),
       (''appVersion'', JStr (dr_app_version a))] @ omitStr ''assetHash'' (dr_asset_hash a)
     @ [(''committedAt'', JInt (dr_committed_at a))] @ omitStr ''action'' (dr_action a)
     @ (if dr_types a = [] then [] else [(''types'', JArr (map JStr (dr_types a)))])
     @ [(''totalChanged'', JInt (dr_total a)), (''limit'', JInt (dr_limit a))] @ omitStr ''nextCursor'' (dr_next a)
     @ [(''items'', JArr (map assetDiffItem_json (dr_items a)))])"

definition bundleDiffItem_json :: "bundle_diff_item \<Rightarrow> json" where
  "bundleDiffItem_json i = JObj ([(''bundlePath'', JStr (bdi_bundle_path i))] @ omitStr ''fingerprint'' (bdi_fingerprint i)
     @ [(''fileCount'', JInt (bdi_file_count i)), (''totalSize'', JInt (bdi_total_size i))]
     @ omitStr ''source'' (bdi_source i) @ omitStr ''filesUrl'' (bdi_files_url i))"

definition bundleDiffsResponse_json :: "bundle_diffs_response \<Rightarrow> json" where
  "bundleDiffsResponse_json a = JObj ([(''server'', JStr (bds_server a)), (''assetVersion'', JStr (bds_asset_version a)),
       (''appVersion'', JStr (bds_app_version a))] @ omitStr ''assetHash'' (bds_asset_hash a)
     @ [(''committedAt'', JInt (bds_committed_at a))] @ omitStr ''prefix'' (bds_prefix a)
     @ [(''totalBundles'', JInt (bds_total a)), (''limit'', JInt (bds_limit a))] @ omitStr ''nextCursor'' (bds_next a)
     @ [(''items'', JArr (map bundleDiffItem_json (bds_items a)))])"

definition bundleDiffFilesResponse_json :: "bundle_diff_files_response \<Rightarrow> json" where
  "bundleDiffFilesResponse_json a = JObj ([(''server'', JStr (bfr_server a)), (''assetVersion'', JStr (bfr_asset_version a)),
       (''appVersion'', JStr (bfr_app_version a)), (''bundlePath'', JStr (bfr_bundle_path a)), (''totalChanged'', JInt (bfr_total a)),
       (''limit'', JInt (bfr_limit a))] @ omitStr ''nextCursor'' (bfr_next a)
     @ [(''items'', JArr (map assetDiffItem_json (bfr_items a)))])"

subsection \<open>Parameters\<close>

definition normalizeAssetVersion :: "string \<Rightarrow> string + string" where
  "normalizeAssetVersion raw =
     (if raw = [] \<or> maxAssetVersionLen < length raw then Inl ''bad asset version''
      else if list_ex (\<lambda>c. (of_char c :: nat) < 32 \<or> c = CHR 0x7F) raw then Inl ''bad asset version''
      else Inr raw)"

definition typeToken :: "string \<Rightarrow> string" where
  "typeToken p = strTrimSpace (trimPrefix p ''.'')"

definition typeChar :: "char \<Rightarrow> bool" where
  "typeChar c \<longleftrightarrow> (CHR ''a'' \<le> c \<and> c \<le> CHR ''z'') \<or> (CHR ''0'' \<le> c \<and> c \<le> CHR ''9'')"

text \<open>The loop of \<open>parseDiffTypes\<close>; a token is in \<open>seen\<close> exactly when it is in \<open>out\<close>.\<close>

fun parseTypesLoop :: "string list \<Rightarrow> string list \<Rightarrow> string + string list" where
  "parseTypesLoop [] out = Inr out"
| "parseTypesLoop (p # ps) out =
     (let p = typeToken p
      in if p = [] \<or> 16 < length p then Inl ''bad type token''
         else if \<not> list_all typeChar p then Inl ''bad type token''
         else if p \<in> set out then parseTypesLoop ps out
         else parseTypesLoop ps (out @ [p]))"

definition parseDiffTypes :: "(string \<Rightarrow> string) \<Rightarrow> string \<Rightarrow> string list \<Rightarrow> string + string list" where
  "parseDiffTypes uni raw def =
     (if raw = [] then Inr def
      else if raw = ''all'' then Inr []
      else
        let parts = strSplit CHR '','' (toLower uni raw)
        in if maxDiffTypes < length parts then Inl ''too many types'' else parseTypesLoop parts [])"

definition parseDiffCursor :: "string \<Rightarrow> string + diff_cursor" where
  "parseDiffCursor raw =
     (if raw = [] then Inr dc_zero
      else
        (case strIndex raw '':'' of
           None \<Rightarrow> Inl ''bad cursor''
         | Some sep \<Rightarrow>
             if sep = 0 \<or> sep = length raw - 1 then Inl ''bad cursor''
             else
               (case atoi (take sep raw) of
                  None \<Rightarrow> Inl ''bad cursor''
                | Some sz \<Rightarrow>
                    if sz < 0 then Inl ''bad cursor''
                    else mapErr (\<lambda>_. ''bad path'') (bindR (normalizeBrowseCursor (drop (sep + 1) raw) [])
                           (\<lambda>path. Inr \<lparr>dc_size = sz, dc_path = path, dc_set = True\<rparr>)))))"

definition encodeDiffCursor :: "diff_cursor \<Rightarrow> string" where
  "encodeDiffCursor c = (if \<not> dc_set c then [] else formatInt (dc_size c) @ '':'' @ dc_path c)"

definition parseVersionsCursor :: "string \<Rightarrow> string + int" where
  "parseVersionsCursor raw =
     (if raw = [] then Inr 0
      else case atoi raw of
             None \<Rightarrow> Inl ''bad cursor''
           | Some n \<Rightarrow> if n \<le> 0 then Inl ''bad cursor'' else Inr n)"

definition parseDiffAction :: "(string \<Rightarrow> string) \<Rightarrow> string \<Rightarrow> string + string" where
  "parseDiffAction uni raw =
     (if raw = [] then Inr ''added''
      else
        let a = toLower uni raw
        in if a = ''added'' then Inr ''added''
           else if a = ''updated'' \<or> a = ''replaced'' then Inr ''updated''
           else if a = ''all'' then Inr ''all''
           else Inl ''bad action'')"

definition toAssetDiffItem :: "string \<Rightarrow> diff_entry \<Rightarrow> asset_diff_item" where
  "toAssetDiffItem server e =
     \<lparr>di_change_type = (if de_existed e then ''updated'' else ''added''), di_path = de_path e, di_url = assetURL server (de_path e),
      di_source = (if de_is_override e then ''override'' else ''shared''), di_size = de_size e, di_fingerprint = de_fingerprint e,
      di_sha256 = de_sha256 e, di_bundle_path = de_bundle_path e\<rparr>"

definition formatBool :: "bool \<Rightarrow> string" where
  "formatBool b = (if b then ''true'' else ''false'')"

subsection \<open>Endpoints\<close>

definition toAssetVersionItem :: "string \<Rightarrow> version_summary \<Rightarrow> asset_version_item" where
  "toAssetVersionItem server s =
     (let v = vs_version s; stats = strTrimSpace (v_stats_json v);
          q = ''server='' @ queryEscape server @ ''&version='' @ queryEscape (v_asset_version v)
      in \<lparr>vi_asset_version = v_asset_version v, vi_app_version = v_app_version v, vi_asset_hash = v_asset_hash v,
          vi_bundle_count = v_bundle_count v, vi_committed_at = v_committed_at v, vi_changed_assets = vs_changed_assets s,
          vi_stats = (if stats \<noteq> [] \<and> jsonValid stats then stats else []),
          vi_diff_url = ''/api/assets/diff?'' @ q, vi_bundle_diff_url = ''/api/assets/bundle-diffs?'' @ q\<rparr>)"

definition serveVersions :: "'a versions_conf_scheme \<Rightarrow> sqlfault \<Rightarrow> db \<Rightarrow> string \<Rightarrow> request \<Rightarrow> plan" where
  "serveVersions h f d server r =
     bindR (orElse (httpError ''bad limit'' 400) (parseBrowseLimit (queryGet ''limit'' r) (defaultLimit h) (maxLimit h))) (\<lambda>limit.
     bindR (orElse (httpError ''bad cursor'' 400) (parseVersionsCursor (queryGet ''cursor'' r))) (\<lambda>beforeID.
     bindR (orElse (httpError ''lookup revision'' 500) (LatestAssetID f d)) (\<lambda>revision.
       Inr (nulJoin [''versions'', formatNat revision, server, formatInt beforeID, formatInt limit],
            bindR (orElse (httpError ''list versions'' 500) (ListVersions (\<lambda>i. f (i + 1)) d server beforeID limit)) (\<lambda>(versions, nextBeforeID).
              Inr (assetVersionsResponse_json
                \<lparr>vr_server = server, vr_limit = limit, vr_next = (if 0 < nextBeforeID then formatInt nextBeforeID else []),
                 vr_items = map (toAssetVersionItem server) versions\<rparr>))))))"

definition toBundleDiffItem :: "string \<Rightarrow> string \<Rightarrow> bundle_diff_entry \<Rightarrow> bundle_diff_item" where
  "toBundleDiffItem server version e =
     \<lparr>bdi_bundle_path = bd_bundle_path e, bdi_fingerprint = bd_fingerprint e, bdi_file_count = bd_file_count e,
      bdi_total_size = bd_total_size e, bdi_source = bd_source e,
      bdi_files_url = ''/api/assets/bundle-diff-files?server='' @ queryEscape server @ ''&version='' @ queryEscape version
        @ ''&path='' @ queryEscape (bd_bundle_path e)\<rparr>"

definition serveBundleDiffs :: "(asset list \<Rightarrow> asset) \<Rightarrow> 'a versions_conf_scheme \<Rightarrow> sqlfault \<Rightarrow> db \<Rightarrow> string \<Rightarrow> request \<Rightarrow> plan" where
  "serveBundleDiffs bare h f d server r =
     bindR (orElse (httpError ''bad version'' 400) (normalizeAssetVersion (queryGet ''version'' r))) (\<lambda>version.
     bindR (orElse (httpError ''bad limit'' 400) (parseBrowseLimit (queryGet ''limit'' r) (defaultLimit h) (maxLimit h))) (\<lambda>limit.
     bindR (orElse (httpError ''bad prefix'' 400) (normalizeBrowsePrefix (queryGet ''prefix'' r))) (\<lambda>prefix.
     bindR (orElse (httpError ''bad cursor'' 400) (normalizeBrowseCursor (queryGet ''cursor'' r) prefix)) (\<lambda>cursor.
     bindR (orElse (httpError ''lookup revision'' 500) (LatestAssetID f d)) (\<lambda>revision.
       Inr (nulJoin [''bundle-diffs'', formatNat revision, server, version, prefix, cursor, formatInt limit],
            bindR (orElse (httpError ''diff version bundles'' 500)
                    (DiffVersionBundles bare (\<lambda>i. f (i + 1)) d server version \<lparr>db_prefix = prefix, db_cursor = cursor, db_limit = limit\<rparr>)) (\<lambda>(diff, found).
              if \<not> found then Inl httpNotFound
              else Inr (bundleDiffsResponse_json
                \<lparr>bds_server = server, bds_asset_version = v_asset_version (vb_version diff), bds_app_version = v_app_version (vb_version diff),
                 bds_asset_hash = v_asset_hash (vb_version diff), bds_committed_at = v_committed_at (vb_version diff), bds_prefix = prefix,
                 bds_total = vb_total diff, bds_limit = limit, bds_next = vb_next diff,
                 bds_items = map (toBundleDiffItem server version) (vb_items diff)\<rparr>))))))))"

definition serveBundleDiffFiles :: "(string \<Rightarrow> string) \<Rightarrow> 'a versions_conf_scheme \<Rightarrow> sqlfault \<Rightarrow> db \<Rightarrow> string \<Rightarrow> request \<Rightarrow> plan" where
  "serveBundleDiffFiles uni h f d server r =
     bindR (orElse (httpError ''bad version'' 400) (normalizeAssetVersion (queryGet ''version'' r))) (\<lambda>version.
     let bundlePath = trimPrefix (queryGet ''path'' r) ''/'' in
     if bundlePath = [] then Inl (httpError ''path is required'' 400) else
     bindR (orElse (httpError ''bad limit'' 400) (parseBrowseLimit (queryGet ''limit'' r) (defaultLimit h) (maxLimit h))) (\<lambda>limit.
     bindR (orElse (httpError ''bad action'' 400) (parseDiffAction uni (queryGet ''action'' r))) (\<lambda>action.
     bindR (orElse (httpError ''bad types'' 400)
             (if queryGet ''types'' r \<noteq> [] then parseDiffTypes uni (queryGet ''types'' r) [] else Inr [])) (\<lambda>exts.
     bindR (orElse (httpError ''bad cursor'' 400) (parseDiffCursor (queryGet ''cursor'' r))) (\<lambda>cursor.
     bindR (orElse (httpError ''lookup revision'' 500) (LatestAssetID f d)) (\<lambda>revision.
       Inr (nulJoin [''bundle-diff-files'', formatNat revision, server, version, bundlePath, action, formatInt limit,
              dc_path cursor, formatInt (dc_size cursor), formatBool (dc_set cursor)],
            bindR (orElse (httpError ''diff bundle files'' 500)
                    (DiffBundleFiles uni (\<lambda>i. f (i + 1)) d server version bundlePath
                       \<lparr>do_action = action, do_exts = exts, do_min_mp3 = 0, do_cursor = cursor, do_limit = limit\<rparr>)) (\<lambda>(diff, found).
              if \<not> found then Inl httpNotFound
              else Inr (bundleDiffFilesResponse_json
                \<lparr>bfr_server = server, bfr_asset_version = v_asset_version (vd_version (vf_diff diff)),
                 bfr_app_version = v_app_version (vd_version (vf_diff diff)), bfr_bundle_path = bundlePath,
                 bfr_total = vd_total (vf_diff diff), bfr_limit = limit, bfr_next = encodeDiffCursor (vd_next (vf_diff diff)),
                 bfr_items = map (toAssetDiffItem server) (vd_items (vf_diff diff))\<rparr>)))))))))"

definition serveDiff :: "(string \<Rightarrow> string) \<Rightarrow> 'a versions_conf_scheme \<Rightarrow> sqlfault \<Rightarrow> db \<Rightarrow> string \<Rightarrow> request \<Rightarrow> plan" where
  "serveDiff uni h f d server r =
     bindR (orElse (httpError ''bad version'' 400) (normalizeAssetVersion (queryGet ''version'' r))) (\<lambda>version.
     bindR (orElse (httpError ''bad limit'' 400) (parseBrowseLimit (queryGet ''limit'' r) (defaultLimit h) (maxLimit h))) (\<lambda>limit.
     bindR (orElse (httpError ''bad action'' 400) (parseDiffAction uni (queryGet ''action'' r))) (\<lambda>action.
     bindR (orElse (httpError ''bad types'' 400)
             (if queryGet ''types'' r = [] then Inr (defaultTypes h, defaultMinMp3Size h)
              else bindR (parseDiffTypes uni (queryGet ''types'' r) (defaultTypes h)) (\<lambda>exts. Inr (exts, 0)))) (\<lambda>(exts, minMp3Size).
     bindR (orElse (httpError ''bad cursor'' 400) (parseDiffCursor (queryGet ''cursor'' r))) (\<lambda>cursor.
     bindR (orElse (httpError ''lookup revision'' 500) (LatestAssetID f d)) (\<lambda>revision.
       Inr (nulJoin [''diff'', formatNat revision, server, version, action, strJoin (CHR '','') exts, formatInt minMp3Size, formatInt limit,
              dc_path cursor, formatInt (dc_size cursor), formatBool (dc_set cursor)],
            bindR (orElse (httpError ''diff version'' 500)
                    (DiffVersion uni (\<lambda>i. f (i + 1)) d server version
                       \<lparr>do_action = action, do_exts = exts, do_min_mp3 = minMp3Size, do_cursor = cursor, do_limit = limit\<rparr>)) (\<lambda>(diff, found).
              if \<not> found then Inl httpNotFound
              else Inr (assetDiffResponse_json
                \<lparr>dr_server = server, dr_asset_version = v_asset_version (vd_version diff), dr_app_version = v_app_version (vd_version diff),
                 dr_asset_hash = v_asset_hash (vd_version diff), dr_committed_at = v_committed_at (vd_version diff), dr_action = action,
                 dr_types = exts, dr_total = vd_total diff, dr_limit = limit, dr_next = encodeDiffCursor (vd_next diff),
                 dr_items = map (toAssetDiffItem server) (vd_items diff)\<rparr>)))))))))"

definition versionsPlan ::
    "(string \<Rightarrow> string) \<Rightarrow> (asset list \<Rightarrow> asset) \<Rightarrow> 'a versions_conf_scheme \<Rightarrow> sqlfault \<Rightarrow> db option \<Rightarrow> request \<Rightarrow> plan" where
  "versionsPlan uni bare h f d r =
     guardApi uni h ''version api unavailable'' d r (\<lambda>d server.
       if hasSuffix (rq_path r) ''/bundle-diffs'' then serveBundleDiffs bare h f d server r
       else if hasSuffix (rq_path r) ''/bundle-diff-files'' then serveBundleDiffFiles uni h f d server r
       else if hasSuffix (rq_path r) ''/diff'' then serveDiff uni h f d server r
       else serveVersions h f d server r)"

definition AssetVersionsHandler_ServeHTTP ::
    "(string \<Rightarrow> string) \<Rightarrow> (asset list \<Rightarrow> asset) \<Rightarrow> 'a versions_conf_scheme \<Rightarrow> api_event \<Rightarrow> writer \<times> resp_cache \<Rightarrow> writer \<times> resp_cache" where
  "AssetVersionsHandler_ServeHTTP uni bare h e =
     servePlan h (ev_now e) (ev_req e) (versionsPlan uni bare h (ev_fault e) (ev_db e) (ev_req e))"

section \<open>Suffix patterns\<close>

definition noWild :: "string \<Rightarrow> bool" where
  "noWild p \<longleftrightarrow> CHR ''%'' \<notin> set p \<and> CHR ''_'' \<notin> set p"

lemma like_literal: "noWild p \<Longrightarrow> sqlLike p s \<longleftrightarrow> map lowerChar s = map lowerChar p"
proof (induction p arbitrary: s)
  case (Cons c p)
  then show ?case by (cases s) (auto simp: sqlLike.simps noWild_def)
qed (simp add: sqlLike.simps)

lemma rune_tail:
  assumes "0 < i" and "i < snd (decodeRune s)" and "i < length s"
  shows "128 \<le> (of_char (s ! i) :: nat)"
proof -
  have "snd (decodeRune s) \<le> 4" by (simp add: decodeRune_def Let_def)
  with assms(1,2) consider "i = 1" | "i = 2" | "i = 3" by linarith
  then show ?thesis
    using assms by cases (auto simp: decodeRune_def Let_def contByte_def split: if_splits)
qed

lemma lowerChar_high: "128 \<le> (of_char c :: nat) \<Longrightarrow> lowerChar c = c"
  by (auto simp: lowerChar_def Let_def)

lemma like_suffix:
  assumes "noWild p" and "p \<noteq> []" and "(of_char (lowerChar (hd p)) :: nat) < 128"
  shows "sqlLike (CHR ''%'' # p) s \<longleftrightarrow> hasSuffix (map lowerChar s) (map lowerChar p)"
proof (induction s rule: length_induct)
  case (1 s)
  show ?case
  proof (cases s)
    case Nil
    then show ?thesis using assms by (cases p) (auto simp: sqlLike.simps hasSuffix_def noWild_def)
  next
    case (Cons x s')
    let ?w = "snd (decodeRune s)"
    have less: "length (drop ?w s) < length s" using rune_shrinks [of x s'] unfolding Cons by simp
    have unfold: "sqlLike (CHR ''%'' # p) s \<longleftrightarrow> map lowerChar s = map lowerChar p \<or> hasSuffix (map lowerChar (drop ?w s)) (map lowerChar p)"
      unfolding 1 [rule_format, OF less, symmetric] like_literal [OF assms(1), symmetric] unfolding Cons by (subst sqlLike.simps) simp
    have "?w \<le> length t" if t: "map lowerChar s = t @ map lowerChar p" "t \<noteq> []" for t
    proof (rule ccontr)
      assume "\<not> ?w \<le> length t"
      moreover have len: "length s = length t + length p" using arg_cong [OF t(1), of length] by simp
      ultimately have "128 \<le> (of_char (s ! length t) :: nat)" using t(2) assms(2) by (intro rune_tail) auto
      moreover have "map lowerChar s ! length t = lowerChar (hd p)" using t(1) assms(2) by (cases p) (auto simp: nth_append)
      then have "lowerChar (s ! length t) = lowerChar (hd p)" using len assms(2) by (cases p) auto
      ultimately show False using assms(3) lowerChar_high by (metis not_less)
    qed
    then have "hasSuffix (map lowerChar (drop ?w s)) (map lowerChar p)" if "map lowerChar s = t @ map lowerChar p" "t \<noteq> []" for t
      using that by (simp add: hasSuffix_iff flip: drop_map)
    moreover have "\<exists>t. map lowerChar s = t @ map lowerChar p" if "hasSuffix (map lowerChar (drop ?w s)) (map lowerChar p)"
    proof -
      from that obtain t where "map lowerChar (drop ?w s) = t @ map lowerChar p" by (auto simp: hasSuffix_iff)
      then have "map lowerChar s = (map lowerChar (take ?w s) @ t) @ map lowerChar p"
        by (metis append.assoc append_take_drop_id map_append)
      then show ?thesis ..
    qed
    ultimately show ?thesis unfolding unfold hasSuffix_iff by (metis append_Nil)
  qed
qed

section \<open>Parameters\<close>

definition typeOk :: "string \<Rightarrow> bool" where
  "typeOk p \<longleftrightarrow> p \<noteq> [] \<and> length p \<le> 16 \<and> list_all typeChar p"

lemma parseTypesLoop_facts:
  assumes "parseTypesLoop ps out = Inr ts" and "distinct out" and "list_all typeOk out"
  shows "distinct ts \<and> list_all typeOk ts \<and> set ts = set out \<union> typeToken ` set ps"
  using assms
proof (induction ps out rule: parseTypesLoop.induct)
  case (2 p ps out)
  let ?p = "typeToken p"
  from "2.prems"(1) have ok: "typeOk ?p" by (auto simp: Let_def typeOk_def split: if_splits)
  show ?case
  proof (cases "?p \<in> set out")
    case True
    with "2.prems" ok have "parseTypesLoop ps out = Inr ts" by (simp add: Let_def typeOk_def split: if_splits)
    with "2.IH"(1) [OF refl _ _ True] "2.prems"(2,3) ok True show ?thesis by (auto simp: typeOk_def)
  next
    case False
    with "2.prems" ok have "parseTypesLoop ps (out @ [?p]) = Inr ts" by (simp add: Let_def typeOk_def split: if_splits)
    with "2.IH"(2) [OF refl _ _ False] "2.prems"(2,3) ok False show ?thesis by (auto simp: typeOk_def)
  qed
qed auto

lemma typeChar_plain: "typeChar c \<Longrightarrow> c \<noteq> CHR ''%'' \<and> c \<noteq> CHR ''_'' \<and> lowerChar c = c"
  by (auto simp: typeChar_def less_eq_char_def lowerChar_def Let_def)

lemma ext_like:
  assumes "list_all typeChar ext"
  shows "sqlLike (''%.'' @ ext) s \<longleftrightarrow> hasSuffix (map lowerChar s) (CHR ''.'' # ext)"
proof -
  have "noWild (CHR ''.'' # ext)" using assms typeChar_plain by (fastforce simp: noWild_def list_all_iff)
  moreover have "map lowerChar ext = ext" using assms typeChar_plain by (simp add: list_all_iff map_idI)
  then have "map lowerChar (CHR ''.'' # ext) = CHR ''.'' # ext" by (simp add: lowerChar_def)
  ultimately show ?thesis using like_suffix [of "CHR ''.'' # ext" s] by (simp add: lowerChar_def)
qed

lemma atoi_formatInt: "0 \<le> n \<Longrightarrow> n < 2 ^ 63 \<Longrightarrow> atoi (formatInt n) = Some n"
proof -
  assume n: "0 \<le> n" "n < 2 ^ 63"
  let ?ds = "formatNat (nat n)"
  obtain c r where ds: "?ds = c # r" by (cases ?ds) simp_all
  have "isDigit c" using formatNat_digits [of "nat n"] ds by simp
  then have "c \<noteq> CHR ''-''" "c \<noteq> CHR ''+''" by (auto simp: isDigit_def)
  then have "\<not> hasPrefix ?ds ''-''" "\<not> hasPrefix ?ds ''+''" by (simp_all add: ds hasPrefix_def)
  then show ?thesis using n formatNat_digits [of "nat n"] by (simp add: atoi_def formatInt_def Let_def)
qed

lemma parse_encode_cursor:
  assumes "0 \<le> n" and "n < 2 ^ 63" and "safeSpec p"
  shows "parseDiffCursor (encodeDiffCursor \<lparr>dc_size = n, dc_path = p, dc_set = True\<rparr>) = Inr \<lparr>dc_size = n, dc_path = p, dc_set = True\<rparr>"
proof -
  let ?ds = "formatInt n"
  have ds: "?ds \<noteq> []" "CHR '':'' \<notin> set ?ds"
    using assms(1) formatNat_digits [of "nat n"] by (auto simp: formatInt_def list_all_iff isDigit_def)
  then have "strIndex (?ds @ '':'' @ p) '':'' = Some (length ?ds)" using strIndex_fresh [of "CHR '':''" ?ds "[]" p] by simp
  moreover have "p \<noteq> []" using assms(3) by (simp add: safeSpec_def)
  moreover have "normalizeBrowseCursor p [] = Inr p"
    using assms(3) trimSuffix_none [OF safeSpec_no_trailing [OF assms(3)]] by (simp add: normalizeBrowseCursor_iff)
  ultimately show ?thesis
    using ds assms(1,2) by (simp add: parseDiffCursor_def encodeDiffCursor_def atoi_formatInt)
qed

section \<open>Properties\<close>

text \<open>A list of types a client asks for is accepted only as at most sixteen distinct tokens of one to sixteen lower-case letters and
  digits; the pattern query built from them then selects exactly the files whose path, compared without ASCII case,
  ends in a dot and one of the tokens, whatever bytes the path holds.\<close>

theorem diff_types_select_extensions:
  assumes "parseDiffTypes uni raw def = Inr exts" and "raw \<noteq> []" and "raw \<noteq> ''all''"
  shows "exts \<noteq> [] \<and> distinct exts \<and> length exts \<le> 16 \<and> list_all typeOk exts
    \<and> (extSuffixCondition exts 0 a \<longleftrightarrow> (\<exists>ext \<in> set exts. hasSuffix (map lowerChar (a_path a)) (CHR ''.'' # ext)))"
proof -
  let ?parts = "strSplit CHR '','' (toLower uni raw)"
  have parts: "length ?parts \<le> 16" "parseTypesLoop ?parts [] = Inr exts"
    using assms by (auto simp: parseDiffTypes_def Let_def maxDiffTypes_def split: if_splits)
  then have facts: "distinct exts" "list_all typeOk exts" "set exts = typeToken ` set ?parts"
    using parseTypesLoop_facts [of ?parts "[]" exts] by simp_all
  have "?parts \<noteq> []" by simp
  then have ne: "exts \<noteq> []" using facts(3) by force
  have "length exts = card (typeToken ` set ?parts)" using facts(1,3) by (metis distinct_card)
  also have "\<dots> \<le> length ?parts" by (rule order_trans [OF card_image_le card_length]) simp
  finally have "length exts \<le> 16" using parts(1) by simp
  moreover have "extSuffixCondition exts 0 a \<longleftrightarrow> (\<exists>ext \<in> set exts. hasSuffix (map lowerChar (a_path a)) (CHR ''.'' # ext))"
    using ne facts(2) ext_like by (auto simp: extSuffixCondition_def list_ex_iff list_all_iff typeOk_def)
  ultimately show ?thesis using ne facts(1,2) by simp
qed

theorem diff_types_select_extensions_witness:
  "parseDiffTypes id ''PNG,.mp3,png'' [] = Inr [''png'', ''mp3'']
   \<and> extSuffixCondition [''png'', ''mp3''] 0 (mkAsset ''jp'' ''b'' ''b/X.PNG'' ''1'' ''f1'' False ''s1'')"
proof
  have low: "toLower id ''PNG,.mp3,png'' = ''png,.mp3,png''" by code_simp
  have "typeToken ''png'' = ''png''" "typeToken ''.mp3'' = ''mp3''" "list_all typeChar ''png''" "list_all typeChar ''mp3''"
    by (simp_all add: typeToken_def trimPrefix_def hasPrefix_def strTrimSpace_plain isSpaceRune_def typeChar_def less_eq_char_def)
  then show p: "parseDiffTypes id ''PNG,.mp3,png'' [] = Inr [''png'', ''mp3'']"
    by (simp add: parseDiffTypes_def low maxDiffTypes_def)
  have "hasSuffix (map lowerChar (a_path (mkAsset ''jp'' ''b'' ''b/X.PNG'' ''1'' ''f1'' False ''s1''))) (CHR ''.'' # ''png'')" by code_simp
  then show "extSuffixCondition [''png'', ''mp3''] 0 (mkAsset ''jp'' ''b'' ''b/X.PNG'' ''1'' ''f1'' False ''s1'')"
    using diff_types_select_extensions [OF p, of "mkAsset ''jp'' ''b'' ''b/X.PNG'' ''1'' ''f1'' False ''s1''"] by simp
qed

text \<open>C31: Paging through a diff over HTTP never gets stuck: the cursor of any page of a version's diff is encoded to a text that
  the next request's parser turns back into the same cursor.\<close>

theorem diff_cursor_roundtrip:
  assumes "\<forall>a \<in> set (db_assets d). a_path a = [] \<or> safeSpec (a_path a)" and "\<forall>a \<in> set (db_assets d). 0 \<le> a_size a \<and> a_size a < 2 ^ 63"
    and "DiffVersion uni f d server ver opts = Inr (vd, True)"
  shows "parseDiffCursor (encodeDiffCursor (vd_next vd)) = Inr (vd_next vd)"
proof -
  let ?rows = "diffFrom uni d server ver (\<lambda>_. True) opts (do_cursor opts)"
  note page = diffPage_found [OF assms(3) [unfolded DiffVersion_def]]
  then obtain v where "newestVersion d server ver = Some v" by blast
  from diffPage_run [OF page(1) this, of uni "\<lambda>_. True"] page(3)
  have "vd_next vd = (let n = nat (do_limit opts) in if n < length ?rows
      then \<lparr>dc_size = a_size (?rows ! (n - 1)), dc_path = a_path (?rows ! (n - 1)), dc_set = True\<rparr> else dc_zero)"
    by (simp add: Let_def)
  moreover have "?rows ! (nat (do_limit opts) - 1) \<in> set ?rows" if "nat (do_limit opts) < length ?rows"
    using that by (intro nth_mem) simp
  ultimately consider "vd_next vd = dc_zero" | a where "a \<in> set ?rows" "vd_next vd = \<lparr>dc_size = a_size a, dc_path = a_path a, dc_set = True\<rparr>"
    unfolding Let_def by (metis (no_types))
  then show ?thesis
  proof cases
    case 1
    then show ?thesis by (simp add: encodeDiffCursor_def parseDiffCursor_def dc_zero_def)
  next
    case 2
    then have "a \<in> set (db_assets d)" "a_path a \<noteq> []" by (auto simp: diffFrom_def diffRows_def)
    then show ?thesis using assms(1,2) parse_encode_cursor [of "a_size a" "a_path a"] 2(2) by auto
  qed
qed

theorem diff_cursor_roundtrip_witness:
  "\<exists>vd. DiffVersion id no_fault demo_diff_db ''jp'' ''2'' demo_diff_options = Inr (vd, True) \<and> encodeDiffCursor (vd_next vd) = ''9:b_1/z.mp3''
     \<and> parseDiffCursor ''9:b_1/z.mp3'' = Inr (vd_next vd)"
proof -
  define vd where "vd = fst (projr (DiffVersion id no_fault demo_diff_db ''jp'' ''2'' demo_diff_options))"
  have vd: "DiffVersion id no_fault demo_diff_db ''jp'' ''2'' demo_diff_options = Inr (vd, True)" unfolding vd_def by code_simp
  have enc: "encodeDiffCursor (vd_next vd) = ''9:b_1/z.mp3''" unfolding vd_def by code_simp
  have "\<forall>a \<in> set (db_assets demo_diff_db). a_path a = [] \<or> safeSpec (a_path a)" by code_simp
  moreover have "\<forall>a \<in> set (db_assets demo_diff_db). 0 \<le> a_size a \<and> a_size a < 2 ^ 63" by (simp add: demo_diff_db_def mkAsset_def)
  ultimately have "parseDiffCursor (encodeDiffCursor (vd_next vd)) = Inr (vd_next vd)" using vd by (rule diff_cursor_roundtrip)
  then show ?thesis using vd enc by simp
qed

section \<open>The cache key of the bundle file diff\<close>

text \<open>What a bundle file diff request of the sample version computes, for a list of types.\<close>

definition demo_versions_conf :: versions_conf where
  "demo_versions_conf = \<lparr>ac_AllowedServers = [''jp''], ac_DefaultLimit = 0, ac_MaxLimit = 0, ac_CacheTTL = 0, ac_MaxCacheItems = 0,
     vc_DefaultTypes = None, vc_DefaultMinMp3Size = None\<rparr>"

definition demo_diff_event :: "string \<Rightarrow> api_event" where
  "demo_diff_event types = \<lparr>ev_fault = no_fault, ev_now = (\<lambda>_. 0), ev_db = Some demo_diff_db,
     ev_req = \<lparr>rq_method = ''GET'', rq_path = ''/api/assets/bundle-diff-files'', rq_escaped = ''/api/assets/bundle-diff-files'',
       rq_query = [(''server'', [''jp'']), (''version'', [''2'']), (''path'', [''b_1'']), (''action'', [''all'']), (''limit'', [''9'']), (''types'', [types])],
       rq_header = [], rq_remote = []\<rparr>\<rparr>"

lemma demo_diff_answers:
  "let h = AssetVersionsHandler_ServeHTTP id hd demo_versions_conf;
       after = serveAll h [demo_diff_event ''all''] []
   in contains (rw_body (fst (h (demo_diff_event ''png'') (new_writer, after)))) ''z.mp3''
      \<and> \<not> contains (rw_body (fst (h (demo_diff_event ''png'') (new_writer, [])))) ''z.mp3''"
  by code_simp

text \<open>The handler of the version endpoints breaks the promise of the listings: the cache key of the bundle file diff leaves
  the types out, so a request for one file type may be answered with the cached answer for another.\<close>

theorem bundle_diff_files_ignore_types:
  "\<not> answersRecent demo_versions_conf (AssetVersionsHandler_ServeHTTP id hd demo_versions_conf)"
proof
  let ?h = "AssetVersionsHandler_ServeHTTP id hd demo_versions_conf"
  assume "answersRecent demo_versions_conf ?h"
  moreover have "onDbOf (demo_diff_event ''all'') (demo_diff_event ''png'') = demo_diff_event ''png''"
    by (simp add: onDbOf_def demo_diff_event_def)
  ultimately have "fst (?h (demo_diff_event ''png'') (new_writer, serveAll ?h [demo_diff_event ''all''] []))
      = fst (?h (demo_diff_event ''png'') (new_writer, []))"
    unfolding answersRecent_def Let_def by (metis (no_types) list.set(1,2) singletonD)
  then show False using demo_diff_answers by (simp add: Let_def del: serveAll.simps)
qed

end
