(* ===== verification/SnapshotIndex.thy ===== *)
theory SnapshotIndex
  imports Browse
begin

text \<open>
  \<^verbatim>\<open>internal/index/index.go\<close>: the in-memory placement snapshot. Go maps are association lists; the atomic pointer
  and counter are fields of one record. The two queries of \<open>Rebuild\<close> may fail at once or at a row
  (statements 0 to 3 of the fault parameter); because \<^verbatim>\<open>rows.Err\<close> is not consulted, an iteration that breaks off
  otherwise looks like its end: \<open>gap\<close> gives the number of rows delivered before that, if it happens.
\<close>

section \<open>Definitions\<close>

record index_row =
  ir_fingerprint :: string
  ir_storage_key :: string
  ir_sha256 :: string
  ir_version :: string
  ir_size :: int

record index_browse_result =
  ib_items :: "browse_entry list"
  ib_next_cursor :: string

definition ib_zero :: index_browse_result where
  "ib_zero = \<lparr>ib_items = [], ib_next_cursor = []\<rparr>"

type_synonym browse_builder = "(string \<times> (string \<times> browse_entry) list) list"
type_synonym browse_tree = "(string \<times> browse_entry list) list"

record snapshot =
  sn_revision :: u64
  sn_override_index :: "(string \<times> index_row) list"
  sn_current_shared :: "(string \<times> index_row) list"
  sn_shared_browse :: browse_tree
  sn_override_browse :: "(string \<times> browse_tree) list"

record index =
  ix_ptr :: snapshot
  ix_rev :: u64

definition Key :: "string \<Rightarrow> string \<Rightarrow> string" where
  "Key server path = server @ [CHR 0x00] @ path"

definition Index_New :: index where
  "Index_New = \<lparr>ix_ptr = \<lparr>sn_revision = 0, sn_override_index = [], sn_current_shared = [], sn_shared_browse = [], sn_override_browse = []\<rparr>,
     ix_rev = 0\<rparr>"

subsection \<open>The browse tree\<close>

definition browseKey :: "browse_entry \<Rightarrow> string \<times> string" where
  "browseKey e = (be_path e, be_kind e)"

definition browseLess :: "browse_entry \<Rightarrow> browse_entry \<Rightarrow> bool" where
  "browseLess a b = (if be_path a \<noteq> be_path b then be_path a < be_path b else be_kind a < be_kind b)"

definition sameBrowseEntry :: "browse_entry \<Rightarrow> browse_entry \<Rightarrow> bool" where
  "sameBrowseEntry a b \<longleftrightarrow> be_kind a = be_kind b \<and> be_path a = be_path b"

definition baseName :: "string \<Rightarrow> string" where
  "baseName p = rev (takeWhile (\<lambda>c. c \<noteq> CHR ''/'') (dropWhile (\<lambda>c. c = CHR ''/'') (rev p)))"

definition builderAdd :: "string \<Rightarrow> browse_entry \<Rightarrow> browse_builder \<Rightarrow> browse_builder" where
  "builderAdd prefix entry b =
     (let entries = (case mapGet prefix b of None \<Rightarrow> [] | Some es \<Rightarrow> es)
      in mapSet prefix (mapSet (be_kind entry @ [CHR 0x00] @ be_path entry) entry entries) b)"

text \<open>The loop of \<open>addAsset\<close>: \<open>prefix\<close> is the path up to the last slash seen, \<open>name\<close> what has been read since.\<close>

fun addDirs :: "browse_builder \<Rightarrow> browse_entry \<Rightarrow> string \<Rightarrow> string \<Rightarrow> string \<Rightarrow> browse_builder" where
  "addDirs b asset prefix name [] = builderAdd prefix asset b"
| "addDirs b asset prefix name (c # s) =
     (if c \<noteq> CHR ''/'' then addDirs b asset prefix (name @ [c]) s
      else if name = [] then b
      else let dirPath = prefix @ name @ ''/''
           in addDirs (builderAdd prefix (dirEntry name dirPath) b) asset dirPath [] s)"

definition addAsset :: "browse_entry \<Rightarrow> browse_builder \<Rightarrow> browse_builder" where
  "addAsset asset b =
     (if be_path asset = [] then b
      else
        let asset = asset\<lparr>be_kind := BrowseKindAsset, be_name := baseName (be_path asset)\<rparr>
        in if be_name asset = [] then b else addDirs b asset [] [] (be_path asset))"

text \<open>No two entries of one directory agree in path and kind, so the unstable sort has one outcome.\<close>

definition freeze :: "browse_builder \<Rightarrow> browse_tree" where
  "freeze b = map (\<lambda>(prefix, entries). (prefix, sort_key browseKey (map snd entries))) b"

subsection \<open>Rebuild\<close>

definition indexRowOf :: "asset \<Rightarrow> index_row" where
  "indexRowOf a = \<lparr>ir_fingerprint = a_fingerprint a, ir_storage_key = a_storage_key a, ir_sha256 = a_sha256 a,
     ir_version = a_version a, ir_size = a_size a\<rparr>"

definition overrideRowsOf :: "asset list \<Rightarrow> asset list" where
  "overrideRowsOf t = sort_key (\<lambda>a. (a_server a, a_path a)) (filter (\<lambda>a. a_is_override a
     \<and> (\<forall>b \<in> set t. a_server b = a_server a \<and> a_path b = a_path a \<longrightarrow> a_id b \<le> a_id a)) t)"

definition sharedRowsOf :: "asset list \<Rightarrow> asset list" where
  "sharedRowsOf t = sort_key a_path (filter (\<lambda>a. \<not> a_is_override a
     \<and> (\<forall>b \<in> set t. \<not> a_is_override b \<and> a_path b = a_path a \<longrightarrow> a_id b \<le> a_id a)) t)"

definition delivered :: "nat option \<Rightarrow> 'a list \<Rightarrow> 'a list" where
  "delivered c rows = (case c of None \<Rightarrow> rows | Some n \<Rightarrow> take n rows)"

definition addOverrideRow :: "(string \<times> index_row) list \<times> (string \<times> browse_builder) list \<Rightarrow> asset
    \<Rightarrow> (string \<times> index_row) list \<times> (string \<times> browse_builder) list" where
  "addOverrideRow st a =
     (let builder = (case mapGet (a_server a) (snd st) of None \<Rightarrow> [] | Some b \<Rightarrow> b)
      in (mapSet (Key (a_server a) (a_path a)) (indexRowOf a) (fst st),
          mapSet (a_server a) (addAsset (assetEntry [] a False) builder) (snd st)))"

definition addSharedRow :: "(string \<times> index_row) list \<times> browse_builder \<Rightarrow> asset \<Rightarrow> (string \<times> index_row) list \<times> browse_builder" where
  "addSharedRow st a = (mapSet (a_path a) (indexRowOf a) (fst st), addAsset (assetEntry [] a True) (snd st))"

definition Rebuild :: "sqlfault \<Rightarrow> (nat \<Rightarrow> nat option) \<Rightarrow> db \<Rightarrow> index \<Rightarrow> string option \<times> index" where
  "Rebuild f gap d i =
     (let i = i\<lparr>ix_rev := ix_rev i + 1\<rparr>
      in case bindR (exec (f 0) (delivered (gap 0) (overrideRowsOf (db_assets d)))) (\<lambda>rows.
              bindR (exec (f 1) (foldl addOverrideRow ([], []) rows)) (\<lambda>(overrideIndex, overrideBrowse).
              bindR (exec (f 2) (delivered (gap 1) (sharedRowsOf (db_assets d)))) (\<lambda>rows.
              bindR (exec (f 3) (foldl addSharedRow ([], []) rows)) (\<lambda>(currentShared, sharedBrowse).
                Inr \<lparr>sn_revision = ix_rev i, sn_override_index = overrideIndex, sn_current_shared = currentShared,
                     sn_shared_browse = freeze sharedBrowse, sn_override_browse = map (\<lambda>(srv, b). (srv, freeze b)) overrideBrowse\<rparr>)))) of
           Inl e \<Rightarrow> (Some e, i)
         | Inr snap \<Rightarrow> (None, i\<lparr>ix_ptr := snap\<rparr>))"

subsection \<open>Reading\<close>

definition lookupResult :: "index_row \<Rightarrow> bool \<Rightarrow> placement" where
  "lookupResult row fromShared = \<lparr>p_found = True, p_from_shared = fromShared, p_fingerprint = ir_fingerprint row,
     p_storage_key = ir_storage_key row, p_sha256 = ir_sha256 row, p_version = ir_version row, p_size = ir_size row\<rparr>"

definition Snapshot_Lookup :: "snapshot option \<Rightarrow> string \<Rightarrow> string \<Rightarrow> placement" where
  "Snapshot_Lookup s server path =
     (case s of
        None \<Rightarrow> placement_zero
      | Some s \<Rightarrow>
          (case mapGet (Key server path) (sn_override_index s) of
             Some row \<Rightarrow> lookupResult row False
           | None \<Rightarrow>
               (case mapGet path (sn_current_shared s) of
                  Some row \<Rightarrow> lookupResult row True
                | None \<Rightarrow> placement_zero)))"

definition pushAfter :: "string \<Rightarrow> browse_entry \<Rightarrow> browse_entry list \<Rightarrow> browse_entry list" where
  "pushAfter cursor entry items = (if cursor \<noteq> [] \<and> be_path entry \<le> cursor then items else items @ [entry])"

text \<open>The merge of \<open>Browse\<close>; \<open>overridden\<close> is the test in \<open>OverrideIndex\<close>.\<close>

function mergeLoop ::
    "(string \<Rightarrow> bool) \<Rightarrow> string \<Rightarrow> nat \<Rightarrow> browse_entry list \<Rightarrow> browse_entry list \<Rightarrow> browse_entry list \<Rightarrow> browse_entry list" where
  "mergeLoop overridden cursor limit shared overrides items =
     (if limit + 1 \<le> length items \<or> (shared = [] \<and> overrides = []) then items
      else if overrides \<noteq> [] \<and> (shared = [] \<or> browseLess (hd overrides) (hd shared))
        then mergeLoop overridden cursor limit shared (tl overrides) (pushAfter cursor (hd overrides) items)
      else if overrides \<noteq> [] \<and> sameBrowseEntry (hd shared) (hd overrides)
        then mergeLoop overridden cursor limit (tl shared) (tl overrides) (pushAfter cursor (hd overrides) items)
      else if be_kind (hd shared) = BrowseKindAsset \<and> overridden (be_path (hd shared))
        then mergeLoop overridden cursor limit (tl shared) overrides items
      else mergeLoop overridden cursor limit (tl shared) overrides (pushAfter cursor (hd shared) items))"
  by pat_completeness auto
termination
  by (relation "measure (\<lambda>(ov, c, l, sh, os, is). length sh + length os)")
    (auto simp flip: length_greater_0_conv)

declare mergeLoop.simps [simp del]

definition Snapshot_Browse :: "snapshot option \<Rightarrow> string \<Rightarrow> string \<Rightarrow> string \<Rightarrow> int \<Rightarrow> index_browse_result" where
  "Snapshot_Browse s server prefix cursor limit =
     (case s of
        None \<Rightarrow> ib_zero
      | Some s \<Rightarrow>
          if limit \<le> 0 then ib_zero
          else
            let at = (\<lambda>t. case mapGet prefix t of None \<Rightarrow> [] | Some es \<Rightarrow> es);
                shared = at (sn_shared_browse s);
                overrides = (case mapGet server (sn_override_browse s) of None \<Rightarrow> [] | Some t \<Rightarrow> at t);
                items = mergeLoop (\<lambda>p. mapGet (Key server p) (sn_override_index s) \<noteq> None) cursor (nat limit) shared overrides [];
                (page, next) = cutPage be_path (nat limit) items
            in \<lparr>ib_items = page, ib_next_cursor = next\<rparr>)"

section \<open>Lookups\<close>

text \<open>Entering rows one by one: a key has the row of the last one entered under it.\<close>

lemma mapGet_fold_rows:
  assumes "\<And>a b. a \<in> set rows \<Longrightarrow> b \<in> set rows \<Longrightarrow> kf a = kf b \<Longrightarrow> a = b"
  shows "mapGet k (foldl (\<lambda>m a. mapSet (kf a) (v a) m) [] rows) = Some r \<longleftrightarrow> (\<exists>a \<in> set rows. kf a = k \<and> r = v a)"
  using assms
proof (induction rows rule: rev_induct)
  case (snoc x rows)
  have IH: "mapGet k (foldl (\<lambda>m a. mapSet (kf a) (v a) m) [] rows) = Some r \<longleftrightarrow> (\<exists>a \<in> set rows. kf a = k \<and> r = v a)"
    by (rule snoc.IH) (rule snoc.prems; simp)
  show ?case
  proof (cases "k = kf x")
    case True
    have "a = x" if "a \<in> set rows" "kf a = k" for a using that True by (intro snoc.prems) simp_all
    with True show ?thesis by auto
  next
    case False
    with IH show ?thesis by auto
  qed
qed simp

lemma fold_fst: "(\<And>st a. fst (g st a) = h (fst st) a) \<Longrightarrow> fst (foldl g st rows) = foldl h (fst st) rows"
  by (induction rows arbitrary: st) simp_all

lemma Key_inject:
  "CHR 0x00 \<notin> set s \<Longrightarrow> CHR 0x00 \<notin> set s' \<Longrightarrow> Key s p = Key s' p' \<longleftrightarrow> s = s' \<and> p = p'"
proof
  assume s: "CHR 0x00 \<notin> set s" "CHR 0x00 \<notin> set s'" and eq: "Key s p = Key s' p'"
  have "s = s'" using arg_cong [OF eq, of "takeWhile (\<lambda>c. c \<noteq> CHR 0x00)"] s by (simp add: Key_def takeWhile_sep)
  with eq show "s = s' \<and> p = p'" by (simp add: Key_def)
qed simp

lemma override_lookup:
  assumes "tbl_unique a_id t" and "CHR 0x00 \<notin> set server" and "\<forall>a \<in> set t. CHR 0x00 \<notin> set (a_server a)"
  shows "mapGet (Key server path) (fst (foldl addOverrideRow ([], []) (overrideRowsOf t)))
    = map_option indexRowOf (filter_option a_is_override (newestRow t server path))"
proof (rule option_eqI)
  fix r
  let ?kf = "\<lambda>a. Key (a_server a) (a_path a)"
  have uniq: "a = b" if "a \<in> set (overrideRowsOf t)" "b \<in> set (overrideRowsOf t)" "?kf a = ?kf b" for a b
    using that assms(3) by (intro unique_id_eq [OF assms(1)]) (auto simp: overrideRowsOf_def Key_inject intro: antisym)
  have "fst (foldl addOverrideRow ([], []) (overrideRowsOf t)) = foldl (\<lambda>m a. mapSet (?kf a) (indexRowOf a) m) [] (overrideRowsOf t)"
    using fold_fst [of addOverrideRow "\<lambda>m a. mapSet (?kf a) (indexRowOf a) m" "([], [])"] by (simp add: addOverrideRow_def)
  then have "mapGet (Key server path) (fst (foldl addOverrideRow ([], []) (overrideRowsOf t))) = Some r
      \<longleftrightarrow> (\<exists>a \<in> set (overrideRowsOf t). ?kf a = Key server path \<and> r = indexRowOf a)"
    using mapGet_fold_rows [of "overrideRowsOf t" ?kf "Key server path" indexRowOf r] uniq by simp
  also have "\<dots> \<longleftrightarrow> (\<exists>a. newestRow t server path = Some a \<and> a_is_override a \<and> r = indexRowOf a)"
    using assms(2,3) by (auto simp: overrideRowsOf_def newestRow_def newest_filter_Some_iff [OF assms(1)] Key_inject)
  also have "\<dots> \<longleftrightarrow> map_option indexRowOf (filter_option a_is_override (newestRow t server path)) = Some r"
    by (cases "newestRow t server path") auto
  finally show "mapGet (Key server path) (fst (foldl addOverrideRow ([], []) (overrideRowsOf t))) = Some r
      \<longleftrightarrow> map_option indexRowOf (filter_option a_is_override (newestRow t server path)) = Some r" .
qed

lemma shared_lookup:
  assumes "tbl_unique a_id t"
  shows "mapGet path (fst (foldl addSharedRow ([], []) (sharedRowsOf t))) = map_option indexRowOf (newestShared t path)"
proof (rule option_eqI)
  fix r
  have uniq: "a = b" if "a \<in> set (sharedRowsOf t)" "b \<in> set (sharedRowsOf t)" "a_path a = a_path b" for a b
    using that by (intro unique_id_eq [OF assms(1)]) (auto simp: sharedRowsOf_def intro: antisym)
  have "fst (foldl addSharedRow ([], []) (sharedRowsOf t)) = foldl (\<lambda>m a. mapSet (a_path a) (indexRowOf a) m) [] (sharedRowsOf t)"
    using fold_fst [of addSharedRow "\<lambda>m a. mapSet (a_path a) (indexRowOf a) m" "([], [])"] by (simp add: addSharedRow_def)
  then have "mapGet path (fst (foldl addSharedRow ([], []) (sharedRowsOf t))) = Some r \<longleftrightarrow> (\<exists>a \<in> set (sharedRowsOf t). a_path a = path \<and> r = indexRowOf a)"
    using mapGet_fold_rows [of "sharedRowsOf t" a_path path indexRowOf r] uniq by simp
  also have "\<dots> \<longleftrightarrow> map_option indexRowOf (newestShared t path) = Some r"
    by (auto simp: sharedRowsOf_def newestShared_def newest_filter_Some_iff [OF assms])
  finally show "mapGet path (fst (foldl addSharedRow ([], []) (sharedRowsOf t))) = Some r
      \<longleftrightarrow> map_option indexRowOf (newestShared t path) = Some r" .
qed

lemma lookupResult_indexRowOf: "lookupResult (indexRowOf a) fs = placementFromAsset a fs"
  by (simp add: lookupResult_def indexRowOf_def placementFromAsset_def)

lemma Rebuild_success:
  assumes "Rebuild f gap d i = (None, i')" and "gap = (\<lambda>_. None)"
  shows "sn_override_index (ix_ptr i') = fst (foldl addOverrideRow ([], []) (overrideRowsOf (db_assets d)))"
    "sn_current_shared (ix_ptr i') = fst (foldl addSharedRow ([], []) (sharedRowsOf (db_assets d)))"
    "sn_revision (ix_ptr i') = ix_rev i + 1"
  using assms by (auto simp: Rebuild_def Let_def delivered_def exec_def bindR_def split: sum.splits option.splits prod.splits)

section \<open>Properties\<close>

text \<open>C33: The in-memory snapshot and the database answer alike: after a rebuild that reads all rows, looking a path up in the
  snapshot gives for every server what the store's placement lookup gives on an up-to-date read index, namely the
  server's own newest row if it is an override, else the newest shared row, else nothing.\<close>

theorem snapshot_lookup_equivalent:
  assumes "db_wf d" and "index_ok d" and "\<forall>a \<in> set (db_assets d). CHR 0x00 \<notin> set (a_server a)" and "CHR 0x00 \<notin> set server"
    and "Rebuild f (\<lambda>_. None) d i = (None, i')"
  shows "LookupPlacement no_fault d server path = Inr (Snapshot_Lookup (Some (ix_ptr i')) server path)"
proof -
  have u: "tbl_unique a_id (db_assets d)" using assms(1) by (simp add: db_wf_def)
  have "Snapshot_Lookup (Some (ix_ptr i')) server path = placementSpec (db_assets d) server path"
    by (simp add: Snapshot_Lookup_def Rebuild_success(1,2) [OF assms(5) refl] override_lookup [OF u assms(4,3)] shared_lookup [OF u]
        placementSpec_def lookupResult_indexRowOf split: option.split)
  moreover obtain r where r: "LookupPlacement no_fault d server path = Inr r" using LookupPlacement_total by blast
  then have "r = placementSpec (db_assets d) server path" using LookupPlacement_spec(1) [OF assms(2)] by simp
  ultimately show ?thesis using r by simp
qed

text \<open>A shared file and an override of it by one server.\<close>

definition demo_index_db :: db where
  "demo_index_db =
     (let t = [(mkAsset ''jp'' ''b'' ''b/x'' ''1'' ''f1'' False ''k1'')\<lparr>a_id := 1\<rparr>, (mkAsset ''en'' ''b'' ''b/x'' ''1'' ''f2'' True ''k2'')\<lparr>a_id := 2\<rparr>]
      in empty_db\<lparr>db_assets := t, db_asset_seq := 2, db_current := rebuildCurrent t, db_shared := rebuildShared t\<rparr>)"

theorem snapshot_lookup_equivalent_witness:
  "map (\<lambda>s. LookupPlacement no_fault demo_index_db s ''b/x'') [''jp'', ''en'']
     = map (\<lambda>s. Inr (Snapshot_Lookup (Some (ix_ptr (snd (Rebuild no_fault (\<lambda>_. None) demo_index_db Index_New)))) s ''b/x'')) [''jp'', ''en'']"
proof -
  have wf: "db_wf demo_index_db" by code_simp
  have ok: "index_ok demo_index_db"
    using wf by (simp add: index_ok_def demo_index_db_def Let_def lookup_rebuildCurrent lookup_rebuildShared db_wf_def)
  have nul: "\<forall>a \<in> set (db_assets demo_index_db). CHR 0x00 \<notin> set (a_server a)" by code_simp
  have run: "Rebuild no_fault (\<lambda>_. None) demo_index_db Index_New = (None, snd (Rebuild no_fault (\<lambda>_. None) demo_index_db Index_New))"
    by (simp add: Rebuild_def Let_def split: prod.split)
  show ?thesis using snapshot_lookup_equivalent [OF wf ok nul _ run] by simp
qed

end
