(* ===== verification/FrameWriter.thy ===== *)
theory FrameWriter
  imports Wire
begin

text \<open>
  \<^verbatim>\<open>internal/hipserver/writer.go\<close>: the writer of one connection as a state machine. Any number of goroutines call \<open>Send\<close>, one
  calls \<open>Close\<close> once, and the loop goroutine takes frames from the channel; every step of one of them is a step of the
  relation \<open>fw_step\<close>, in any interleaving. The second component of its states records the frames that were accepted,
  in the order in which the channel took them.
\<close>

section \<open>Definitions\<close>

record 'w frame_writer =
  fw_w :: 'w
  fw_maxFrame :: u64
  fw_cap :: nat
  fw_ch :: "frame list"
  fw_closed :: bool
  fw_draining :: bool
  fw_done :: bool
  fw_err :: "write_error option"

definition newFrameWriter :: "'w \<Rightarrow> u64 \<Rightarrow> int \<Rightarrow> 'w frame_writer" where
  "newFrameWriter w maxFrame buffer =
     \<lparr>fw_w = w, fw_maxFrame = maxFrame, fw_cap = (if buffer \<le> 0 then 32 else nat buffer), fw_ch = [], fw_closed = False,
      fw_draining = False, fw_done = False, fw_err = None\<rparr>"

definition setErr :: "write_error \<Rightarrow> 'w frame_writer \<Rightarrow> 'w frame_writer" where
  "setErr e fw = (if fw_err fw = None then fw\<lparr>fw_err := Some e\<rparr> else fw)"

text \<open>One receive of the loop goroutine and what follows it; \<open>None\<close> while it waits and after it has returned.\<close>

definition loopStep :: "('w \<Rightarrow> byte list \<Rightarrow> string option \<times> 'w) \<Rightarrow> 'w frame_writer \<Rightarrow> 'w frame_writer option" where
  "loopStep wr fw =
     (if fw_done fw then None
      else
        case fw_ch fw of
          [] \<Rightarrow> if fw_closed fw then Some (fw\<lparr>fw_done := True\<rparr>) else None
        | f # rest \<Rightarrow>
            if fw_draining fw then Some (fw\<lparr>fw_ch := rest\<rparr>)
            else (case WriteFrame wr (fw_w fw) f (fw_maxFrame fw) of
                    (None, w') \<Rightarrow> Some (fw\<lparr>fw_w := w', fw_ch := rest\<rparr>)
                  | (Some e, w') \<Rightarrow> Some (setErr e (fw\<lparr>fw_w := w', fw_ch := rest, fw_draining := True\<rparr>))))"

datatype send_result = Sent | Cancelled | Failed "write_error option" | SendPanics

text \<open>\<open>Send\<close> takes one of the cases that are ready; \<open>cancelled\<close> says that the context is done. Sending on a closed channel
  is ready and panics.\<close>

inductive Send :: "bool \<Rightarrow> frame \<Rightarrow> 'w frame_writer \<Rightarrow> send_result \<Rightarrow> 'w frame_writer \<Rightarrow> bool" for cancelled f fw where
  enqueue: "\<not> fw_closed fw \<Longrightarrow> length (fw_ch fw) < fw_cap fw \<Longrightarrow> Send cancelled f fw Sent (fw\<lparr>fw_ch := fw_ch fw @ [f]\<rparr>)"
| panic: "fw_closed fw \<Longrightarrow> Send cancelled f fw SendPanics fw"
| ctx_done: "cancelled \<Longrightarrow> Send cancelled f fw Cancelled fw"
| finished: "fw_done fw \<Longrightarrow> Send cancelled f fw (Failed (fw_err fw)) fw"

inductive_cases SendE: "Send cancelled f fw r fw'"

text \<open>\<open>Close\<close> closes the channel and then waits until \<open>fw_done\<close>.\<close>

definition closeChannel :: "'w frame_writer \<Rightarrow> 'w frame_writer option" where
  "closeChannel fw = (if fw_closed fw then None else Some (fw\<lparr>fw_closed := True\<rparr>))"

inductive fw_step :: "('w \<Rightarrow> byte list \<Rightarrow> string option \<times> 'w) \<Rightarrow> 'w frame_writer \<times> frame list \<Rightarrow> 'w frame_writer \<times> frame list \<Rightarrow> bool"
  for wr where
  sending: "Send cancelled f fw r fw' \<Longrightarrow> fw_step wr (fw, acc) (fw', if r = Sent then acc @ [f] else acc)"
| looping: "loopStep wr fw = Some fw' \<Longrightarrow> fw_step wr (fw, acc) (fw', acc)"
| closing: "closeChannel fw = Some fw' \<Longrightarrow> fw_step wr (fw, acc) (fw', acc)"

section \<open>The invariant\<close>

lemma frameWriter_loop_snoc:
  "frameWriter_loop wr m w (fs @ [f]) =
     (case frameWriter_loop wr m w fs of (Some e, w') \<Rightarrow> (Some e, w') | (None, w') \<Rightarrow> WriteFrame wr w' f m)"
  by (induction fs arbitrary: w) (auto split: prod.splits option.splits)

lemma frameWriter_loop_stopped:
  "fst (frameWriter_loop wr m w fs) \<noteq> None \<Longrightarrow> frameWriter_loop wr m w (fs @ gs) = frameWriter_loop wr m w fs"
  by (induction fs arbitrary: w) (auto split: prod.splits option.splits)

text \<open>What has left the channel has been written as the sequential loop writes it.\<close>

definition fw_inv :: "('w \<Rightarrow> byte list \<Rightarrow> string option \<times> 'w) \<Rightarrow> u64 \<Rightarrow> 'w \<Rightarrow> 'w frame_writer \<times> frame list \<Rightarrow> bool" where
  "fw_inv wr m w0 = (\<lambda>(fw, acc). fw_maxFrame fw = m \<and> (fw_draining fw \<longleftrightarrow> fw_err fw \<noteq> None) \<and> (fw_done fw \<longrightarrow> fw_closed fw \<and> fw_ch fw = [])
     \<and> length (fw_ch fw) \<le> fw_cap fw
     \<and> (\<exists>taken. acc = taken @ fw_ch fw \<and> frameWriter_loop wr m w0 taken = (fw_err fw, fw_w fw)))"

lemma fw_inv_init: "fw_inv wr m w0 (newFrameWriter w0 m buffer, [])"
  by (simp add: fw_inv_def newFrameWriter_def)

lemma fw_inv_loop:
  assumes "fw_inv wr m w0 (fw, acc)" and "loopStep wr fw = Some fw'"
  shows "fw_inv wr m w0 (fw', acc)"
proof -
  obtain taken where t: "acc = taken @ fw_ch fw" "frameWriter_loop wr m w0 taken = (fw_err fw, fw_w fw)"
    and inv: "fw_maxFrame fw = m" "fw_draining fw \<longleftrightarrow> fw_err fw \<noteq> None" "length (fw_ch fw) \<le> fw_cap fw"
    using assms(1) by (auto simp: fw_inv_def)
  have nd: "\<not> fw_done fw" using assms(2) by (auto simp: loopStep_def)
  show ?thesis
  proof (cases "fw_ch fw")
    case Nil
    then show ?thesis using assms nd by (auto simp: loopStep_def fw_inv_def split: if_splits)
  next
    case (Cons f rest)
    have acc: "acc = (taken @ [f]) @ rest" using t(1) Cons by simp
    show ?thesis
    proof (cases "fw_draining fw")
      case True
      then have "frameWriter_loop wr m w0 (taken @ [f]) = (fw_err fw, fw_w fw)"
        using t(2) inv(2) frameWriter_loop_stopped [of wr m w0 taken "[f]"] by simp
      then show ?thesis using True Cons assms(2) nd inv acc by (auto simp: loopStep_def fw_inv_def)
    next
      case False
      then have "frameWriter_loop wr m w0 (taken @ [f]) = WriteFrame wr (fw_w fw) f m"
        using t(2) inv(2) by (simp add: frameWriter_loop_snoc)
      then show ?thesis
        using False Cons assms(2) nd inv acc
        by (auto simp: loopStep_def fw_inv_def setErr_def split: prod.splits option.splits)
    qed
  qed
qed

lemma fw_inv_step: "fw_step wr st st' \<Longrightarrow> fw_inv wr m w0 st \<Longrightarrow> fw_inv wr m w0 st'"
proof (induction rule: fw_step.induct)
  case (sending cancelled f fw r fw' acc)
  from sending(1) show ?case
    by cases (use sending(2) in \<open>auto simp: fw_inv_def\<close>)
next
  case (looping fw fw' acc)
  then show ?case by (blast intro: fw_inv_loop)
next
  case (closing fw fw' acc)
  then show ?case by (auto simp: fw_inv_def closeChannel_def split: if_splits)
qed

lemma fw_inv_reachable: "(fw_step wr)\<^sup>*\<^sup>* st st' \<Longrightarrow> fw_inv wr m w0 st \<Longrightarrow> fw_inv wr m w0 st'"
  by (induction rule: rtranclp_induct) (auto intro: fw_inv_step)

section \<open>A sample run\<close>

definition demo_ping :: frame where
  "demo_ping = \<lparr>f_type = FramePing, f_payload = []\<rparr>"

text \<open>One frame is sent and the loop takes it, with the outcome of the write.\<close>

definition demo_fw :: "write_error option \<Rightarrow> byte list \<Rightarrow> byte list frame_writer" where
  "demo_fw e w = (newFrameWriter w 4096 2)\<lparr>fw_err := e, fw_draining := (e \<noteq> None)\<rparr>"

lemma demo_fw_run:
  assumes "WriteFrame wr [] demo_ping 4096 = (e, w)"
  shows "(fw_step wr)\<^sup>*\<^sup>* (newFrameWriter [] 4096 2, []) (demo_fw e w, [demo_ping])"
proof -
  let ?fw = "newFrameWriter [] 4096 2 :: byte list frame_writer"
  have "Send False demo_ping ?fw Sent (?fw\<lparr>fw_ch := [demo_ping]\<rparr>)"
    using Send.enqueue [of ?fw False demo_ping] by (simp add: newFrameWriter_def)
  from fw_step.sending [OF this, of wr "[]"] have 1: "fw_step wr (?fw, []) (?fw\<lparr>fw_ch := [demo_ping]\<rparr>, [demo_ping])" by simp
  have "loopStep wr (?fw\<lparr>fw_ch := [demo_ping]\<rparr>) = Some (demo_fw e w)"
    using assms by (cases e) (simp_all add: loopStep_def newFrameWriter_def demo_fw_def setErr_def)
  from 1 fw_step.looping [OF this] show ?thesis by (meson r_into_rtranclp rtranclp.rtrancl_into_rtrancl)
qed

section \<open>Properties\<close>

text \<open>C34: The concurrent writer refines the sequential one: whatever the interleaving of senders, loop and close, the frames that
  have left the channel are a prefix of the accepted ones and the connection holds exactly what writing them one after the
  other, up to the first error, produces; when \<open>Close\<close> returns that is all of them. The channel never exceeds its capacity.\<close>

theorem frame_writer_refines:
  assumes "(fw_step wr)\<^sup>*\<^sup>* (newFrameWriter w0 m buffer, []) (fw, acc)"
  shows "length (fw_ch fw) \<le> fw_cap fw
    \<and> (\<exists>taken. acc = taken @ fw_ch fw \<and> frameWriter_loop wr m w0 taken = (fw_err fw, fw_w fw))
    \<and> (fw_done fw \<longrightarrow> frameWriter_loop wr m w0 acc = (fw_err fw, fw_w fw))"
  using fw_inv_reachable [OF assms fw_inv_init] by (auto simp: fw_inv_def)

theorem frame_writer_refines_witness:
  "\<exists>w. frameWriter_loop bufferWrite 4096 [] [demo_ping] = (None, w) \<and> w = encodeFrame demo_ping"
proof -
  have "fits demo_ping 4096" by (simp add: fits_def demo_ping_def effectiveMaxFrame_def HardMaxFrameBytes_def)
  then have "WriteFrame bufferWrite [] demo_ping 4096 = (None, encodeFrame demo_ping)" by (simp add: WriteFrame_buffer)
  note run = demo_fw_run [OF this]
  let ?closed = "(demo_fw None (encodeFrame demo_ping))\<lparr>fw_closed := True\<rparr>"
  have "fw_step bufferWrite (demo_fw None (encodeFrame demo_ping), [demo_ping]) (?closed, [demo_ping])"
    by (rule fw_step.closing) (simp add: closeChannel_def demo_fw_def newFrameWriter_def)
  moreover have "fw_step bufferWrite (?closed, [demo_ping]) (?closed\<lparr>fw_done := True\<rparr>, [demo_ping])"
    by (rule fw_step.looping) (simp add: loopStep_def demo_fw_def newFrameWriter_def)
  ultimately have "(fw_step bufferWrite)\<^sup>*\<^sup>* (newFrameWriter [] 4096 2, []) (?closed\<lparr>fw_done := True\<rparr>, [demo_ping])"
    using run by (meson rtranclp.rtrancl_into_rtrancl)
  from frame_writer_refines [OF this] show ?thesis by (simp add: demo_fw_def newFrameWriter_def)
qed

text \<open>A write error is not reported to senders: as long as \<open>Close\<close> has not been called, \<open>Send\<close> never returns the writer's error;
  after a failed write it goes on accepting frames, which are dropped.\<close>

theorem send_hides_write_errors:
  assumes "(fw_step wr)\<^sup>*\<^sup>* (newFrameWriter w0 m buffer, []) (fw, acc)" and "\<not> fw_closed fw" and "Send cancelled f fw r fw'"
  shows "r = Sent \<or> r = Cancelled \<and> cancelled"
  using fw_inv_reachable [OF assms(1) fw_inv_init] assms(2,3) by (auto simp: fw_inv_def elim: SendE)

theorem send_hides_write_errors_witness:
  "\<exists>fw. fw_err fw = Some (WErrIO ''broken pipe'') \<and> Send False demo_ping fw Sent (fw\<lparr>fw_ch := fw_ch fw @ [demo_ping]\<rparr>)
     \<and> \<not> (\<exists>e fw'. Send False demo_ping (fw :: byte list frame_writer) (Failed e) fw')"
proof -
  let ?wr = "\<lambda>w bs. (Some ''broken pipe'', w)" and ?fw = "demo_fw (Some (WErrIO ''broken pipe'')) []"
  have "WriteFrame ?wr [] demo_ping 4096 = (Some (WErrIO ''broken pipe''), [])"
    by (simp add: WriteFrame_def demo_ping_def effectiveMaxFrame_def HardMaxFrameBytes_def)
  note run = demo_fw_run [OF this]
  have "\<not> fw_closed ?fw" "fw_err ?fw = Some (WErrIO ''broken pipe'')" "length (fw_ch ?fw) < fw_cap ?fw"
    by (simp_all add: demo_fw_def newFrameWriter_def)
  then show ?thesis
    using send_hides_write_errors [OF run] Send.enqueue [of ?fw False demo_ping] by blast
qed

end
