(* ===== verification/Migration.thy ===== *)
theory Migration
  imports Schema
begin

text \<open>
  \<^verbatim>\<open>internal/store/db.go\<close> and the statements of \<^verbatim>\<open>schema.go\<close>: opening and migrating the database file. What the
  statements act on is the catalogue of the file: its tables with their column names, and its index names. SQLite refuses
  an index on a table or a column that is not there, and a second column of one name; \<^verbatim>\<open>IF NOT EXISTS\<close> makes the
  creation of a table or index that exists do nothing. A column can only be added as \<^verbatim>\<open>NOT NULL\<close> with a default value; the other
  column types and constraints decide nothing here (keys are in theory Schema). Statements of one script run one by one, and those before a failing
  one stay executed. The fault parameter counts the statements of \<open>Open\<close> from 0, the call of \<^verbatim>\<open>sql.Open\<close>.
\<close>

section \<open>Definitions\<close>

text \<open>\<open>AddColumn\<close> has the table, the column, whether it is \<^verbatim>\<open>NOT NULL\<close>, and its default.\<close>

record catalogue =
  ct_tables :: "(string \<times> string list) list"
  ct_indexes :: "string list"

datatype ddl =
  CreateTable string "string list"
| CreateIndex string string "string list"
| AddColumn string string bool "string option"

subsection \<open>schema.go: the scripts\<close>

text \<open>The columns of an index include those of its \<^verbatim>\<open>WHERE\<close> clause.\<close>

definition SchemaScript :: "ddl list" where
  "SchemaScript =
     [CreateTable ''assets'' [''id'', ''server'', ''bundle_path'', ''path'', ''version'', ''fingerprint'', ''sha256'', ''size'', ''is_override'',
        ''storage_key'', ''created_at''],
      CreateIndex ''idx_assets_path_fp'' ''assets'' [''path'', ''fingerprint''],
      CreateIndex ''idx_assets_bundle_fp'' ''assets'' [''bundle_path'', ''fingerprint''],
      CreateIndex ''idx_assets_sha'' ''assets'' [''sha256''],
      CreateIndex ''idx_assets_current'' ''assets'' [''server'', ''path''],
      CreateIndex ''idx_assets_server_version'' ''assets'' [''server'', ''version'', ''path''],
      CreateTable ''current_assets'' [''server'', ''bundle_path'', ''path'', ''version'', ''fingerprint'', ''sha256'', ''size'', ''is_override'',
        ''storage_key'', ''updated_at''],
      CreateIndex ''idx_current_assets_path'' ''current_assets'' [''path''],
      CreateIndex ''idx_current_assets_override_path'' ''current_assets'' [''server'', ''path'', ''is_override''],
      CreateTable ''current_shared_assets'' [''path'', ''bundle_path'', ''version'', ''fingerprint'', ''sha256'', ''size'', ''storage_key'', ''updated_at''],
      CreateTable ''current_shared_bundles'' [''bundle_path'', ''fingerprint'', ''file_count'', ''total_size'', ''updated_at''],
      CreateTable ''current_override_bundles'' [''server'', ''bundle_path'', ''fingerprint'', ''file_count'', ''total_size'', ''updated_at''],
      CreateTable ''read_index_meta'' [''key'', ''value''],
      CreateTable ''versions'' [''id'', ''server'', ''app_version'', ''asset_version'', ''asset_hash'', ''bundle_count'', ''committed_at'', ''stats_json''],
      CreateTable ''bundle_completions'' [''id'', ''version_id'', ''server'', ''asset_version'', ''asset_hash'', ''bundle_path'', ''fingerprint'',
        ''source'', ''completed_at''],
      CreateIndex ''idx_bundle_completions_lookup'' ''bundle_completions'' [''server'', ''bundle_path'', ''fingerprint''],
      CreateIndex ''idx_bundle_completions_bundle_fp'' ''bundle_completions'' [''bundle_path'', ''fingerprint''],
      CreateIndex ''idx_bundle_completions_version'' ''bundle_completions'' [''version_id'']]"

definition SchemaPostMigrate :: "ddl list" where
  "SchemaPostMigrate =
     [CreateIndex ''idx_current_assets_bundle'' ''current_assets'' [''server'', ''is_override'', ''bundle_path''],
      CreateIndex ''idx_current_shared_assets_bundle'' ''current_shared_assets'' [''bundle_path'']]"

subsection \<open>SQLite\<close>

definition runDdl :: "ddl \<Rightarrow> catalogue \<Rightarrow> catalogue result" where
  "runDdl stmt s =
     (case stmt of
        CreateTable t cols \<Rightarrow>
          (case mapGet t (ct_tables s) of Some _ \<Rightarrow> Inr s | None \<Rightarrow> Inr (s\<lparr>ct_tables := mapSet t cols (ct_tables s)\<rparr>))
      | CreateIndex n t cols \<Rightarrow>
          (case mapGet t (ct_tables s) of
             None \<Rightarrow> Inl (''no such table: main.'' @ t)
           | Some have \<Rightarrow>
               if n \<in> set (ct_indexes s) then Inr s
               else if set cols \<subseteq> set have then Inr (s\<lparr>ct_indexes := ct_indexes s @ [n]\<rparr>)
               else Inl (''no such column in table '' @ t))
      | AddColumn t c notNull dflt \<Rightarrow>
          (case mapGet t (ct_tables s) of
             None \<Rightarrow> Inl (''no such table: '' @ t)
           | Some have \<Rightarrow>
               if c \<in> set have then Inl (''duplicate column name: '' @ c)
               else if notNull \<and> dflt = None then Inl ''Cannot add a NOT NULL column with default value NULL''
               else Inr (s\<lparr>ct_tables := mapSet t (have @ [c]) (ct_tables s)\<rparr>)))"

text \<open>\<^verbatim>\<open>ExecContext\<close> of a script: the first error, and the catalogue it leaves.\<close>

fun runScript :: "sqlfault \<Rightarrow> ddl list \<Rightarrow> catalogue \<Rightarrow> string option \<times> catalogue" where
  "runScript f [] s = (None, s)"
| "runScript f (stmt # rest) s =
     (case bindR (exec (f 0) ()) (\<lambda>_. runDdl stmt s) of
        Inl e \<Rightarrow> (Some e, s)
      | Inr s' \<Rightarrow> runScript (\<lambda>i. f (Suc i)) rest s')"

subsection \<open>db.go\<close>

definition ensureColumn :: "sqlfault \<Rightarrow> string \<Rightarrow> string \<Rightarrow> ddl \<Rightarrow> catalogue \<Rightarrow> string option \<times> catalogue" where
  "ensureColumn f table column stmt s =
     (let n = (case mapGet table (ct_tables s) of None \<Rightarrow> 0 | Some have \<Rightarrow> length (filter (\<lambda>c. c = column) have))
      in case exec (f 0) n of
           Inl e \<Rightarrow> (Some e, s)
         | Inr n \<Rightarrow> if 0 < n then (None, s) else runScript (\<lambda>i. f (Suc i)) [stmt] s)"

definition migrations :: "(string \<times> string) list" where
  "migrations = [(''current_assets'', ''bundle_path''), (''current_shared_assets'', ''bundle_path'')]"

fun migrateColumns :: "sqlfault \<Rightarrow> (string \<times> string) list \<Rightarrow> catalogue \<Rightarrow> string option \<times> catalogue" where
  "migrateColumns f [] s = (None, s)"
| "migrateColumns f ((table, column) # ms) s =
     (case ensureColumn f table column (AddColumn table column True (Some [])) s of
        (Some e, s') \<Rightarrow> (Some (''migrate '' @ table @ ''.'' @ column @ '': '' @ e), s')
      | (None, s') \<Rightarrow> migrateColumns (\<lambda>i. f (i + 2)) ms s')"

text \<open>The data source name, and the counter \<^verbatim>\<open>memDBSeq\<close>.\<close>

definition dsnOf :: "string \<Rightarrow> u64 \<Rightarrow> string \<times> u64" where
  "dsnOf path seq =
     (if path = '':memory:''
      then (''file:memdb'' @ formatNat (unat (seq + 1)) @ ''?mode=memory&cache=shared&_busy_timeout=5000&_foreign_keys=on'', seq + 1)
      else (''file:'' @ path @ ''?_busy_timeout=5000&_journal_mode=WAL&_synchronous=NORMAL&_foreign_keys=on'', seq))"

text \<open>The handle, or the error; and the catalogue of the file the data source name denotes.\<close>

definition Open :: "sqlfault \<Rightarrow> string \<Rightarrow> u64 \<Rightarrow> catalogue \<Rightarrow> string result \<times> catalogue" where
  "Open f path seq s =
     (let dsn = fst (dsnOf path seq)
      in case f 0 of
           Some e \<Rightarrow> (Inl (''open sqlite: '' @ e), s)
         | None \<Rightarrow>
             (case runScript (\<lambda>i. f (i + 1)) SchemaScript s of
                (Some e, s) \<Rightarrow> (Inl (''migrate: '' @ e), s)
              | (None, s) \<Rightarrow>
                  (case migrateColumns (\<lambda>i. f (i + 19)) migrations s of
                     (Some e, s) \<Rightarrow> (Inl e, s)
                   | (None, s) \<Rightarrow>
                       (case runScript (\<lambda>i. f (i + 23)) SchemaPostMigrate s of
                          (Some e, s) \<Rightarrow> (Inl (''migrate indexes: '' @ e), s)
                        | (None, s) \<Rightarrow> (Inr dsn, s)))))"

section \<open>Scripts as typed programs\<close>

text \<open>An environment lists the columns every table is known to have. \<open>pre\<close> gives the columns a table that existed before
  the script is known to have.\<close>

definition provides :: "catalogue \<Rightarrow> string \<Rightarrow> string list \<Rightarrow> bool" where
  "provides s t cs \<longleftrightarrow> (\<exists>have. mapGet t (ct_tables s) = Some have \<and> set cs \<subseteq> set have)"

definition env_ok :: "(string \<times> string list) list \<Rightarrow> catalogue \<Rightarrow> bool" where
  "env_ok G s \<longleftrightarrow> (\<forall>(t, cs) \<in> set G. provides s t cs)"

fun typed :: "(string \<Rightarrow> string list \<Rightarrow> string list) \<Rightarrow> (string \<times> string list) list \<Rightarrow> ddl list \<Rightarrow> (string \<times> string list) list option" where
  "typed pre G [] = Some G"
| "typed pre G (CreateTable t cols # rest) = (if list_ex (\<lambda>(t', _). t' = t) G then None else typed pre ((t, pre t cols) # G) rest)"
| "typed pre G (CreateIndex n t cols # rest) =
     (if \<exists>(t', cs) \<in> set G. t' = t \<and> set cols \<subseteq> set cs then typed pre G rest else None)"
| "typed pre G (AddColumn t c notNull dflt # rest) = None"

text \<open>The columns of a database written before the bundle browser: the two current tables have no \<^verbatim>\<open>bundle_path\<close>.\<close>

definition legacyColumns :: "string \<Rightarrow> string list \<Rightarrow> string list" where
  "legacyColumns t cols = filter (\<lambda>c. \<not> (c = ''bundle_path'' \<and> (t = ''current_assets'' \<or> t = ''current_shared_assets''))) cols"

definition upgradable :: "catalogue \<Rightarrow> bool" where
  "upgradable s \<longleftrightarrow> (\<forall>t cols. CreateTable t cols \<in> set SchemaScript \<longrightarrow> mapGet t (ct_tables s) = None \<or> provides s t (legacyColumns t cols))"

lemma provides_code [code]: "provides s t cs = (case mapGet t (ct_tables s) of None \<Rightarrow> False | Some have \<Rightarrow> set cs \<subseteq> set have)"
  by (simp add: provides_def split: option.splits)

lemma upgradable_code [code]:
  "upgradable s = list_all (\<lambda>stmt. case stmt of
       CreateTable t cols \<Rightarrow> (case mapGet t (ct_tables s) of None \<Rightarrow> True | Some have \<Rightarrow> set (legacyColumns t cols) \<subseteq> set have)
     | _ \<Rightarrow> True) SchemaScript"
  by (fastforce simp: upgradable_def provides_def list_all_iff split: ddl.splits option.splits)

definition current :: "catalogue \<Rightarrow> bool" where
  "current s \<longleftrightarrow> (\<forall>t cols. CreateTable t cols \<in> set SchemaScript \<longrightarrow> provides s t cols)"

lemma provides_ddl: "runDdl stmt s = Inr s' \<Longrightarrow> provides s t cs \<Longrightarrow> provides s' t cs"
  by (cases stmt) (fastforce simp: runDdl_def provides_def mapGet_mapSet split: option.splits if_splits)+

lemma env_ok_ddl: "runDdl stmt s = Inr s' \<Longrightarrow> env_ok G s \<Longrightarrow> env_ok G s'"
  by (auto simp: env_ok_def intro: provides_ddl)

lemma provides_weaken: "provides s t cs \<Longrightarrow> set cs' \<subseteq> set cs \<Longrightarrow> provides s t cs'"
  by (auto simp: provides_def)

lemma runDdl_old: "runDdl (CreateTable t' cols) s = Inr s' \<Longrightarrow> t \<noteq> t' \<Longrightarrow> mapGet t (ct_tables s') = mapGet t (ct_tables s)"
  by (auto simp: runDdl_def mapGet_mapSet split: option.splits)

text \<open>What the statements ahead need of the tables that no statement has created yet.\<close>

definition pre_ok :: "(string \<Rightarrow> string list \<Rightarrow> string list) \<Rightarrow> (string \<times> string list) list \<Rightarrow> ddl list \<Rightarrow> catalogue \<Rightarrow> bool" where
  "pre_ok pre G ss s \<longleftrightarrow> (\<forall>t cols. CreateTable t cols \<in> set ss \<longrightarrow> t \<notin> fst ` set G
     \<longrightarrow> set (pre t cols) \<subseteq> set cols \<and> (mapGet t (ct_tables s) = None \<or> provides s t (pre t cols)))"

lemma pre_ok_create:
  assumes "pre_ok pre G (CreateTable t cols # rest) s" and "runDdl (CreateTable t cols) s = Inr s'"
  shows "pre_ok pre ((t, cs) # G) rest s'"
  unfolding pre_ok_def
proof (intro allI impI)
  fix u us
  assume u: "CreateTable u us \<in> set rest" "u \<notin> fst ` set ((t, cs) # G)"
  then have "set (pre u us) \<subseteq> set us \<and> (mapGet u (ct_tables s) = None \<or> provides s u (pre u us))"
    using assms(1) by (simp add: pre_ok_def)
  then show "set (pre u us) \<subseteq> set us \<and> (mapGet u (ct_tables s') = None \<or> provides s' u (pre u us))"
    using u(2) runDdl_old [OF assms(2)] provides_ddl [OF assms(2)] by auto
qed

lemma pre_ok_index:
  assumes "pre_ok pre G (CreateIndex n t cols # rest) s" and "runDdl (CreateIndex n t cols) s = Inr s'"
  shows "pre_ok pre G rest s'"
proof -
  have "ct_tables s' = ct_tables s" using assms(2) by (auto simp: runDdl_def split: option.splits if_splits)
  then show ?thesis using assms(1) by (simp add: pre_ok_def provides_def)
qed

text \<open>A typed script runs, and the environment holds afterwards.\<close>

lemma typed_runs:
  assumes "typed pre G ss = Some G'" and "env_ok G s" and "pre_ok pre G ss s"
  shows "\<exists>s'. runScript no_fault ss s = (None, s') \<and> env_ok G' s' \<and> (\<forall>t cs. provides s t cs \<longrightarrow> provides s' t cs)"
  using assms
proof (induction pre G ss arbitrary: s rule: typed.induct)
  case (1 pre G)
  then show ?case by simp
next
  case (2 pre G t cols rest)
  have fresh: "t \<notin> fst ` set G" "\<not> list_ex (\<lambda>(t', _). t' = t) G" and rest: "typed pre ((t, pre t cols) # G) rest = Some G'"
    using "2.prems"(1) by (auto simp: list_ex_iff split: if_splits)
  have "set (pre t cols) \<subseteq> set cols \<and> (mapGet t (ct_tables s) = None \<or> provides s t (pre t cols))"
    using "2.prems"(3) fresh(1) by (simp add: pre_ok_def)
  then obtain s' where s': "runDdl (CreateTable t cols) s = Inr s'" "provides s' t (pre t cols)"
    by (auto simp: runDdl_def provides_def mapGet_mapSet)
  have "env_ok ((t, pre t cols) # G) s'" using env_ok_ddl [OF s'(1) "2.prems"(2)] s'(2) by (simp add: env_ok_def)
  from "2.IH" [OF fresh(2) rest this pre_ok_create [OF "2.prems"(3) s'(1)]] show ?case
    using provides_ddl [OF s'(1)] s'(1) by auto
next
  case (3 pre G n t cols rest)
  have ex: "\<exists>(t', cs) \<in> set G. t' = t \<and> set cols \<subseteq> set cs" and rest: "typed pre G rest = Some G'"
    using "3.prems"(1) by (auto split: if_splits)
  then have "provides s t cols" using "3.prems"(2) by (fastforce simp: env_ok_def provides_def)
  then obtain s' where s': "runDdl (CreateIndex n t cols) s = Inr s'" by (cases "n \<in> set (ct_indexes s)") (auto simp: runDdl_def provides_def)
  from "3.IH" [OF ex rest env_ok_ddl [OF s' "3.prems"(2)] pre_ok_index [OF "3.prems"(3) s']] show ?case
    using provides_ddl [OF s'] s' by auto
qed simp

section \<open>The migration\<close>

lemma ensureColumn_runs:
  assumes "provides s t cs"
  shows "\<exists>s'. ensureColumn no_fault t c (AddColumn t c True (Some [])) s = (None, s') \<and> provides s' t (c # cs) \<and> (\<forall>u us. provides s u us \<longrightarrow> provides s' u us)"
proof -
  obtain hs where h: "mapGet t (ct_tables s) = Some hs" "set cs \<subseteq> set hs" using assms by (auto simp: provides_def)
  show ?thesis
  proof (cases "c \<in> set hs")
    case True
    then have "filter (\<lambda>x. x = c) hs \<noteq> []" by (auto simp: filter_empty_conv)
    then show ?thesis using h True by (auto simp: ensureColumn_def provides_def)
  next
    case False
    then have no: "filter (\<lambda>x. x = c) hs = []" by (auto simp: filter_empty_conv)
    let ?s = "s\<lparr>ct_tables := mapSet t (hs @ [c]) (ct_tables s)\<rparr>"
    have run: "runDdl (AddColumn t c True (Some [])) s = Inr ?s" using h False by (simp add: runDdl_def)
    then have "ensureColumn no_fault t c (AddColumn t c True (Some [])) s = (None, ?s)" using h no by (simp add: ensureColumn_def)
    then show ?thesis using provides_ddl [OF run] h by (auto simp: provides_def mapGet_mapSet)
  qed
qed

lemma migrateColumns_runs:
  assumes "\<And>t c. (t, c) \<in> set ms \<Longrightarrow> \<exists>cs. provides s t cs"
  shows "\<exists>s'. migrateColumns no_fault ms s = (None, s') \<and> (\<forall>u us. provides s u us \<longrightarrow> provides s' u us)
    \<and> (\<forall>(t, c) \<in> set ms. provides s' t [c])"
  using assms
proof (induction ms arbitrary: s)
  case Nil
  then show ?case by simp
next
  case (Cons m ms)
  obtain t c where m: "m = (t, c)" by (cases m)
  obtain cs where "provides s t cs" using Cons.prems [of t c] m by auto
  from ensureColumn_runs [OF this, of c] obtain s1 where
    s1: "ensureColumn no_fault t c (AddColumn t c True (Some [])) s = (None, s1)" "provides s1 t (c # cs)" "\<And>u us. provides s u us \<Longrightarrow> provides s1 u us"
    by blast
  have "\<exists>cs. provides s1 u cs" if "(u, d) \<in> set ms" for u d using Cons.prems [of u d] that s1(3) m by fastforce
  then obtain s2 where
    s2: "migrateColumns no_fault ms s1 = (None, s2)" "\<And>u us. provides s1 u us \<Longrightarrow> provides s2 u us" "\<forall>(t, c) \<in> set ms. provides s2 t [c]"
    using Cons.IH [of s1] by blast
  have "provides s2 t [c]" using s2(2) [OF s1(2)] by (rule provides_weaken) simp
  then show ?case using s1 s2 m by auto
qed

lemma typed_env: "typed pre G ss = Some G' \<Longrightarrow> set G \<subseteq> set G'"
  by (induction pre G ss rule: typed.induct) (auto split: if_splits)

lemma typed_created: "typed pre G ss = Some G' \<Longrightarrow> CreateTable t cols \<in> set ss \<Longrightarrow> (t, pre t cols) \<in> set G'"
  by (induction pre G ss rule: typed.induct) (auto split: if_splits dest: typed_env)

lemma SchemaScript_typed: "typed legacyColumns [] SchemaScript \<noteq> None"
  by code_simp

text \<open>The tables of the later scripts with the columns they need, as the schema has them.\<close>

definition migratedEnv :: "(string \<times> string list) list" where
  "migratedEnv = [(''current_assets'', [''server'', ''is_override'', ''bundle_path'']), (''current_shared_assets'', [''bundle_path''])]"

lemma SchemaPostMigrate_typed: "typed pre migratedEnv SchemaPostMigrate = Some migratedEnv"
  by (simp add: SchemaPostMigrate_def migratedEnv_def)

lemma schema_tables:
  "\<exists>cols. CreateTable ''current_assets'' cols \<in> set SchemaScript \<and> {''server'', ''is_override'', ''bundle_path''} \<subseteq> set cols"
  "\<exists>cols. CreateTable ''current_shared_assets'' cols \<in> set SchemaScript \<and> {''bundle_path''} \<subseteq> set cols"
  by (simp_all add: SchemaScript_def conj_disj_distribR ex_disj_distrib)

lemma current_migratedEnv:
  assumes "current s"
  shows "env_ok migratedEnv s"
proof -
  have "provides s t cs" if "\<exists>cols. CreateTable t cols \<in> set SchemaScript \<and> set cs \<subseteq> set cols" for t cs
    using that assms provides_weaken unfolding current_def by blast
  then show ?thesis using schema_tables by (simp add: env_ok_def migratedEnv_def)
qed

lemma provides_append: "provides s t a \<Longrightarrow> provides s t b \<Longrightarrow> provides s t (a @ b)"
  by (auto simp: provides_def)

lemma migrated_current:
  assumes legacy: "\<And>t cols. CreateTable t cols \<in> set SchemaScript \<Longrightarrow> provides s t (legacyColumns t cols)"
    and added: "\<forall>(t, c) \<in> set migrations. provides s t [c]"
  shows "current s"
  unfolding current_def
proof (intro allI impI)
  fix t cols
  assume c: "CreateTable t cols \<in> set SchemaScript"
  have "\<exists>hs. mapGet t (ct_tables s) = Some hs \<and> set (legacyColumns t cols) \<subseteq> set hs" using legacy [OF c] by (simp add: provides_def)
  then obtain hs where h: "mapGet t (ct_tables s) = Some hs" "set (legacyColumns t cols) \<subseteq> set hs" by blast
  have "x \<in> set hs" if "x \<in> set cols" for x
  proof (cases "(t, x) \<in> set migrations")
    case True
    then show ?thesis using added h(1) by (fastforce simp: provides_def)
  next
    case False
    then show ?thesis using that h(2) by (auto simp: legacyColumns_def migrations_def)
  qed
  then show "provides s t cols" using h(1) by (auto simp: provides_def)
qed

text \<open>A statement that has run has nothing left to do, also after others.\<close>

definition settled :: "catalogue \<Rightarrow> ddl list \<Rightarrow> bool" where
  "settled s ss \<longleftrightarrow> (\<forall>stmt \<in> set ss. runDdl stmt s = Inr s)"

fun creates :: "ddl \<Rightarrow> bool" where
  "creates (AddColumn _ _ _ _) = False"
| "creates _ = True"

lemma runDdl_twice: "creates stmt \<Longrightarrow> runDdl stmt s = Inr s' \<Longrightarrow> runDdl stmt s' = Inr s'"
  by (cases stmt) (auto simp: runDdl_def mapGet_mapSet split: option.splits if_splits)

lemma runDdl_after: "runDdl stmt s = Inr s \<Longrightarrow> creates stmt \<Longrightarrow> runDdl other s = Inr s' \<Longrightarrow> runDdl stmt s' = Inr s'"
proof (cases stmt)
  case (CreateTable t cols)
  assume "runDdl stmt s = Inr s" and other: "runDdl other s = Inr s'"
  then have same: "mapSet t cols (ct_tables s) = ct_tables s" if "mapGet t (ct_tables s) = None"
    using CreateTable that by (auto simp: runDdl_def dest!: arg_cong [where f = ct_tables])
  have "mapGet t (ct_tables s) \<noteq> None" using arg_cong [OF same, of "mapGet t"] by auto
  then have "provides s t []" by (auto simp: provides_def)
  then show ?thesis using provides_ddl [OF other] CreateTable by (fastforce simp: runDdl_def provides_def)
next
  case (CreateIndex n t cols)
  assume "runDdl stmt s = Inr s" and other: "runDdl other s = Inr s'"
  then have "provides s t []" "n \<in> set (ct_indexes s)"
    using CreateIndex by (auto simp: runDdl_def provides_def split: option.splits if_splits dest!: arg_cong [where f = ct_indexes])
  moreover from this(2) have "n \<in> set (ct_indexes s')" using other by (cases other) (auto simp: runDdl_def split: option.splits if_splits)
  ultimately show ?thesis using provides_ddl [OF other] CreateIndex by (fastforce simp: runDdl_def provides_def)
qed simp

lemma runScript_settled: "settled s ss \<Longrightarrow> runScript no_fault ss s = (None, s)"
  by (induction ss) (auto simp: settled_def)

lemma settled_after:
  "runScript no_fault others s = (None, s') \<Longrightarrow> settled s ss \<Longrightarrow> list_all creates ss \<Longrightarrow> settled s' ss"
proof (induction others arbitrary: s)
  case Nil
  then show ?case by simp
next
  case (Cons other others)
  then obtain s1 where s1: "runDdl other s = Inr s1" "runScript no_fault others s1 = (None, s')"
    by (auto split: sum.splits)
  have "settled s1 ss" using Cons.prems(2,3) runDdl_after [OF _ _ s1(1)] by (simp add: settled_def list_all_iff)
  then show ?case using Cons.IH [OF s1(2)] Cons.prems(3) by blast
qed

lemma runScript_settles: "runScript no_fault ss s = (None, s') \<Longrightarrow> list_all creates ss \<Longrightarrow> settled s' ss"
proof (induction ss arbitrary: s)
  case Nil
  then show ?case by (simp add: settled_def)
next
  case (Cons stmt ss)
  then obtain s1 where s1: "runDdl stmt s = Inr s1" "runScript no_fault ss s1 = (None, s')" by (auto split: sum.splits)
  then have "settled s1 [stmt]" using Cons.prems(2) runDdl_twice by (simp add: settled_def)
  then have "settled s' [stmt]" using settled_after [OF s1(2)] Cons.prems(2) by simp
  then show ?case using Cons.IH [OF s1(2)] Cons.prems(2) by (simp add: settled_def)
qed

lemma scripts_create: "list_all creates SchemaScript" "list_all creates SchemaPostMigrate"
  by (simp_all add: SchemaScript_def SchemaPostMigrate_def)

lemma ensureColumn_present: "provides s t [c] \<Longrightarrow> ensureColumn no_fault t c stmt s = (None, s)"
  by (fastforce simp: ensureColumn_def provides_def filter_empty_conv)

lemma migrateColumns_present: "\<forall>(t, c) \<in> set ms. provides s t [c] \<Longrightarrow> migrateColumns no_fault ms s = (None, s)"
  by (induction ms) (auto simp: ensureColumn_present)

lemma Open_again:
  assumes "settled s SchemaScript" and "settled s SchemaPostMigrate" and "\<forall>(t, c) \<in> set migrations. provides s t [c]"
  shows "Open no_fault path seq s = (Inr (fst (dsnOf path seq)), s)"
  using assms by (simp add: Open_def runScript_settled migrateColumns_present)

text \<open>\<open>migrateColumns\<close> leaves the statements of the schema without work.\<close>

lemma settled_migrate:
  "migrateColumns no_fault ms s = (None, s') \<Longrightarrow> settled s ss \<Longrightarrow> list_all creates ss \<Longrightarrow> settled s' ss"
proof (induction ms arbitrary: s)
  case Nil
  then show ?case by simp
next
  case (Cons m ms)
  obtain t c where m: "m = (t, c)" by (cases m)
  with Cons.prems(1) obtain s1 where
    s1: "ensureColumn no_fault t c (AddColumn t c True (Some [])) s = (None, s1)" "migrateColumns no_fault ms s1 = (None, s')"
    by (auto split: prod.splits option.splits)
  have "s1 = s \<or> runScript no_fault [AddColumn t c True (Some [])] s = (None, s1)"
    using s1(1) by (auto simp: ensureColumn_def Let_def split: if_splits)
  then have "settled s1 ss" using settled_after Cons.prems(2,3) by blast
  then show ?case using Cons.IH [OF s1(2)] Cons.prems(3) by blast
qed

lemma schema_has_migrated: "(t, c) \<in> set migrations \<Longrightarrow> \<exists>cols. CreateTable t cols \<in> set SchemaScript"
  using schema_tables by (auto simp: migrations_def)

lemma Open_facts:
  assumes "upgradable s"
  shows "\<exists>s'. Open no_fault path seq s = (Inr (fst (dsnOf path seq)), s') \<and> current s'
    \<and> (\<forall>t cs. provides s t cs \<longrightarrow> provides s' t cs) \<and> settled s' SchemaScript \<and> settled s' SchemaPostMigrate"
proof -
  obtain G where G: "typed legacyColumns [] SchemaScript = Some G" using SchemaScript_typed by blast
  have "pre_ok legacyColumns [] SchemaScript s" using assms by (auto simp: pre_ok_def upgradable_def legacyColumns_def)
  from typed_runs [OF G _ this] obtain s1 where
    s1: "runScript no_fault SchemaScript s = (None, s1)" "env_ok G s1" "\<And>t cs. provides s t cs \<Longrightarrow> provides s1 t cs"
    by (auto simp: env_ok_def)
  have tables: "provides s1 t (legacyColumns t cols)" if "CreateTable t cols \<in> set SchemaScript" for t cols
    using typed_created [OF G that] s1(2) by (auto simp: env_ok_def)
  then have "\<exists>cs. provides s1 t cs" if "(t, c) \<in> set migrations" for t c using schema_has_migrated [OF that] by blast
  then obtain s2 where s2: "migrateColumns no_fault migrations s1 = (None, s2)" "\<And>t cs. provides s1 t cs \<Longrightarrow> provides s2 t cs"
      "\<forall>(t, c) \<in> set migrations. provides s2 t [c]"
    using migrateColumns_runs [of migrations s1] by blast
  have cur: "current s2" using s2(2) [OF tables] s2(3) by (rule migrated_current)
  have "pre_ok legacyColumns migratedEnv SchemaPostMigrate s2" by (simp add: pre_ok_def SchemaPostMigrate_def)
  from typed_runs [OF SchemaPostMigrate_typed current_migratedEnv [OF cur] this] obtain s3 where
    s3: "runScript no_fault SchemaPostMigrate s2 = (None, s3)" "\<And>t cs. provides s2 t cs \<Longrightarrow> provides s3 t cs"
    by blast
  have "Open no_fault path seq s = (Inr (fst (dsnOf path seq)), s3)" using s1(1) s2(1) s3(1) by (simp add: Open_def)
  moreover have "current s3" using cur s3(2) by (simp add: current_def)
  moreover have "settled s3 SchemaScript"
    using runScript_settles [OF s1(1)] settled_migrate [OF s2(1)] settled_after [OF s3(1)] scripts_create by blast
  moreover have "settled s3 SchemaPostMigrate" using runScript_settles [OF s3(1)] scripts_create by blast
  ultimately show ?thesis using s1(3) s2(2) s3(2) by blast
qed

section \<open>Properties\<close>

text \<open>C35: Opening a database file that is new, current or from before the bundle browser succeeds, gives every table all its
  columns, keeps every column there was, and opening the file again changes nothing.\<close>

theorem Open_migrates:
  assumes "upgradable s"
  shows "\<exists>s'. Open no_fault path seq s = (Inr (fst (dsnOf path seq)), s') \<and> current s' \<and> (\<forall>t cs. provides s t cs \<longrightarrow> provides s' t cs)
    \<and> Open no_fault path seq' s' = (Inr (fst (dsnOf path seq')), s')"
proof -
  from Open_facts [OF assms, of path seq] obtain s' where
    s': "Open no_fault path seq s = (Inr (fst (dsnOf path seq)), s')" "current s'" "\<forall>t cs. provides s t cs \<longrightarrow> provides s' t cs"
      "settled s' SchemaScript" "settled s' SchemaPostMigrate"
    by blast
  have "provides s' t [c]" if "(t, c) \<in> set migrations" for t c
    using current_migratedEnv [OF s'(2)] that by (auto simp: migrations_def env_ok_def migratedEnv_def intro: provides_weaken)
  then show ?thesis using s' Open_again [OF s'(4,5)] by blast
qed

definition legacy_catalogue :: catalogue where
  "legacy_catalogue = \<lparr>ct_tables = [(''current_shared_assets'', [''path'', ''version'', ''fingerprint'', ''sha256'', ''size'', ''storage_key'', ''updated_at'']),
     (''read_index_meta'', [''key'', ''value''])], ct_indexes = []\<rparr>"

theorem Open_migrates_witness:
  "upgradable legacy_catalogue \<and> \<not> provides legacy_catalogue ''current_shared_assets'' [''bundle_path'']
    \<and> (\<exists>s'. Open no_fault ''/data/gateway.db'' 0 legacy_catalogue = (Inr (fst (dsnOf ''/data/gateway.db'' 0)), s') \<and> current s')"
proof -
  have "upgradable legacy_catalogue" by code_simp
  moreover have "\<not> provides legacy_catalogue ''current_shared_assets'' [''bundle_path'']"
    by code_simp
  ultimately show ?thesis using Open_migrates by blast
qed

end
