(* ===== verification/EnvConfig.thy ===== *)
theory EnvConfig
  imports Http
begin

text \<open>
  \<^verbatim>\<open>internal/config/config.go\<close>: reading the environment. An unset variable reads as the empty string. Floating-point numbers
  stay abstract: \<open>fl_parse\<close> is \<^verbatim>\<open>strconv.ParseFloat\<close>, \<open>fl_200\<close> the default rate and \<open>fl_nonpos\<close> the test of the rate limiter.
\<close>

section \<open>Definitions\<close>

record 'f float_ops =
  fl_parse :: "string \<Rightarrow> 'f option"
  fl_200 :: 'f
  fl_nonpos :: "'f \<Rightarrow> bool"

record 'f gw_config =
  gc_HTTPAddr :: string
  gc_HIPAddr :: string
  gc_HIPTLSCert :: string
  gc_HIPTLSKey :: string
  gc_HIPBearerToken :: string
  gc_MaxFrameBytes :: u64
  gc_MaxInFlightUploads :: u32
  gc_SeaweedFilerBaseURL :: string
  gc_SQLitePath :: string
  gc_HTTPRateLimitRPS :: 'f
  gc_HTTPRateLimitBurst :: int
  gc_LookupCacheItems :: int
  gc_LookupCacheTTL :: int
  gc_AllowedServers :: "(string \<times> unit) list"
  gc_LogLevel :: string

datatype env_error = NotUint string | NotFloat string | TokenRequired | ServersRequired | FrameTooSmall

type_synonym environ = "string \<Rightarrow> string"

definition envDefault :: "environ \<Rightarrow> string \<Rightarrow> string \<Rightarrow> string" where
  "envDefault env k def = (if env k \<noteq> [] then env k else def)"

definition envUint64 :: "environ \<Rightarrow> string \<Rightarrow> u64 \<Rightarrow> env_error + u64" where
  "envUint64 env k def =
     (if env k = [] then Inr def
      else case parseUint64 (env k) of None \<Rightarrow> Inl (NotUint k) | Some n \<Rightarrow> Inr (word_of_nat n))"

definition envFloat64 :: "'f float_ops \<Rightarrow> environ \<Rightarrow> string \<Rightarrow> 'f \<Rightarrow> env_error + 'f" where
  "envFloat64 fl env k def =
     (if env k = [] then Inr def
      else case fl_parse fl (env k) of None \<Rightarrow> Inl (NotFloat k) | Some n \<Rightarrow> Inr n)"

text \<open>\<^verbatim>\<open>int(n)\<close> of an unsigned 64-bit number.\<close>

definition intOf :: "u64 \<Rightarrow> int" where
  "intOf n = sint n"

definition addServer :: "(string \<Rightarrow> string) \<Rightarrow> (string \<times> unit) list \<Rightarrow> string \<Rightarrow> (string \<times> unit) list" where
  "addServer uni m part = (let s = strTrimSpace (toLower uni part) in if s \<noteq> [] then mapSet s () m else m)"

definition allowedServers :: "(string \<Rightarrow> string) \<Rightarrow> string \<Rightarrow> (string \<times> unit) list" where
  "allowedServers uni servers = foldl (addServer uni) [] (strSplit CHR '','' servers)"

definition FromEnv :: "'f float_ops \<Rightarrow> (string \<Rightarrow> string) \<Rightarrow> environ \<Rightarrow> env_error + 'f gw_config" where
  "FromEnv fl uni env =
     bindR (envUint64 env ''HARUKI_GW_MAX_FRAME_BYTES'' (16 * 1024 * 1024)) (\<lambda>maxFrame.
     bindR (envUint64 env ''HARUKI_GW_MAX_INFLIGHT_UPLOADS'' 8) (\<lambda>inflight.
     bindR (envFloat64 fl env ''HARUKI_GW_HTTP_RATE_LIMIT_RPS'' (fl_200 fl)) (\<lambda>rps.
     bindR (envUint64 env ''HARUKI_GW_HTTP_RATE_LIMIT_BURST'' 400) (\<lambda>burst.
     bindR (envUint64 env ''HARUKI_GW_LOOKUP_CACHE_ITEMS'' 100000) (\<lambda>cacheItems.
     bindR (envUint64 env ''HARUKI_GW_LOOKUP_CACHE_TTL_SECONDS'' 86400) (\<lambda>cacheTTL.
       let c = \<lparr>gc_HTTPAddr = envDefault env ''HARUKI_GW_HTTP_ADDR'' '':8080'',
                gc_HIPAddr = envDefault env ''HARUKI_GW_HIP_ADDR'' ''127.0.0.1:7420'',
                gc_HIPTLSCert = env ''HARUKI_GW_HIP_TLS_CERT'',
                gc_HIPTLSKey = env ''HARUKI_GW_HIP_TLS_KEY'',
                gc_HIPBearerToken = env ''HARUKI_GW_HIP_BEARER_TOKEN'',
                gc_MaxFrameBytes = maxFrame,
                gc_MaxInFlightUploads = ucast inflight,
                gc_SeaweedFilerBaseURL = envDefault env ''HARUKI_GW_SEAWEED_FILER'' ''http://seaweedfs-filer:8888'',
                gc_SQLitePath = envDefault env ''HARUKI_GW_SQLITE_PATH'' ''/data/gateway.db'',
                gc_HTTPRateLimitRPS = rps,
                gc_HTTPRateLimitBurst = intOf burst,
                gc_LookupCacheItems = intOf cacheItems,
                gc_LookupCacheTTL = intOf cacheTTL,
                gc_AllowedServers = allowedServers uni (envDefault env ''HARUKI_GW_ALLOWED_SERVERS'' ''jp,en,tw,kr,cn''),
                gc_LogLevel = envDefault env ''HARUKI_GW_LOG_LEVEL'' ''info''\<rparr>
       in if gc_HIPBearerToken c = [] then Inl TokenRequired
          else if gc_AllowedServers c = [] then Inl ServersRequired
          else if gc_MaxFrameBytes c < 4096 then Inl FrameTooSmall
          else Inr c))))))"

section \<open>The environment\<close>

lemma mapSet_fst: "fst ` set (mapSet k v m) = insert k (fst ` set m)"
  by (fastforce simp: set_mapSet image_iff)

lemma addServer_mem: "x \<in> fst ` set (addServer uni m part) \<longleftrightarrow> x \<in> fst ` set m \<or> x \<noteq> [] \<and> x = strTrimSpace (toLower uni part)"
  by (auto simp: addServer_def Let_def mapSet_fst)

lemma foldl_addServer_mem:
  "x \<in> fst ` set (foldl (addServer uni) m parts) \<longleftrightarrow> x \<in> fst ` set m \<or> x \<noteq> [] \<and> (\<exists>part \<in> set parts. x = strTrimSpace (toLower uni part))"
  by (induction parts arbitrary: m) (auto simp: addServer_mem)

lemma allowedServers_mem:
  "x \<in> fst ` set (allowedServers uni servers) \<longleftrightarrow> x \<noteq> [] \<and> (\<exists>part \<in> set (strSplit CHR '','' servers). x = strTrimSpace (toLower uni part))"
  by (simp add: allowedServers_def foldl_addServer_mem)

text \<open>The regions an environment names, and the environments that are accepted.\<close>

definition regionsOf :: "(string \<Rightarrow> string) \<Rightarrow> environ \<Rightarrow> string set" where
  "regionsOf uni env = (\<lambda>part. strTrimSpace (toLower uni part))
     ` set (strSplit CHR '','' (envDefault env ''HARUKI_GW_ALLOWED_SERVERS'' ''jp,en,tw,kr,cn'')) - {[]}"

definition uintVars :: "string list" where
  "uintVars = [''HARUKI_GW_MAX_FRAME_BYTES'', ''HARUKI_GW_MAX_INFLIGHT_UPLOADS'', ''HARUKI_GW_HTTP_RATE_LIMIT_BURST'',
     ''HARUKI_GW_LOOKUP_CACHE_ITEMS'', ''HARUKI_GW_LOOKUP_CACHE_TTL_SECONDS'']"

definition validEnv :: "'f float_ops \<Rightarrow> (string \<Rightarrow> string) \<Rightarrow> environ \<Rightarrow> bool" where
  "validEnv fl uni env \<longleftrightarrow>
     (\<forall>k \<in> set uintVars. env k \<noteq> [] \<longrightarrow> parseUint64 (env k) \<noteq> None)
     \<and> (env ''HARUKI_GW_HTTP_RATE_LIMIT_RPS'' \<noteq> [] \<longrightarrow> fl_parse fl (env ''HARUKI_GW_HTTP_RATE_LIMIT_RPS'') \<noteq> None)
     \<and> env ''HARUKI_GW_HIP_BEARER_TOKEN'' \<noteq> [] \<and> regionsOf uni env \<noteq> {}
     \<and> (\<forall>n. env ''HARUKI_GW_MAX_FRAME_BYTES'' \<noteq> [] \<longrightarrow> parseUint64 (env ''HARUKI_GW_MAX_FRAME_BYTES'') = Some n \<longrightarrow> 4096 \<le> n)"

lemma allowedServers_regions:
  "fst ` set (allowedServers uni (envDefault env ''HARUKI_GW_ALLOWED_SERVERS'' ''jp,en,tw,kr,cn'')) = regionsOf uni env"
  by (rule set_eqI, subst allowedServers_mem) (auto simp: regionsOf_def)

lemma allowedServers_empty:
  "allowedServers uni (envDefault env ''HARUKI_GW_ALLOWED_SERVERS'' ''jp,en,tw,kr,cn'') = [] \<longleftrightarrow> regionsOf uni env = {}"
  by (metis allowedServers_regions image_is_empty set_empty)

lemma envUint64_Inr: "(\<exists>n. envUint64 env k def = Inr n) \<longleftrightarrow> (env k \<noteq> [] \<longrightarrow> parseUint64 (env k) \<noteq> None)"
  by (auto simp: envUint64_def split: option.splits)

lemma envFloat64_Inr: "(\<exists>n. envFloat64 fl env k def = Inr n) \<longleftrightarrow> (env k \<noteq> [] \<longrightarrow> fl_parse fl (env k) \<noteq> None)"
  by (auto simp: envFloat64_def split: option.splits)

lemma parseUint64_bound: "parseUint64 s = Some n \<Longrightarrow> n < 2 ^ 64"
  by (auto simp: parseUint64_def split: if_splits)

lemma word_of_nat_less_4096: "n < 2 ^ 64 \<Longrightarrow> (word_of_nat n :: u64) < 4096 \<longleftrightarrow> n < 4096"
  by (simp add: word_less_nat_alt unat_of_nat take_bit_nat_eq_self)

lemma frame_var_ok:
  assumes "envUint64 env k (16 * 1024 * 1024) = Inr m"
  shows "\<not> m < 4096 \<longleftrightarrow> (\<forall>n. env k \<noteq> [] \<longrightarrow> parseUint64 (env k) = Some n \<longrightarrow> 4096 \<le> n)"
  using assms
  by (auto simp: envUint64_def word_of_nat_less_4096 [OF parseUint64_bound] split: if_splits option.splits)

lemma FromEnv_facts:
  assumes "FromEnv fl uni env = Inr c"
  shows "gc_HIPBearerToken c = env ''HARUKI_GW_HIP_BEARER_TOKEN''" "gc_HIPBearerToken c \<noteq> []" "4096 \<le> gc_MaxFrameBytes c"
    "fst ` set (gc_AllowedServers c) = regionsOf uni env" "regionsOf uni env \<noteq> {}"
  using assms unfolding FromEnv_def Let_def bindR_Inr_iff
  by (clarsimp simp: not_less allowedServers_regions allowedServers_empty split: if_splits)+

text \<open>The numeric variables are read exactly when each of them is empty or a number.\<close>

definition varsOk :: "'f float_ops \<Rightarrow> environ \<Rightarrow> bool" where
  "varsOk fl env \<longleftrightarrow> (\<forall>k \<in> set uintVars. env k \<noteq> [] \<longrightarrow> parseUint64 (env k) \<noteq> None)
     \<and> (env ''HARUKI_GW_HTTP_RATE_LIMIT_RPS'' \<noteq> [] \<longrightarrow> fl_parse fl (env ''HARUKI_GW_HTTP_RATE_LIMIT_RPS'') \<noteq> None)"

lemma varsOk_iff:
  "varsOk fl env \<longleftrightarrow> (\<exists>m i r b n t. envUint64 env ''HARUKI_GW_MAX_FRAME_BYTES'' (16 * 1024 * 1024) = Inr m
     \<and> envUint64 env ''HARUKI_GW_MAX_INFLIGHT_UPLOADS'' 8 = Inr i
     \<and> envFloat64 fl env ''HARUKI_GW_HTTP_RATE_LIMIT_RPS'' (fl_200 fl) = Inr r
     \<and> envUint64 env ''HARUKI_GW_HTTP_RATE_LIMIT_BURST'' 400 = Inr b
     \<and> envUint64 env ''HARUKI_GW_LOOKUP_CACHE_ITEMS'' 100000 = Inr n
     \<and> envUint64 env ''HARUKI_GW_LOOKUP_CACHE_TTL_SECONDS'' 86400 = Inr t)"
  by (simp add: varsOk_def uintVars_def envUint64_Inr envFloat64_Inr) blast

lemma FromEnv_valid: "(\<exists>c. FromEnv fl uni env = Inr c) \<longleftrightarrow> validEnv fl uni env"
proof (cases "varsOk fl env")
  case True
  then obtain m i r b n t where vars:
      "envUint64 env ''HARUKI_GW_MAX_FRAME_BYTES'' (16 * 1024 * 1024) = Inr m" "envUint64 env ''HARUKI_GW_MAX_INFLIGHT_UPLOADS'' 8 = Inr i"
      "envFloat64 fl env ''HARUKI_GW_HTTP_RATE_LIMIT_RPS'' (fl_200 fl) = Inr r" "envUint64 env ''HARUKI_GW_HTTP_RATE_LIMIT_BURST'' 400 = Inr b"
      "envUint64 env ''HARUKI_GW_LOOKUP_CACHE_ITEMS'' 100000 = Inr n" "envUint64 env ''HARUKI_GW_LOOKUP_CACHE_TTL_SECONDS'' 86400 = Inr t"
    by (auto simp: varsOk_iff)
  show ?thesis
    unfolding validEnv_def FromEnv_def vars bindR_simps Let_def
    using True frame_var_ok [OF vars(1)] by (simp add: allowedServers_empty varsOk_def) blast
next
  case False
  then have "\<not> validEnv fl uni env" by (auto simp: validEnv_def varsOk_def)
  moreover have "FromEnv fl uni env \<noteq> Inr c" for c
    using False unfolding FromEnv_def bindR_Inr_iff varsOk_iff by blast
  ultimately show ?thesis by blast
qed

end
