(* ===== verification/Startup.thy ===== *)
theory Startup
  imports EnvConfig Migration Gateway VersionsApi
begin

text \<open>
  The first part of \<open>run\<close> in \<^verbatim>\<open>cmd/gateway/main.go\<close>: configuration, database and the wiring of the components, up to the
  listeners. The file system call, the faults of the database, the object store and the clock are fields of \<open>start_env\<close>.
\<close>

section \<open>Definitions\<close>

datatype log_level = LevelDebug | LevelInfo | LevelWarn | LevelError

definition buildLogger :: "string \<Rightarrow> log_level" where
  "buildLogger level =
     (if level = ''debug'' then LevelDebug
      else if level = ''warn'' then LevelWarn
      else if level = ''error'' then LevelError
      else LevelInfo)"

text \<open>\<^verbatim>\<open>filepath.Dir\<close>.\<close>

definition fileDir :: "string \<Rightarrow> string" where
  "fileDir p = pathClean (rev (dropWhile (\<lambda>c. c \<noteq> CHR ''/'') (rev p)))"

text \<open>\<^verbatim>\<open>time.Duration(ttl) * time.Second\<close>, in 64 bits.\<close>

definition ttlDuration :: "int \<Rightarrow> int" where
  "ttlDuration ttl = sint (word_of_int ttl * 1000000000 :: 64 word)"

definition lookupCacheOf :: "'f gw_config \<Rightarrow> lookup_cache option" where
  "lookupCacheOf c = NewLookupCache (gc_LookupCacheItems c) (ttlDuration (gc_LookupCacheTTL c))"

text \<open>A nil \<^verbatim>\<open>*LookupCache\<close> in the interface is not a nil interface, so the server always has a cache to call.\<close>

definition hipConfig :: "'f gw_config \<Rightarrow> config" where
  "hipConfig c = \<lparr>cfg_bearer_token = gc_HIPBearerToken c, cfg_max_frame = gc_MaxFrameBytes c,
     cfg_max_in_flight_uploads = gc_MaxInFlightUploads c, cfg_allowed_servers = map fst (gc_AllowedServers c),
     cfg_server_version = ''moe-assets-gateway/1'', cfg_has_cache = True\<rparr>"

definition proxyOf :: "'f gw_config \<Rightarrow> client \<Rightarrow> proxy_handler" where
  "proxyOf c sc = \<lparr>ph_Client = sc, ph_AllowedServers = gc_AllowedServers c, ph_Metrics = Some \<lparr>pm_RequestsTotal = True, pm_BytesOut = True\<rparr>\<rparr>"

definition apiConf :: "'f gw_config \<Rightarrow> api_conf" where
  "apiConf c = \<lparr>ac_AllowedServers = map fst (gc_AllowedServers c), ac_DefaultLimit = 0, ac_MaxLimit = 0, ac_CacheTTL = 0, ac_MaxCacheItems = 0\<rparr>"

definition versionsConf :: "'f gw_config \<Rightarrow> versions_conf" where
  "versionsConf c = \<lparr>ac_AllowedServers = map fst (gc_AllowedServers c), ac_DefaultLimit = 0, ac_MaxLimit = 0, ac_CacheTTL = 0, ac_MaxCacheItems = 0,
     vc_DefaultTypes = None, vc_DefaultMinMp3Size = None\<rparr>"

datatype start_error = StartEnv env_error | StartDir string | StartOpen string | StartIndex string

record start_env =
  st_mkdir :: "string \<Rightarrow> string option"
  st_open :: sqlfault
  st_index :: sqlfault
  st_tp :: transport
  st_now :: int

record ('f, 'l) started =
  sd_cfg :: "'f gw_config"
  sd_level :: log_level
  sd_catalogue :: catalogue
  sd_db :: db
  sd_ping :: "unit result"
  sd_cache :: "lookup_cache option"
  sd_proxy :: proxy_handler
  sd_api :: api_conf
  sd_versions :: versions_conf
  sd_limiter :: "'l ip_limiter"
  sd_hip :: config

text \<open>The components over an opened database; the ping of the object store is logged only.\<close>

definition wire :: "'f float_ops \<Rightarrow> start_env \<Rightarrow> 'f gw_config \<Rightarrow> catalogue \<Rightarrow> db \<Rightarrow> ('f, 'l) started" where
  "wire fl io cfg cat d =
     (let sc = Client_New (gc_SeaweedFilerBaseURL cfg)
      in \<lparr>sd_cfg = cfg, sd_level = buildLogger (gc_LogLevel cfg), sd_catalogue = cat, sd_db = d, sd_ping = Client_Ping (st_tp io) sc,
          sd_cache = lookupCacheOf cfg, sd_proxy = proxyOf cfg sc, sd_api = apiConf cfg, sd_versions = versionsConf cfg,
          sd_limiter = NewIPRateLimiter (fl_nonpos fl (gc_HTTPRateLimitRPS cfg)) (st_now io),
          sd_hip = NewServer (hipConfig cfg)\<rparr>)"

text \<open>\<open>run\<close> up to the listeners; \<open>cat\<close> and \<open>d\<close> are the catalogue and the rows of the database file.\<close>

definition start :: "'f float_ops \<Rightarrow> (string \<Rightarrow> string) \<Rightarrow> environ \<Rightarrow> start_env \<Rightarrow> catalogue \<Rightarrow> db \<Rightarrow> start_error + ('f, 'l) started" where
  "start fl uni env io cat d =
     bindR (mapErr StartEnv (FromEnv fl uni env)) (\<lambda>cfg.
     bindR (if gc_SQLitePath cfg \<noteq> '':memory:''
            then case st_mkdir io (fileDir (gc_SQLitePath cfg)) of Some e \<Rightarrow> Inl (StartDir e) | None \<Rightarrow> Inr ()
            else Inr ()) (\<lambda>_.
     case Open (st_open io) (gc_SQLitePath cfg) 0 cat of
       (Inl e, _) \<Rightarrow> Inl (StartOpen e)
     | (Inr _, cat') \<Rightarrow>
         bindR (mapErr StartIndex (EnsureReadIndexes (st_index io) d)) (\<lambda>d'. Inr (wire fl io cfg cat' d'))))"

definition empty_catalogue :: catalogue where
  "empty_catalogue = \<lparr>ct_tables = [], ct_indexes = []\<rparr>"

section \<open>What a started gateway holds\<close>

lemma start_cases:
  assumes "start fl uni env io cat d = Inr g"
  obtains cfg cat' d' where "FromEnv fl uni env = Inr cfg" "EnsureReadIndexes (st_index io) d = Inr d'" "g = wire fl io cfg cat' d'"
proof -
  from assms obtain cfg where "mapErr StartEnv (FromEnv fl uni env) = Inr cfg"
    and "(case Open (st_open io) (gc_SQLitePath cfg) 0 cat of (Inl e, _) \<Rightarrow> Inl (StartOpen e)
         | (Inr _, cat') \<Rightarrow> bindR (mapErr StartIndex (EnsureReadIndexes (st_index io) d)) (\<lambda>d'. Inr (wire fl io cfg cat' d'))) = Inr g"
    unfolding start_def bindR_Inr_iff [where m = "mapErr StartEnv _"] by (auto simp: bindR_Inr_iff)
  then show ?thesis by (auto simp: mapErr_Inr_iff bindR_Inr_iff split: prod.splits sum.splits intro: that)
qed

lemma start_Inr:
  assumes "start fl uni env io cat d = Inr g"
  shows "FromEnv fl uni env = Inr (sd_cfg g)"
    "sd_hip g = NewServer (hipConfig (sd_cfg g))" "ac_AllowedServers (sd_api g) = map fst (gc_AllowedServers (sd_cfg g))"
    "ac_AllowedServers (sd_versions g) = map fst (gc_AllowedServers (sd_cfg g))"
    "ph_AllowedServers (sd_proxy g) = gc_AllowedServers (sd_cfg g)"
  using assms by (auto elim!: start_cases simp: wire_def apiConf_def versionsConf_def proxyOf_def Let_def)

lemma NewServer_keeps:
  "cfg_bearer_token (NewServer c) = cfg_bearer_token c" "cfg_allowed_servers (NewServer c) = cfg_allowed_servers c"
  "cfg_has_cache (NewServer c) = cfg_has_cache c" "cfg_max_frame c \<noteq> 0 \<Longrightarrow> cfg_max_frame (NewServer c) = cfg_max_frame c"
  "cfg_max_in_flight_uploads (NewServer c) \<noteq> 0"
  by (simp_all add: NewServer_def Let_def)

lemma EnsureReadIndexes_total: "\<exists>d'. EnsureReadIndexes no_fault d = Inr d'"
  by (simp add: EnsureReadIndexes_def LatestAssetID_def readIndexMetaMaxID_def setReadIndexMetaMaxID_def split: option.splits)

lemma start_runs:
  assumes "\<And>dir. st_mkdir io dir = None" and "st_open io = no_fault" and "st_index io = no_fault" and "upgradable cat"
    and c: "FromEnv fl uni env = Inr c"
  shows "\<exists>cat' d'. start fl uni env io cat d = Inr (wire fl io c cat' d') \<and> current cat' \<and> db_assets d' = db_assets d"
proof -
  obtain cat' where cat': "Open no_fault (gc_SQLitePath c) 0 cat = (Inr (fst (dsnOf (gc_SQLitePath c) 0)), cat')" "current cat'"
    using Open_facts [OF assms(4)] by blast
  obtain d' where d': "EnsureReadIndexes no_fault d = Inr d'" using EnsureReadIndexes_total by blast
  then have "db_assets d' = db_assets d" by (cases rule: EnsureReadIndexes_cases) simp_all
  moreover have "start fl uni env io cat d = Inr (wire fl io c cat' d')" using c cat' d' assms(1-3) by (simp add: start_def)
  ultimately show ?thesis using cat'(2) by blast
qed

text \<open>A time to live that overflows the duration turns the cache off.\<close>

lemma lookup_ttl_overflow: "NewLookupCache 100000 (ttlDuration 9223372037) = None"
  by (simp add: ttlDuration_def NewLookupCache_def)

section \<open>Properties\<close>

text \<open>C36: A gateway that starts demands a non-empty bearer token, the one of the environment, takes frames of at least 4096 bytes, lets
  every session have an upload slot, and all of its components admit the same regions: the trimmed, lower-case, non-empty entries of
  the configured list, of which there is at least one.\<close>

theorem startup_config_sound:
  assumes "start fl uni env io cat d = Inr g"
  shows "cfg_bearer_token (sd_hip g) = env ''HARUKI_GW_HIP_BEARER_TOKEN'' \<and> cfg_bearer_token (sd_hip g) \<noteq> []
    \<and> 4096 \<le> cfg_max_frame (sd_hip g) \<and> cfg_max_in_flight_uploads (sd_hip g) \<noteq> 0 \<and> cfg_has_cache (sd_hip g)
    \<and> (\<forall>region. serverAllowed (sd_hip g) region \<longleftrightarrow> region \<in> regionsOf uni env)
    \<and> set (ac_AllowedServers (sd_api g)) = regionsOf uni env \<and> set (ac_AllowedServers (sd_versions g)) = regionsOf uni env
    \<and> fst ` set (ph_AllowedServers (sd_proxy g)) = regionsOf uni env \<and> regionsOf uni env \<noteq> {}"
proof -
  note g = start_Inr [OF assms]
  note c = FromEnv_facts [OF g(1)]
  have "cfg_max_frame (hipConfig (sd_cfg g)) \<noteq> 0" using c(3) by (auto simp: hipConfig_def)
  then show ?thesis using g c by (simp add: NewServer_keeps serverAllowed_def hipConfig_def)
qed

definition demo_float_ops :: "nat float_ops" where
  "demo_float_ops = \<lparr>fl_parse = parseUint64, fl_200 = 200, fl_nonpos = (\<lambda>n. n = 0)\<rparr>"

definition demo_environ :: environ where
  "demo_environ k = (if k = ''HARUKI_GW_HIP_BEARER_TOKEN'' then ''secret'' else if k = ''HARUKI_GW_ALLOWED_SERVERS'' then '' JP,,en,jp'' else [])"

definition demo_start_env :: start_env where
  "demo_start_env = \<lparr>st_mkdir = (\<lambda>_. None), st_open = no_fault, st_index = no_fault, st_tp = demo_filer 200, st_now = 0\<rparr>"

lemma demo_regions: "regionsOf uni demo_environ = {''jp'', ''en''}"
  by code_simp

lemma demo_valid: "validEnv demo_float_ops uni demo_environ"
  by (simp add: validEnv_def demo_regions uintVars_def) (simp add: demo_environ_def)

text \<open>C37: Without faults of file system and database, and on a database file that can be upgraded, the gateway starts exactly when the
  environment is valid: numbers are numbers, the token and one region are there and the frame limit is large enough. Then the
  catalogue is current and the asset history untouched.\<close>

theorem startup_succeeds_iff:
  assumes "\<And>dir. st_mkdir io dir = None" and "st_open io = no_fault" and "st_index io = no_fault" and "upgradable cat"
  shows "(\<exists>g. start fl uni env io cat d = Inr g \<and> current (sd_catalogue g) \<and> db_assets (sd_db g) = db_assets d) \<longleftrightarrow> validEnv fl uni env"
proof
  assume "\<exists>g. start fl uni env io cat d = Inr g \<and> current (sd_catalogue g) \<and> db_assets (sd_db g) = db_assets d"
  then show "validEnv fl uni env" using start_Inr(1) FromEnv_valid by blast
next
  assume "validEnv fl uni env"
  then obtain c where c: "FromEnv fl uni env = Inr c" using FromEnv_valid by blast
  show "\<exists>g. start fl uni env io cat d = Inr g \<and> current (sd_catalogue g) \<and> db_assets (sd_db g) = db_assets d"
    using start_runs [OF assms c, of d] by (auto simp: wire_def Let_def)
qed

theorem startup_succeeds_iff_witness:
  "\<exists>g :: (nat, unit) started. start demo_float_ops (\<lambda>s. s) demo_environ demo_start_env legacy_catalogue empty_db = Inr g \<and> current (sd_catalogue g)"
proof -
  have "upgradable legacy_catalogue" by code_simp
  then show ?thesis
    using startup_succeeds_iff [of demo_start_env legacy_catalogue demo_float_ops "\<lambda>s. s" demo_environ empty_db] demo_valid
    by (auto simp: demo_start_env_def)
qed

theorem startup_config_sound_witness:
  "\<exists>g :: (nat, unit) started. start demo_float_ops (\<lambda>s. s) demo_environ demo_start_env empty_catalogue empty_db = Inr g
     \<and> serverAllowed (sd_hip g) ''jp'' \<and> \<not> serverAllowed (sd_hip g) ''kr'' \<and> cfg_bearer_token (sd_hip g) = ''secret''"
proof -
  obtain c where c: "FromEnv demo_float_ops (\<lambda>s. s) demo_environ = Inr c" using FromEnv_valid demo_valid by blast
  have "upgradable empty_catalogue" by code_simp
  with c have "\<exists>g :: (nat, unit) started. start demo_float_ops (\<lambda>s. s) demo_environ demo_start_env empty_catalogue empty_db = Inr g"
    using start_runs [of demo_start_env empty_catalogue demo_float_ops "\<lambda>s. s" demo_environ c empty_db] by (auto simp: demo_start_env_def)
  then obtain g :: "(nat, unit) started" where
    g: "start demo_float_ops (\<lambda>s. s) demo_environ demo_start_env empty_catalogue empty_db = Inr g" by blast
  have "demo_environ ''HARUKI_GW_HIP_BEARER_TOKEN'' = ''secret''" by (simp add: demo_environ_def)
  with startup_config_sound [OF g] g demo_regions show ?thesis by auto
qed

end
