(* ===== verification/Lifecycle.thy ===== *)
theory Lifecycle
  imports EnvConfig
begin

text \<open>
  \<^verbatim>\<open>internal/hipserver/server.go\<close> (\<open>ListenAndServe\<close>, \<open>Shutdown\<close>) and the run loop of \<^verbatim>\<open>cmd/gateway/main.go\<close>: how the process
  stops. The goroutines are the main goroutine, the two components with their shared error channel, the goroutine that closes the
  listener when the context ends, and the sessions, of which only the number in the wait group matters here. One event is one step
  of one of them; \<open>apply\<close> is \<open>None\<close> for an event that is not enabled, and no event is once \<open>run\<close> has returned, because the process
  exits. \<^verbatim>\<open>httpSrv.Shutdown\<close> is taken to return.
\<close>

section \<open>Definitions\<close>

text \<open>The first part of \<open>ListenAndServe\<close>: loading the certificate and binding. \<open>load\<close> and \<open>listen\<close> are \<^verbatim>\<open>tls.LoadX509KeyPair\<close> and the two
  \<^verbatim>\<open>Listen\<close> functions, with their errors.\<close>

definition hipListen :: "(string \<Rightarrow> string \<Rightarrow> string option) \<Rightarrow> (bool \<Rightarrow> string \<Rightarrow> string option) \<Rightarrow> 'f gw_config \<Rightarrow> string option" where
  "hipListen load listen c =
     (if gc_HIPTLSCert c \<noteq> [] \<and> gc_HIPTLSKey c \<noteq> []
      then case load (gc_HIPTLSCert c) (gc_HIPTLSKey c) of
             Some e \<Rightarrow> Some (''hipserver: load tls: '' @ e)
           | None \<Rightarrow> listen True (gc_HIPAddr c)
      else listen False (gc_HIPAddr c))"

datatype hip_phase = HipInit | HipAccepting | HipDraining | HipDone "string option"
datatype http_phase = HttpServing | HttpDone
datatype run_phase = Selecting | ShuttingHttp | ShuttingHip | Waiting | Returned

record lifecycle =
  lf_ctx_done :: bool
  lf_hip :: hip_phase
  lf_ln :: "bool option"
  lf_sessions :: nat
  lf_http :: http_phase
  lf_http_shutdown :: bool
  lf_errCh :: "string option list"
  lf_main :: run_phase

text \<open>\<open>lf_ln\<close> is the field \<^verbatim>\<open>s.ln\<close>: nil, or a listener that is open or closed.\<close>

definition lf_init :: lifecycle where
  "lf_init = \<lparr>lf_ctx_done = False, lf_hip = HipInit, lf_ln = None, lf_sessions = 0, lf_http = HttpServing, lf_http_shutdown = False,
     lf_errCh = [], lf_main = Selecting\<rparr>"

datatype event = Signal | HipListens "string option" | CtxCloses | Accept | AcceptFails | AcceptClosed | SessionEnds | HipReturns
  | HttpFails string | HttpCloses | SelectCtx | SelectErr | ShutHttp | ShutHip | WaitErr

text \<open>\<open>Shutdown\<close>: the listener is closed if there is one.\<close>

definition Shutdown :: "lifecycle \<Rightarrow> lifecycle" where
  "Shutdown s = (case lf_ln s of None \<Rightarrow> s | Some _ \<Rightarrow> s\<lparr>lf_ln := Some False\<rparr>)"

text \<open>A send on the channel of capacity 2.\<close>

definition sendErr :: "string option \<Rightarrow> lifecycle \<Rightarrow> lifecycle option" where
  "sendErr e s = (if length (lf_errCh s) < 2 then Some (s\<lparr>lf_errCh := lf_errCh s @ [e]\<rparr>) else None)"

definition hipEvent :: "event \<Rightarrow> lifecycle \<Rightarrow> lifecycle option" where
  "hipEvent ev s =
     (case ev of
        HipListens None \<Rightarrow> if lf_hip s = HipInit then Some (s\<lparr>lf_hip := HipAccepting, lf_ln := Some True\<rparr>) else None
      | HipListens (Some e) \<Rightarrow> if lf_hip s = HipInit then sendErr (Some e) (s\<lparr>lf_hip := HipDone (Some e)\<rparr>) else None
      | CtxCloses \<Rightarrow> if lf_ctx_done s \<and> lf_ln s \<noteq> None then Some (s\<lparr>lf_ln := Some False\<rparr>) else None
      | Accept \<Rightarrow> if lf_hip s = HipAccepting \<and> lf_ln s = Some True then Some (s\<lparr>lf_sessions := lf_sessions s + 1\<rparr>) else None
      | AcceptFails \<Rightarrow> if lf_hip s = HipAccepting \<and> lf_ln s = Some True then Some s else None
      | AcceptClosed \<Rightarrow> if lf_hip s = HipAccepting \<and> lf_ln s = Some False then Some (s\<lparr>lf_hip := HipDraining\<rparr>) else None
      | SessionEnds \<Rightarrow> if 0 < lf_sessions s then Some (s\<lparr>lf_sessions := lf_sessions s - 1\<rparr>) else None
      | HipReturns \<Rightarrow> if lf_hip s = HipDraining \<and> lf_sessions s = 0 then sendErr None (s\<lparr>lf_hip := HipDone None\<rparr>) else None
      | _ \<Rightarrow> None)"

definition httpEvent :: "event \<Rightarrow> lifecycle \<Rightarrow> lifecycle option" where
  "httpEvent ev s =
     (case ev of
        HttpFails e \<Rightarrow> if lf_http s = HttpServing then sendErr (Some e) (s\<lparr>lf_http := HttpDone\<rparr>) else None
      | HttpCloses \<Rightarrow> if lf_http s = HttpServing \<and> lf_http_shutdown s then sendErr None (s\<lparr>lf_http := HttpDone\<rparr>) else None
      | _ \<Rightarrow> None)"

definition mainEvent :: "event \<Rightarrow> lifecycle \<Rightarrow> lifecycle option" where
  "mainEvent ev s =
     (case ev of
        SelectCtx \<Rightarrow> if lf_main s = Selecting \<and> lf_ctx_done s then Some (s\<lparr>lf_main := ShuttingHttp\<rparr>) else None
      | SelectErr \<Rightarrow> if lf_main s = Selecting \<and> lf_errCh s \<noteq> [] then Some (s\<lparr>lf_main := ShuttingHttp, lf_errCh := tl (lf_errCh s)\<rparr>) else None
      | ShutHttp \<Rightarrow> if lf_main s = ShuttingHttp then Some (s\<lparr>lf_main := ShuttingHip, lf_http_shutdown := True\<rparr>) else None
      | ShutHip \<Rightarrow> if lf_main s = ShuttingHip then Some ((Shutdown s)\<lparr>lf_main := Waiting\<rparr>) else None
      | WaitErr \<Rightarrow> if lf_main s = Waiting \<and> lf_errCh s \<noteq> [] then Some (s\<lparr>lf_main := Returned, lf_errCh := tl (lf_errCh s)\<rparr>) else None
      | _ \<Rightarrow> None)"

definition apply_event :: "event \<Rightarrow> lifecycle \<Rightarrow> lifecycle option" where
  "apply_event ev s =
     (if lf_main s = Returned then None
      else
        case ev of
          Signal \<Rightarrow> Some (s\<lparr>lf_ctx_done := True\<rparr>)
        | _ \<Rightarrow> (case hipEvent ev s of
                  Some s' \<Rightarrow> Some s'
                | None \<Rightarrow> (case httpEvent ev s of Some s' \<Rightarrow> Some s' | None \<Rightarrow> mainEvent ev s)))"

fun run_events :: "event list \<Rightarrow> lifecycle \<Rightarrow> lifecycle option" where
  "run_events [] s = Some s"
| "run_events (ev # evs) s = (case apply_event ev s of None \<Rightarrow> None | Some s' \<Rightarrow> run_events evs s')"

section \<open>The invariant\<close>

fun hipFinished :: "hip_phase \<Rightarrow> bool" where
  "hipFinished (HipDone _) = True"
| "hipFinished _ = False"

definition finished :: "lifecycle \<Rightarrow> nat" where
  "finished s = of_bool (hipFinished (lf_hip s)) + of_bool (lf_http s = HttpDone)"

text \<open>How many results \<open>run\<close> has taken from the channel: one of them in the select only if no signal chose the other case.\<close>

fun taken :: "run_phase \<Rightarrow> nat" where
  "taken Selecting = 0"
| "taken Returned = 2"
| "taken _ = 1"

definition lf_inv :: "lifecycle \<Rightarrow> bool" where
  "lf_inv s \<longleftrightarrow> length (lf_errCh s) \<le> finished s
     \<and> (lf_main s = Returned \<longrightarrow> 0 < finished s)
     \<and> (\<not> lf_ctx_done s \<longrightarrow> finished s = length (lf_errCh s) + taken (lf_main s))
     \<and> (lf_hip s = HipInit \<or> hipFinished (lf_hip s) \<longrightarrow> lf_sessions s = 0)
     \<and> (lf_hip s = HipInit \<longrightarrow> lf_ln s = None) \<and> (lf_hip s = HipDraining \<or> lf_hip s = HipDone None \<longrightarrow> lf_ln s = Some False)"

lemma lf_inv_init: "lf_inv lf_init"
  by (simp add: lf_inv_def lf_init_def finished_def)

lemma lf_inv_hip: "hipEvent ev s = Some s' \<Longrightarrow> lf_inv s \<Longrightarrow> lf_inv s'"
  by (cases ev; clarsimp simp: hipEvent_def sendErr_def split: option.splits if_splits;
      cases "hipFinished (lf_hip s)"; cases "lf_http s"; simp add: lf_inv_def finished_def)

lemma lf_inv_http: "httpEvent ev s = Some s' \<Longrightarrow> lf_inv s \<Longrightarrow> lf_inv s'"
  by (cases ev; clarsimp simp: httpEvent_def sendErr_def split: option.splits if_splits;
      cases "hipFinished (lf_hip s)"; cases "lf_http s"; simp add: lf_inv_def finished_def)

lemma lf_inv_main: "mainEvent ev s = Some s' \<Longrightarrow> lf_inv s \<Longrightarrow> lf_inv s'"
  by (cases ev; clarsimp simp: mainEvent_def Shutdown_def split: option.splits if_splits; 
      cases "lf_errCh s"; cases "hipFinished (lf_hip s)"; cases "lf_http s"; simp add: lf_inv_def finished_def)

lemma lf_inv_signal: "lf_inv s \<Longrightarrow> lf_inv (s\<lparr>lf_ctx_done := True\<rparr>)"
  by (simp add: lf_inv_def finished_def)

lemma apply_event_cases:
  assumes "apply_event ev s = Some s'"
  obtains "ev = Signal" "s' = s\<lparr>lf_ctx_done := True\<rparr>" | "hipEvent ev s = Some s'" | "httpEvent ev s = Some s'" | "mainEvent ev s = Some s'"
  using assms by (cases ev) (auto simp: apply_event_def split: if_splits option.splits)

lemma lf_inv_event: "apply_event ev s = Some s' \<Longrightarrow> lf_inv s \<Longrightarrow> lf_inv s'"
  by (elim apply_event_cases) (simp_all add: lf_inv_hip lf_inv_http lf_inv_main lf_inv_signal)

lemma lf_inv_run: "run_events evs s = Some s' \<Longrightarrow> lf_inv s \<Longrightarrow> lf_inv s'"
  by (induction evs arbitrary: s) (auto split: option.splits intro: lf_inv_event)

lemma hipEvent_ctx: "hipEvent ev s = Some s' \<Longrightarrow> lf_ctx_done s' = lf_ctx_done s"
  by (cases ev) (auto simp: hipEvent_def sendErr_def split: option.splits if_splits)

lemma httpEvent_ctx: "httpEvent ev s = Some s' \<Longrightarrow> lf_ctx_done s' = lf_ctx_done s"
  by (cases ev) (auto simp: httpEvent_def sendErr_def split: if_splits)

lemma mainEvent_ctx: "mainEvent ev s = Some s' \<Longrightarrow> lf_ctx_done s' = lf_ctx_done s"
  by (cases ev) (auto simp: mainEvent_def Shutdown_def split: option.splits if_splits)

lemma run_no_signal: "run_events evs s = Some s' \<Longrightarrow> Signal \<notin> set evs \<Longrightarrow> lf_ctx_done s' = lf_ctx_done s"
  by (induction evs arbitrary: s)
    (auto split: option.splits elim!: apply_event_cases dest: hipEvent_ctx httpEvent_ctx mainEvent_ctx)

text \<open>A process whose read port failed before the ingest port was bound.\<close>

definition orphaned :: "lifecycle \<Rightarrow> bool" where
  "orphaned s \<longleftrightarrow> lf_main s = Waiting \<and> lf_errCh s = [] \<and> lf_http s = HttpDone \<and> lf_hip s = HipAccepting \<and> lf_ln s = Some True \<and> \<not> lf_ctx_done s"

lemma orphaned_event: "apply_event ev s = Some s' \<Longrightarrow> orphaned s \<Longrightarrow> ev \<noteq> Signal \<Longrightarrow> orphaned s'"
  by (elim apply_event_cases; cases ev)
    (auto simp: hipEvent_def httpEvent_def mainEvent_def orphaned_def split: option.splits if_splits)

lemma orphaned_run: "run_events evs s = Some s' \<Longrightarrow> orphaned s \<Longrightarrow> Signal \<notin> set evs \<Longrightarrow> orphaned s'"
  by (induction evs arbitrary: s) (auto split: option.splits intro: orphaned_event)

lemma run_events_append: "run_events (xs @ ys) s = (case run_events xs s of None \<Rightarrow> None | Some s' \<Rightarrow> run_events ys s')"
  by (induction xs arbitrary: s) (auto split: option.splits)

lemma run_accepts:
  "lf_hip s = HipAccepting \<Longrightarrow> lf_ln s = Some True \<Longrightarrow> lf_main s \<noteq> Returned
    \<Longrightarrow> run_events (replicate n Accept) s = Some (s\<lparr>lf_sessions := lf_sessions s + n\<rparr>)"
  by (induction n arbitrary: s) (simp_all add: apply_event_def hipEvent_def)

section \<open>Properties\<close>

text \<open>C38: Whatever the interleaving, the channel of results never holds more than the two it has room for, \<open>run\<close> returns only after a component has, and a HIP
  server that returned without an error has closed its listener and has no session left. When no signal arrived, \<open>run\<close> returns only
  after both components have, so no session is cut off.\<close>

theorem run_loop_safe:
  assumes "run_events evs lf_init = Some s"
  shows "length (lf_errCh s) \<le> 2 \<and> (hipFinished (lf_hip s) \<longrightarrow> lf_sessions s = 0) \<and> (lf_hip s = HipDone None \<longrightarrow> lf_ln s = Some False)
    \<and> (lf_main s = Returned \<longrightarrow> hipFinished (lf_hip s) \<or> lf_http s = HttpDone)
    \<and> (lf_main s = Returned \<and> Signal \<notin> set evs \<longrightarrow> hipFinished (lf_hip s) \<and> lf_http s = HttpDone \<and> lf_sessions s = 0)"
proof -
  have inv: "lf_inv s" by (rule lf_inv_run [OF assms lf_inv_init])
  have two: "finished s \<le> 2" by (simp add: finished_def)
  have "hipFinished (lf_hip s) \<and> lf_http s = HttpDone" if "lf_main s = Returned" "Signal \<notin> set evs"
  proof -
    have "\<not> lf_ctx_done s" using run_no_signal [OF assms that(2)] by (simp add: lf_init_def)
    then have "2 \<le> finished s" using inv that(1) by (simp add: lf_inv_def)
    then show ?thesis by (simp add: finished_def of_bool_def split: if_splits)
  qed
  moreover have "hipFinished (lf_hip s) \<or> lf_http s = HttpDone" if "lf_main s = Returned"
    using inv that by (auto simp: lf_inv_def finished_def)
  ultimately show ?thesis using inv two by (auto simp: lf_inv_def)
qed

theorem run_loop_safe_witness:
  "\<exists>s. run_events [HipListens None, Accept, HttpFails ''bind'', SelectErr, ShutHttp, ShutHip, AcceptClosed, SessionEnds, HipReturns, WaitErr] lf_init
      = Some s \<and> lf_main s = Returned \<and> lf_sessions s = 0"
proof -
  let ?evs = "[HipListens None, Accept, HttpFails ''bind'', SelectErr, ShutHttp, ShutHip, AcceptClosed, SessionEnds, HipReturns, WaitErr]"
  have "run_events ?evs lf_init \<noteq> None" by code_simp
  then obtain s where s: "run_events ?evs lf_init = Some s" by blast
  have "map_option lf_main (run_events ?evs lf_init) = Some Returned" by code_simp
  with s run_loop_safe [OF s] show ?thesis by simp
qed

text \<open>After a signal \<open>run\<close> waits for one component only: with any number of open ingest sessions there is a run that returns, and
  so ends the process, while all of them are still at work.\<close>

theorem signal_abandons_sessions:
  "\<exists>evs s. run_events evs lf_init = Some s \<and> lf_main s = Returned \<and> lf_sessions s = n \<and> lf_hip s = HipAccepting"
proof -
  let ?s = "lf_init\<lparr>lf_hip := HipAccepting, lf_ln := Some True\<rparr>"
  have "run_events (replicate n Accept) ?s = Some (?s\<lparr>lf_sessions := n\<rparr>)"
    using run_accepts [of ?s n] by (simp add: lf_init_def)
  then have "run_events ([HipListens None] @ replicate n Accept @ [Signal, SelectCtx, ShutHttp, HttpCloses, ShutHip, WaitErr]) lf_init
      = run_events [Signal, SelectCtx, ShutHttp, HttpCloses, ShutHip, WaitErr] (?s\<lparr>lf_sessions := n\<rparr>)"
    unfolding run_events_append by (simp add: apply_event_def hipEvent_def lf_init_def)
  also have "\<dots> = Some (?s\<lparr>lf_sessions := n, lf_ctx_done := True, lf_http := HttpDone, lf_http_shutdown := True, lf_ln := Some False,
      lf_main := Returned\<rparr>)"
    by (simp add: apply_event_def hipEvent_def httpEvent_def mainEvent_def sendErr_def Shutdown_def lf_init_def)
  finally have "\<exists>evs. run_events evs lf_init = Some (?s\<lparr>lf_sessions := n, lf_ctx_done := True, lf_http := HttpDone, lf_http_shutdown := True,
      lf_ln := Some False, lf_main := Returned\<rparr>)" by (rule exI)
  then show ?thesis by (elim ex_forward) auto
qed

text \<open>C39: \<open>Shutdown\<close> before the ingest port is bound does nothing: when the read port fails and \<open>run\<close> has called \<open>Shutdown\<close> that early, no sequence of events without a signal
  makes \<open>run\<close> return; the process goes on ingesting without a read port. (When the ingest port is bound before \<open>Shutdown\<close> is called, \<open>run\<close> can return.)\<close>

theorem early_failure_never_returns:
  assumes "run_events ([HttpFails e, SelectErr, ShutHttp, ShutHip, HipListens None] @ evs) lf_init = Some s" and "Signal \<notin> set evs"
  shows "lf_main s = Waiting \<and> lf_hip s = HipAccepting \<and> lf_ln s = Some True"
proof -
  let ?s = "lf_init\<lparr>lf_http := HttpDone, lf_http_shutdown := True, lf_main := Waiting, lf_hip := HipAccepting, lf_ln := Some True\<rparr>"
  have "run_events [HttpFails e, SelectErr, ShutHttp, ShutHip, HipListens None] lf_init = Some ?s"
    by (simp add: apply_event_def hipEvent_def httpEvent_def mainEvent_def sendErr_def Shutdown_def lf_init_def)
  then have "run_events evs ?s = Some s" using assms(1) unfolding run_events_append by simp
  from orphaned_run [OF this _ assms(2)] show ?thesis by (simp add: orphaned_def lf_init_def)
qed

theorem early_failure_never_returns_witness:
  "\<exists>s. run_events [HttpFails ''in use'', SelectErr, ShutHttp, ShutHip, HipListens None, Accept, SessionEnds] lf_init = Some s \<and> lf_main s = Waiting"
proof -
  have "run_events ([HttpFails ''in use'', SelectErr, ShutHttp, ShutHip, HipListens None] @ [Accept, SessionEnds]) lf_init \<noteq> None" by code_simp
  then obtain s where s: "run_events ([HttpFails ''in use'', SelectErr, ShutHttp, ShutHip, HipListens None] @ [Accept, SessionEnds]) lf_init = Some s"
    by blast
  from early_failure_never_returns [OF this] show ?thesis using s by simp
qed

end
