(* ===== verification/Metrics.thy ===== *)
theory Metrics
  imports Proxy Router Session
begin

text \<open>
  \<^verbatim>\<open>internal/metrics/metrics.go\<close>: the registry behind \<^verbatim>\<open>/metrics\<close>, and the hooks \<^verbatim>\<open>cmd/gateway/main.go\<close> installs. The maps are association
  lists; a pointer to a counter or gauge is its name, under which the registry holds it for good. \<open>Inc\<close> and \<open>Add\<close> end in one atomic
  addition, so each call is one step. Values wrap at 64 bits.
\<close>

section \<open>Definitions\<close>

record counter =
  mc_name :: string
  mc_help :: string
  mc_labels :: "string list"
  mc_series :: "(string \<times> u64) list"

record gauge =
  mg_name :: string
  mg_help :: string
  mg_val :: u64

record registry =
  rg_counters :: "(string \<times> counter) list"
  rg_gauges :: "(string \<times> gauge) list"

definition NewRegistry :: registry where
  "NewRegistry = \<lparr>rg_counters = [], rg_gauges = []\<rparr>"

definition NewCounter :: "string \<Rightarrow> string \<Rightarrow> string list \<Rightarrow> registry \<Rightarrow> registry" where
  "NewCounter name help labels r =
     (case mapGet name (rg_counters r) of
        Some _ \<Rightarrow> r
      | None \<Rightarrow> r\<lparr>rg_counters := mapSet name \<lparr>mc_name = name, mc_help = help, mc_labels = labels, mc_series = []\<rparr> (rg_counters r)\<rparr>)"

definition NewGauge :: "string \<Rightarrow> string \<Rightarrow> registry \<Rightarrow> registry" where
  "NewGauge name help r =
     (case mapGet name (rg_gauges r) of
        Some _ \<Rightarrow> r
      | None \<Rightarrow> r\<lparr>rg_gauges := mapSet name \<lparr>mg_name = name, mg_help = help, mg_val = 0\<rparr> (rg_gauges r)\<rparr>)"

text \<open>The loop over the runes of a label value.\<close>

function escapeLabel :: "string \<Rightarrow> string" where
  "escapeLabel s =
     (if s = [] then []
      else
        (if fst (decodeRune s) = 92 then [CHR 0x5C, CHR 0x5C]
         else if fst (decodeRune s) = 34 then [CHR 0x5C, CHR 0x22]
         else if fst (decodeRune s) = 10 then [CHR 0x5C, CHR ''n'']
         else runeBytes s) @ escapeLabel (drop (snd (decodeRune s)) s))"
  by pat_completeness auto
termination
  by (relation "measure length") (auto simp: decodeRune_width)

declare escapeLabel.simps [simp del]

definition labelField :: "string \<Rightarrow> string \<Rightarrow> string" where
  "labelField name v = name @ [CHR ''='', CHR 0x22] @ escapeLabel v @ [CHR 0x22]"

fun labelFields :: "string list \<Rightarrow> string list \<Rightarrow> string" where
  "labelFields [] values = []"
| "labelFields (name # names) values =
     labelField name (case values of [] \<Rightarrow> [] | v # _ \<Rightarrow> v) @ (if names = [] then [] else CHR '','' # labelFields names (tl values))"

definition labelKey :: "string list \<Rightarrow> string list \<Rightarrow> string" where
  "labelKey labels values = (if labels = [] \<or> values = [] then [] else labelFields labels values)"

definition Inc :: "u64 \<Rightarrow> string list \<Rightarrow> counter \<Rightarrow> counter" where
  "Inc delta values c =
     (let key = labelKey (mc_labels c) values;
          old = (case mapGet key (mc_series c) of None \<Rightarrow> 0 | Some n \<Rightarrow> n)
      in c\<lparr>mc_series := mapSet key (old + delta) (mc_series c)\<rparr>)"

definition Gauge_Add :: "int \<Rightarrow> gauge \<Rightarrow> gauge" where
  "Gauge_Add delta g = g\<lparr>mg_val := word_of_int (sint (mg_val g) + delta)\<rparr>"

definition Gauge_Set :: "int \<Rightarrow> gauge \<Rightarrow> gauge" where
  "Gauge_Set v g = g\<lparr>mg_val := word_of_int v\<rparr>"

subsection \<open>Rendering\<close>

definition newline :: string where
  "newline = [CHR 0x0A]"

definition renderCounter :: "counter \<Rightarrow> string" where
  "renderCounter c =
     ''# HELP '' @ mc_name c @ '' '' @ mc_help c @ newline @ ''# TYPE '' @ mc_name c @ '' counter'' @ newline
     @ concat (map (\<lambda>k. mc_name c @ (if k = [] then [] else ''{'' @ k @ ''}'') @ '' ''
          @ formatNat (unat (case mapGet k (mc_series c) of None \<Rightarrow> 0 | Some v \<Rightarrow> v)) @ newline)
        (sort (map fst (mc_series c))))"

definition renderGauge :: "gauge \<Rightarrow> string" where
  "renderGauge g =
     ''# HELP '' @ mg_name g @ '' '' @ mg_help g @ newline @ ''# TYPE '' @ mg_name g @ '' gauge'' @ newline
     @ mg_name g @ '' '' @ formatInt (sint (mg_val g)) @ newline"

definition Render :: "registry \<Rightarrow> string" where
  "Render r =
     concat (map (\<lambda>n. case mapGet n (rg_counters r) of None \<Rightarrow> [] | Some c \<Rightarrow> renderCounter c) (sort (map fst (rg_counters r))))
     @ concat (map (\<lambda>n. case mapGet n (rg_gauges r) of None \<Rightarrow> [] | Some g \<Rightarrow> renderGauge g) (sort (map fst (rg_gauges r))))"

definition metricsHandler :: "('s \<Rightarrow> registry) \<Rightarrow> 's handler" where
  "metricsHandler reg r ws =
     (writeBody (Render (reg (snd ws))) (setHeader ''Content-Type'' ''text/plain; version=0.0.4; charset=utf-8'' (fst ws)), snd ws)"

subsection \<open>The hooks of main.go\<close>

definition mainRegistry :: registry where
  "mainRegistry =
     NewCounter ''hip_bytes_ingested_total'' ''Bytes received via HIP UPLOAD_CHUNK'' []
      (NewCounter ''hip_uploads_total'' ''HIP upload attempts'' [''status'']
        (NewCounter ''hip_sessions_total'' ''Completed HIP sessions'' [''result'']
          (NewGauge ''hip_sessions_active'' ''Currently open HIP sessions''
            (NewCounter ''http_bytes_out_total'' ''HTTP bytes served to clients'' []
              (NewCounter ''http_requests_total'' ''HTTP read requests'' [''server'', ''result''] NewRegistry)))))"

definition incAt :: "string \<Rightarrow> u64 \<Rightarrow> string list \<Rightarrow> registry \<Rightarrow> registry" where
  "incAt name delta values r =
     (case mapGet name (rg_counters r) of
        None \<Rightarrow> r
      | Some c \<Rightarrow> r\<lparr>rg_counters := mapSet name (Inc delta values c) (rg_counters r)\<rparr>)"

definition addAt :: "string \<Rightarrow> int \<Rightarrow> registry \<Rightarrow> registry" where
  "addAt name delta r =
     (case mapGet name (rg_gauges r) of
        None \<Rightarrow> r
      | Some g \<Rightarrow> r\<lparr>rg_gauges := mapSet name (Gauge_Add delta g) (rg_gauges r)\<rparr>)"

text \<open>The proxy hooks, and those of the HIP server: \<open>gaugeSessionsActive\<close>, \<open>counterSessions\<close>, \<open>counterUploads\<close> and
  \<open>counterBytesIngested\<close>.\<close>

definition proxyHook :: "met_event \<Rightarrow> registry \<Rightarrow> registry" where
  "proxyHook ev = (case ev of MetRequest server result \<Rightarrow> incAt ''http_requests_total'' 1 [server, result]
     | MetBytes n \<Rightarrow> incAt ''http_bytes_out_total'' (word_of_nat n) [])"

datatype hip_metric = SessionsActive int | SessionsTotal string | Uploads string | BytesIngested u64

definition hipHook :: "hip_metric \<Rightarrow> registry \<Rightarrow> registry" where
  "hipHook ev = (case ev of SessionsActive delta \<Rightarrow> addAt ''hip_sessions_active'' delta
     | SessionsTotal result \<Rightarrow> incAt ''hip_sessions_total'' 1 [result]
     | Uploads status \<Rightarrow> incAt ''hip_uploads_total'' 1 [status]
     | BytesIngested n \<Rightarrow> incAt ''hip_bytes_ingested_total'' n [])"

section \<open>Label keys\<close>

text \<open>Well-formed UTF-8.\<close>

function validUtf8 :: "string \<Rightarrow> bool" where
  "validUtf8 s = (if s = [] then True
     else if snd (decodeRune s) = 1 \<and> 128 \<le> (of_char (hd s) :: nat) then False else validUtf8 (drop (snd (decodeRune s)) s))"
  by pat_completeness auto
termination
  by (relation "measure length") (auto simp: decodeRune_width)

declare validUtf8.simps [simp del]

definition escByte :: "char \<Rightarrow> string" where
  "escByte c = (if c = CHR 0x5C then [CHR 0x5C, CHR 0x5C] else if c = CHR 0x22 then [CHR 0x5C, CHR 0x22]
     else if c = CHR 0x0A then [CHR 0x5C, CHR ''n''] else [c])"

lemma escByte_high: "128 \<le> (of_char c :: nat) \<Longrightarrow> escByte c = [c]"
  by (auto simp: escByte_def)

lemma concat_escByte_high: "\<forall>c \<in> set s. 128 \<le> (of_char c :: nat) \<Longrightarrow> concat (map escByte s) = s"
  by (induction s) (auto simp: escByte_high)

lemma special_codes:
  "(of_char c :: nat) = 92 \<longleftrightarrow> c = CHR 0x5C" "(of_char c :: nat) = 34 \<longleftrightarrow> c = CHR 0x22" "(of_char c :: nat) = 10 \<longleftrightarrow> c = CHR 0x0A"
  using of_char_eq_iff [of c "CHR 0x5C"] of_char_eq_iff [of c "CHR 0x22"] of_char_eq_iff [of c "CHR 0x0A"] by simp_all

lemma escapeLabel_bytes: "validUtf8 s \<Longrightarrow> escapeLabel s = concat (map escByte s)"
proof (induction s rule: escapeLabel.induct)
  case (1 s)
  show ?case
  proof (cases "s = []")
    case True
    then show ?thesis by (simp add: escapeLabel.simps)
  next
    case False
    let ?w = "snd (decodeRune s)"
    have rest: "escapeLabel (drop ?w s) = concat (map escByte (drop ?w s))"
      using 1 False by (subst (asm) (2) validUtf8.simps) (simp split: if_splits)
    show ?thesis
    proof (cases "(of_char (hd s) :: nat) < 128")
      case True
      have w: "decodeRune s = (of_char (hd s), 1)" by (rule decodeRune_ascii [OF False True])
      obtain c t where s: "s = c # t" using False by (cases s) auto
      have "escapeLabel s = escByte c @ escapeLabel t"
        using True by (subst escapeLabel.simps) (simp add: s w [unfolded s] escByte_def runeBytes_def special_codes)
      then show ?thesis using rest by (simp add: s w [unfolded s])
    next
      case high: False
      have "?w \<noteq> 1" using 1(2) False high by (subst (asm) validUtf8.simps) (auto split: if_splits)
      then have rb: "runeBytes s = take ?w s" by (simp add: runeBytes_def)
      have "128 \<le> fst (decodeRune s)" using decodeRune_high [OF False] high by simp
      then have "escapeLabel s = take ?w s @ escapeLabel (drop ?w s)" using False by (subst escapeLabel.simps) (simp add: rb)
      moreover have "\<forall>c \<in> set (take ?w s). 128 \<le> (of_char c :: nat)" using runeBytes_high [OF False] high rb by simp
      ultimately have "escapeLabel s = concat (map escByte (take ?w s)) @ concat (map escByte (drop ?w s))"
        by (simp add: concat_escByte_high rest)
      then show ?thesis by (metis append_take_drop_id concat_append map_append)
    qed
  qed
qed

text \<open>The escaped bytes of a value end at the first quote that no backslash escapes.\<close>

lemma esc_inject: "concat (map escByte s) @ CHR 0x22 # x = concat (map escByte t) @ CHR 0x22 # y \<longleftrightarrow> s = t \<and> x = y"
proof (induction s arbitrary: t)
  case Nil
  then show ?case by (cases t) (auto simp: escByte_def split: if_splits)
next
  case (Cons c s)
  show ?case
  proof (cases t)
    case Nil
    then show ?thesis by (simp add: escByte_def)
  next
    case (Cons d t')
    have "escByte c @ u = escByte d @ v \<longleftrightarrow> c = d \<and> u = v" for u v by (simp add: escByte_def)
    then show ?thesis using Cons.IH [of t'] Cons by simp
  qed
qed

lemma labelField_inject:
  assumes "validUtf8 v" and "validUtf8 w"
  shows "labelField n v @ x = labelField n w @ y \<longleftrightarrow> v = w \<and> x = y"
  using assms by (simp add: labelField_def escapeLabel_bytes esc_inject)

lemma labelFields_inject:
  assumes "list_all validUtf8 vs" and "list_all validUtf8 ws" and "length vs = length names" and "length ws = length names"
  shows "labelFields names vs = labelFields names ws \<longleftrightarrow> vs = ws"
  using assms
proof (induction names arbitrary: vs ws)
  case Nil
  then show ?case by simp
next
  case (Cons n names)
  then obtain v vs' w ws' where vw: "vs = v # vs'" "ws = w # ws'" by (metis length_Suc_conv)
  show ?case
  proof (cases "names = []")
    case True
    then show ?thesis using Cons.prems vw labelField_inject [of v w n "[]" "[]"] by simp
  next
    case False
    then show ?thesis using Cons.prems vw Cons.IH [of vs' ws'] labelField_inject [of v w n] by simp
  qed
qed

text \<open>The label values a call may pass: as many as there are labels, in UTF-8.\<close>

definition labelled :: "string list \<Rightarrow> string list \<Rightarrow> bool" where
  "labelled labels vs \<longleftrightarrow> length vs = length labels \<and> list_all validUtf8 vs"

lemma labelKey_inject: "labelled labels vs \<Longrightarrow> labelled labels ws \<Longrightarrow> labelKey labels vs = labelKey labels ws \<longleftrightarrow> vs = ws"
  using labelFields_inject [of vs ws labels]
  by (cases "labels = []") (auto simp: labelled_def labelKey_def simp del: labelFields.simps)

section \<open>Totals\<close>

definition seriesOf :: "counter \<Rightarrow> string list \<Rightarrow> u64 option" where
  "seriesOf c vs = mapGet (labelKey (mc_labels c) vs) (mc_series c)"

definition valueOf :: "counter \<Rightarrow> string list \<Rightarrow> u64" where
  "valueOf c vs = (case seriesOf c vs of None \<Rightarrow> 0 | Some n \<Rightarrow> n)"

lemma Inc_labels: "mc_labels (Inc d vs c) = mc_labels c"
  by (simp add: Inc_def Let_def)

lemma Inc_value:
  assumes "labelled (mc_labels c) vs" and "labelled (mc_labels c) ws"
  shows "valueOf (Inc d ws c) vs = valueOf c vs + (if ws = vs then d else 0)"
  using labelKey_inject [OF assms] by (auto simp: valueOf_def seriesOf_def Inc_def Let_def)

lemma Incs_value:
  assumes "labelled (mc_labels c) vs" and "\<forall>(d, ws) \<in> set incs. labelled (mc_labels c) ws"
  shows "valueOf (foldl (\<lambda>c (d, ws). Inc d ws c) c incs) vs = valueOf c vs + sum_list (map fst (filter (\<lambda>(d, ws). ws = vs) incs))"
  using assms by (induction incs arbitrary: c) (auto simp: Inc_labels Inc_value)

lemma Gauge_Add_word: "mg_val (Gauge_Add d g) = mg_val g + word_of_int d"
  by (simp add: Gauge_Add_def of_int_add)

text \<open>One call of a hook, by the proxy or by the HIP server.\<close>

definition hook :: "met_event + hip_metric \<Rightarrow> registry \<Rightarrow> registry" where
  "hook ev = case_sum proxyHook hipHook ev"

text \<open>The calls that reach a counter, as increments, and those that reach the gauge.\<close>

definition incsOf :: "string \<Rightarrow> met_event + hip_metric \<Rightarrow> (u64 \<times> string list) list" where
  "incsOf name ev =
     (let inc = (\<lambda>n d vs. if n = name then [(d, vs)] else [])
      in case ev of
           Inl (MetRequest server result) \<Rightarrow> inc ''http_requests_total'' 1 [server, result]
         | Inl (MetBytes n) \<Rightarrow> inc ''http_bytes_out_total'' (word_of_nat n) []
         | Inr (SessionsTotal result) \<Rightarrow> inc ''hip_sessions_total'' 1 [result]
         | Inr (Uploads status) \<Rightarrow> inc ''hip_uploads_total'' 1 [status]
         | Inr (BytesIngested n) \<Rightarrow> inc ''hip_bytes_ingested_total'' n []
         | Inr (SessionsActive _) \<Rightarrow> [])"

definition deltasOf :: "met_event + hip_metric \<Rightarrow> int list" where
  "deltasOf ev = (case ev of Inr (SessionsActive d) \<Rightarrow> [d] | _ \<Rightarrow> [])"

lemma hook_counter:
  "mapGet name (rg_counters (hook ev r)) = map_option (\<lambda>c. foldl (\<lambda>c (d, vs). Inc d vs c) c (incsOf name ev)) (mapGet name (rg_counters r))"
  by (auto simp: hook_def proxyHook_def hipHook_def incsOf_def incAt_def addAt_def Let_def option.map_ident
      split: sum.splits met_event.splits hip_metric.splits option.splits)

lemma hook_gauge:
  "mapGet ''hip_sessions_active'' (rg_gauges (hook ev r)) =
     map_option (\<lambda>g. foldl (\<lambda>g d. Gauge_Add d g) g (deltasOf ev)) (mapGet ''hip_sessions_active'' (rg_gauges r))"
  by (auto simp: hook_def proxyHook_def hipHook_def deltasOf_def incAt_def addAt_def option.map_ident
      split: sum.splits met_event.splits hip_metric.splits option.splits)

lemma hooks_counter:
  "mapGet name (rg_counters (foldl (\<lambda>r ev. hook ev r) r evs)) =
     map_option (\<lambda>c. foldl (\<lambda>c (d, vs). Inc d vs c) c (concat (map (incsOf name) evs))) (mapGet name (rg_counters r))"
  by (induction evs arbitrary: r) (simp_all add: hook_counter option.map_comp comp_def option.map_ident)

lemma hooks_gauge:
  "mapGet ''hip_sessions_active'' (rg_gauges (foldl (\<lambda>r ev. hook ev r) r evs)) =
     map_option (\<lambda>g. foldl (\<lambda>g d. Gauge_Add d g) g (concat (map deltasOf evs))) (mapGet ''hip_sessions_active'' (rg_gauges r))"
  by (induction evs arbitrary: r) (simp_all add: hook_gauge option.map_comp comp_def option.map_ident)

lemma Adds_value: "mg_val (foldl (\<lambda>g d. Gauge_Add d g) g ds) = mg_val g + word_of_int (sum_list ds)"
  by (induction ds arbitrary: g) (simp_all add: Gauge_Add_word)

section \<open>Properties\<close>

text \<open>C40: Whatever calls of the hooks are made in whatever order, each series of each counter of the gateway is the sum, in 64 bits, of the increments made
  with exactly its label values, and the gauge is the number of sessions opened minus those closed. Escaping keeps different label values
  apart as long as they are UTF-8.\<close>

theorem metrics_exact:
  assumes "mapGet name (rg_counters mainRegistry) = Some c0" and "labelled (mc_labels c0) vs"
    and "\<forall>(d, ws) \<in> set (concat (map (incsOf name) evs)). labelled (mc_labels c0) ws"
  shows "\<exists>c g. mapGet name (rg_counters (foldl (\<lambda>r ev. hook ev r) mainRegistry evs)) = Some c
    \<and> valueOf c vs = sum_list (map fst (filter (\<lambda>(d, ws). ws = vs) (concat (map (incsOf name) evs))))
    \<and> mapGet ''hip_sessions_active'' (rg_gauges (foldl (\<lambda>r ev. hook ev r) mainRegistry evs)) = Some g
    \<and> mg_val g = word_of_int (sum_list (concat (map deltasOf evs)))"
proof -
  have "mc_series c0 = []"
    using assms(1) by (auto simp: mainRegistry_def NewCounter_def NewGauge_def NewRegistry_def split: if_splits)
  then have "valueOf c0 vs = 0" by (simp add: valueOf_def seriesOf_def)
  moreover have "\<exists>g. mapGet ''hip_sessions_active'' (rg_gauges mainRegistry) = Some g \<and> mg_val g = 0"
    by (simp add: mainRegistry_def NewCounter_def NewGauge_def NewRegistry_def)
  ultimately show ?thesis
    using Incs_value [OF assms(2,3)] by (auto simp: hooks_counter hooks_gauge Adds_value assms(1))
qed

theorem metrics_exact_witness:
  "\<exists>c. mapGet ''http_requests_total'' (rg_counters (foldl (\<lambda>r ev. hook ev r) mainRegistry
        [Inl (MetRequest ''jp'' ''ok''), Inr (SessionsActive 1), Inl (MetRequest ''en'' ''ok''), Inl (MetRequest ''jp'' ''ok'')])) = Some c
     \<and> valueOf c [''jp'', ''ok''] = 2"
proof -
  let ?evs = "[Inl (MetRequest ''jp'' ''ok''), Inr (SessionsActive 1), Inl (MetRequest ''en'' ''ok''), Inl (MetRequest ''jp'' ''ok'')]"
  have c: "mapGet ''http_requests_total'' (rg_counters mainRegistry) = Some \<lparr>mc_name = ''http_requests_total'', mc_help = ''HTTP read requests'',
      mc_labels = [''server'', ''result''], mc_series = []\<rparr>"
    by (simp add: mainRegistry_def NewCounter_def NewGauge_def NewRegistry_def)
  have utf: "validUtf8 ''jp''" "validUtf8 ''en''" "validUtf8 ''ok''" by code_simp+
  show ?thesis
    using metrics_exact [OF c, of "[''jp'', ''ok'']" ?evs] utf by (auto simp: labelled_def incsOf_def)
qed

end
