(* ===== verification/Publish.thy ===== *)
theory Publish
  imports Gateway
begin

text \<open>
  From upload to download: an object store that performs the requests the ingest side logs, and the proxy reading from it. The log of
  a session (\<open>w_storage\<close>) is replayed over the objects there were; \<open>filer_holds\<close> says that the transport of the proxy answers a GET
  with the object the store holds.
\<close>

section \<open>The object store\<close>

fun applyOp :: "(string \<rightharpoonup> byte list) \<Rightarrow> storage_op \<Rightarrow> (string \<rightharpoonup> byte list)" where
  "applyOp m (PutStarted k ct) = m"
| "applyOp m (PutDone k ct bs) = m(k \<mapsto> bs)"
| "applyOp m (CopyDone src dst) = m(dst := m src)"
| "applyOp m (DeleteSent k) = m(k := None)"
| "applyOp m (PipeAborted k) = m"
| "applyOp m (CopyFailed src dst) = m"

definition objects :: "(string \<rightharpoonup> byte list) \<Rightarrow> storage_op list \<Rightarrow> (string \<rightharpoonup> byte list)" where
  "objects m ops = foldl applyOp m ops"

definition bodyOf :: "byte list \<Rightarrow> string" where
  "bodyOf bs = map (\<lambda>b. char_of (unat b)) bs"

definition filer_holds :: "transport \<Rightarrow> client \<Rightarrow> header \<Rightarrow> (string \<rightharpoonup> byte list) \<Rightarrow> bool" where
  "filer_holds tp c hs m \<longleftrightarrow> (\<forall>key bs. m key = Some bs \<longrightarrow>
     (\<exists>resp. Client_Get tp c key hs = Inr resp \<and> hr_status resp = 200 \<and> hr_body resp = bodyOf bs))"

text \<open>The conditions under which \<open>handleUploadEnd\<close> stores the upload under a key of its own.\<close>

definition stores_own :: "codec \<Rightarrow> env \<Rightarrow> byte list \<Rightarrow> session \<Rightarrow> world \<Rightarrow> upload_end \<Rightarrow> inflight_upload \<Rightarrow> bool" where
  "stores_own cd e payload s w n u \<longleftrightarrow> dec_upload_end cd payload = Inr n \<and> mapGet (ue_stream_id n) (se_uploads s) = Some u
     \<and> e_put e = None \<and> e_copy e = None \<and> verifyEnd cd u n = None \<and> reusableKey e (hash_hex cd (up_hashed u)) s w = None"

lemma stored_session_world:
  assumes "handleUploadEnd cd e payload s w = (out, s', w')" and own: "stores_own cd e payload s w n u" and "finalKeyOf None u s = (key, ovr)"
  shows "w_storage w' = w_storage w @ [PutDone (up_temp_key u) (putContentType u) (up_hashed u), CopyDone (up_temp_key u) key] @ deleteLog e 0 (up_temp_key u)
    \<and> w_db w' = w_db w \<and> s' = dropInflight (ue_stream_id n) (markBundleUploaded (up_bundle_path u) (up_fingerprint u)
       (s\<lparr>se_uploads := mapSet (ue_stream_id n) (u\<lparr>up_closed := True\<rparr>) (se_uploads s),
          se_pending := se_pending s @ [pendingRow s u (hash_hex cd (up_hashed u)) ovr key]\<rparr>))"
  using assms(1)
proof (cases rule: handleUploadEnd_cases)
  case (stored n' u' key' ovr')
  then show ?thesis using own assms(3) by (auto simp: stores_own_def)
qed (use own in \<open>auto simp: stores_own_def\<close>)

lemma stored_object:
  assumes "handleUploadEnd cd e payload s w = (out, s', w')" and "stores_own cd e payload s w n u"
    and "up_temp_key u = TempKey run i" and "finalKeyOf None u s = (key, ovr)"
  shows "objects m (w_storage w') key = Some (up_hashed u)" "key \<noteq> []"
proof -
  have "key \<noteq> up_temp_key u" using assms(3,4) namespaces_disjoint by (auto simp: finalKeyOf_def split: if_splits)
  then show "objects m (w_storage w') key = Some (up_hashed u)"
    using stored_session_world [OF assms(1,2,4)] by (simp add: objects_def deleteLog_def)
  show "key \<noteq> []" using assms(4) by (auto simp: finalKeyOf_def SharedKey_def OverrideKey_def split: if_splits)
qed

lemma dropInflight_frame:
  "se_hello (dropInflight i s) = se_hello s" "se_shared_reuse (dropInflight i s) = se_shared_reuse s" "se_pending (dropInflight i s) = se_pending s"
  by (simp_all add: dropInflight_def semRelease_def split: option.splits)

section \<open>What a commit serves\<close>

lemma insertTracked_serves:
  assumes "insertTracked f now a dc = Inr dc'"
  shows "LookupPlacement no_fault (fst dc') (a_server a) (a_path a) = Inr (placementFromAsset a (\<not> a_is_override a))"
    and "path \<noteq> a_path a \<Longrightarrow> LookupPlacement no_fault (fst dc') server path = LookupPlacement no_fault (fst dc) server path"
  using assms InsertAsset_visibility InsertAsset_elsewhere by (auto simp: insertTracked_eq)

text \<open>A row that is alone on its path in the session is what its region reads after the commit.\<close>

lemma commit_serves_row:
  assumes tx: "commitTx e c s d0 = Inr (vid, d', ch)" and ok: "active_ok cfg s" "fair_env e" and a: "a \<in> set (se_pending s)"
    and alone: "\<forall>b \<in> set (se_pending s). a_path b = a_path a \<longrightarrow> b = a" "\<forall>(k, b) \<in> set (se_bundles s). \<not> kb_reuse b"
      "\<forall>(k, r) \<in> set (se_shared_reuse s). sr_path r \<noteq> a_path a"
  shows "LookupPlacement no_fault d' (hl_region (se_hello s)) (a_path a) = Inr (placementFromAsset a (\<not> a_is_override a))"
  using tx
proof (cases rule: commitTx_phases)
  case (1 d1 dc2 k dc3 d4 m d5)
  let ?P = "\<lambda>dc. LookupPlacement no_fault (fst dc) (hl_region (se_hello s)) (a_path a) = Inr (placementFromAsset a (\<not> a_is_override a))"
  have srv: "a_server a = hl_region (se_hello s)" using commit_rows(1) [OF ok] a by (simp add: commitRow_def)
  have "?P dc2"
  proof (rule foldR_each [where P = ?P, OF 1(2) a])
    fix j t t'
    assume "mapErr (internalErr ''insert asset: '') (insertTracked (e_sql e ''pending'' j) (e_now e ''pending'' j) a t) = Inr t'"
    then have "insertTracked (e_sql e ''pending'' j) (e_now e ''pending'' j) a t = Inr t'" by (simp add: mapErr_Inr_iff)
    from insertTracked_serves(1) [OF this] show "?P t'" by (simp add: srv)
  next
    fix j b t t'
    assume b: "b \<in> set (se_pending s)" "?P t"
      "mapErr (internalErr ''insert asset: '') (insertTracked (e_sql e ''pending'' j) (e_now e ''pending'' j) b t) = Inr t'"
    then have ins: "insertTracked (e_sql e ''pending'' j) (e_now e ''pending'' j) b t = Inr t'" by (simp add: mapErr_Inr_iff)
    show "?P t'"
    proof (cases "a_path b = a_path a")
      case True
      then have "b = a" using alone(1) b(1) by blast
      then show ?thesis using insertTracked_serves(1) [OF ins] srv by simp
    next
      case False
      then show ?thesis using insertTracked_serves(2) [OF ins] b(2) by simp
    qed
  qed
  moreover have "bundleReuses e s = []"
    using alone(2) ok(2) by (auto simp: bundleReuses_def filter_empty_conv fair_env_def)
  then have "dc3 = dc2" using 1(3) by simp
  ultimately have "?P dc3" by simp
  then have "?P (d4, ch)"
  proof (rule foldR_invariant [where P = ?P, OF 1(4)])
    fix j r t t'
    assume r: "r \<in> set (e_iter_shared e (map snd (se_shared_reuse s)))" "?P t"
      "mapErr (internalErr ''insert reuse asset: '')
         (insertTracked (e_sql e ''shared'' j) (e_now e ''shared'' j) (sharedReuseRow s r) t) = Inr t'"
    then have "a_path a \<noteq> a_path (sharedReuseRow s r)" using alone(3) ok(2) by (auto simp: fair_env_def sharedReuseRow_def)
    then show "?P t'" using insertTracked_serves(2) r(2,3) by (auto simp: mapErr_Inr_iff)
  qed
  moreover have "db_assets d5 = db_assets d4 \<and> db_current d5 = db_current d4 \<and> db_shared d5 = db_shared d4"
    by (rule foldR_invariant [OF 1(6)]) (auto simp: InsertBundleCompletion_def Let_def exec_Inr_iff)
  moreover have "db_assets d' = db_assets d5 \<and> db_current d' = db_current d5 \<and> db_shared d' = db_shared d5"
    using MarkReadIndexCurrent_eq [OF 1(7)] by auto
  ultimately show ?thesis using LookupPlacement_tables [of d' d4] by simp
qed

section \<open>The proxy on the store\<close>

lemma proxy_gets_object:
  assumes "LookupPlacement no_fault d server path = Inr res" and "p_found res" and "p_storage_key res \<noteq> []" and "SafeRelPath path = Inr path"
    and "filer_holds (pe_tp pe) (ph_Client h) (rangeHeaders r) m" and "m (p_storage_key res) = Some bs"
    and "pe_sql pe = no_fault" and "pe_copied pe = None" and "rq_method r = ''GET''" and "hdrGet ''If-None-Match'' (rq_header r) = []"
    and "mapGet server (ph_AllowedServers h) \<noteq> None"
  shows "rw_status (po_writer (Proxy_ServeHTTP h pe d r server path None new_writer)) = Some 200"
    "rw_body (po_writer (Proxy_ServeHTTP h pe d r server path None new_writer)) = bodyOf bs"
proof -
  let ?w = "placedWriter pe path res new_writer"
  have pl: "placed h pe d r server path None path res"
    using assms by (simp add: placed_def resolve_defs Get_def)
  have "\<not> notModified r res" using assms(10) by (simp add: notModified_def)
  then have out: "po_writer (Proxy_ServeHTTP h pe d r server path None new_writer) = fst (serveGet h pe server (p_storage_key res) (rangeHeaders r) ?w)"
    using Proxy_placed [OF pl, of new_writer] assms(9) by simp
  obtain resp where resp: "Client_Get (pe_tp pe) (ph_Client h) (p_storage_key res) (rangeHeaders r) = Inr resp" "hr_status resp = 200" "hr_body resp = bodyOf bs"
    using assms(5,6) by (auto simp: filer_holds_def)
  have w: "rw_status ?w = None" "rw_body ?w = []" by (simp_all add: new_writer_def)
  show st: "rw_status (po_writer (Proxy_ServeHTTP h pe d r server path None new_writer)) = Some 200"
    unfolding out using resp(1,2) w(1) by (simp add: serveGet_def Let_def)
  have "\<exists>resp n. Client_Get (pe_tp pe) (ph_Client h) (p_storage_key res) (rangeHeaders r) = Inr resp
      \<and> rw_body (fst (serveGet h pe server (p_storage_key res) (rangeHeaders r) ?w)) = rw_body ?w @ take n (hr_body resp)
      \<and> (pe_copied pe = None \<longrightarrow> length (hr_body resp) \<le> n)"
    using serveGet_status [OF w(1), of h pe server "p_storage_key res" "rangeHeaders r" 200] st out by auto
  then show "rw_body (po_writer (Proxy_ServeHTTP h pe d r server path None new_writer)) = bodyOf bs"
    unfolding out using resp w(2) assms(8) by auto
qed

section \<open>Properties\<close>

text \<open>C1: From upload to download. A file whose upload ends well and is stored under a key of its own, and whose session then commits, is served:
  a plain GET of its path for the region of the session answers 200 with exactly the bytes uploaded. The COMMIT is the frame right
  after the UPLOAD_END, the session wrote no other row for the path and marked no bundle for reuse, the object store has performed
  the requests made to it, and the proxy runs without a lookup cache (with one, the coherence shown in theory Gateway applies).\<close>

theorem published_file_served:
  assumes "session_run cfg cd tr s" and "se_state s = stateRunning"
    and "handleUploadEnd cd e payload s w = (Continue, s1, w1)" and "stores_own cd e payload s w n u"
    and "f_type f = FrameCommit" and "dispatch cfg cd e2 f s1 w1 = (out, s2, w2)" and "se_state s2 = stateFinalized" and "fair_env e2"
    and "\<forall>b \<in> set (se_pending s). a_path b \<noteq> up_path u" and "\<forall>(k, b) \<in> set (se_bundles s1). \<not> kb_reuse b"
    and "\<forall>(k, rr) \<in> set (se_shared_reuse s). sr_path rr \<noteq> up_path u"
    and "filer_holds (pe_tp pe) (ph_Client h) (rangeHeaders r) (objects m (w_storage w2))"
    and "pe_sql pe = no_fault" and "pe_copied pe = None" and "rq_method r = ''GET''" and "hdrGet ''If-None-Match'' (rq_header r) = []"
    and "mapGet (hl_region (se_hello s)) (ph_AllowedServers h) \<noteq> None"
  shows "rw_status (po_writer (Proxy_ServeHTTP h pe (w_db w2) r (hl_region (se_hello s)) (up_path u) None new_writer)) = Some 200
    \<and> rw_body (po_writer (Proxy_ServeHTTP h pe (w_db w2) r (hl_region (se_hello s)) (up_path u) None new_writer)) = bodyOf (up_hashed u)"
proof -
  have ok: "active_ok cfg s" using session_run_inv [OF assms(1)] session_inv_active assms(2) by blast
  have get: "mapGet (ue_stream_id n) (se_uploads s) = Some u" using assms(4) by (simp add: stores_own_def)
  have up: "upload_ok (se_hello s) (ue_stream_id n) u" by (rule upload_okI [OF ok get])
  obtain key ovr where k: "finalKeyOf None u s = (key, ovr)" by (cases "finalKeyOf None u s")
  let ?row = "pendingRow s u (hash_hex cd (up_hashed u)) ovr key"
  note s1 = stored_session_world [OF assms(3,4) k]
  have obj: "objects m (w_storage w1) key = Some (up_hashed u)" "key \<noteq> []"
    using stored_object [OF assms(3,4) _ k] up by (auto simp: upload_ok_def)
  obtain bs where bs: "markBundleUploaded (up_bundle_path u) (up_fingerprint u) x = x\<lparr>se_bundles := bs x\<rparr>" for x
    using markBundleUploaded_frame by metis
  have frame: "se_hello s1 = se_hello s" "se_shared_reuse s1 = se_shared_reuse s" "se_pending s1 = se_pending s @ [?row]"
    using s1 by (simp_all add: bs dropInflight_frame)
  have ok1: "active_ok cfg s1" "se_state s1 = stateRunning" using handleUploadEnd_active [OF assms(3) ok] assms(2) by simp_all
  have row: "a_path ?row = up_path u" "a_storage_key ?row = key" by (simp_all add: pendingRow_def)
  have "handleCommit cfg cd e2 (f_payload f) (s1\<lparr>se_state := stateCommitting\<rparr>) w1 = (out, s2, w2)"
    using assms(6) ok1(2) by (simp add: dispatch_commit [OF assms(5)])
  then show ?thesis
  proof (cases rule: handleCommit_cases)
    case stopped
    then show ?thesis using assms(7) by simp
  next
    case (committed c vid d changed)
    have "LookupPlacement no_fault d (hl_region (se_hello s)) (up_path u) = Inr (placementFromAsset ?row (\<not> a_is_override ?row))"
      using commit_serves_row [OF committed(3) _ assms(8), of cfg ?row] ok1(1) frame assms(9-11) row by auto
    moreover have "p_found (placementFromAsset a x)" "p_storage_key (placementFromAsset a x) = a_storage_key a" for a x
      by (simp_all add: placementFromAsset_def)
    moreover have "SafeRelPath (up_path u) = Inr (up_path u)" using up by (simp add: upload_ok_def)
    ultimately show ?thesis
      using proxy_gets_object [OF _ _ _ _ assms(12), of d "hl_region (se_hello s)" "up_path u"] obj row assms(13-17) committed(5,6) by metis
  qed
qed

text \<open>C11: An upload may change what is served before it is committed, and for other paths. When an override is stored under its own key, every path of
  every region whose current row names that key reads the new bytes at once, under the hash and tag of the old ones, while the database
  is unchanged; this holds whatever becomes of the session afterwards.\<close>

theorem upload_replaces_served_object:
  assumes "handleUploadEnd cd e payload s w = (out, s1, w1)" and "stores_own cd e payload s w n u"
    and "up_placement u = PlacementOverride" and "up_temp_key u = TempKey run i"
    and "LookupPlacement no_fault (w_db w) server path = Inr res" and "p_storage_key res = OverrideKey (hl_region (se_hello s)) (up_path u)"
  shows "LookupPlacement no_fault (w_db w1) server path = Inr res \<and> objects m (w_storage w1) (p_storage_key res) = Some (up_hashed u)"
proof -
  obtain key ovr where k: "finalKeyOf None u s = (key, ovr)" by (cases "finalKeyOf None u s")
  then have "key = p_storage_key res" using assms(3,6) by (simp add: finalKeyOf_def PlacementShared_def PlacementOverride_def split: if_splits)
  then show ?thesis using stored_object(1) [OF assms(1,2,4) k] stored_session_world [OF assms(1,2) k] assms(5) by simp
qed

section \<open>A sample publication\<close>

definition demo_stored :: inflight_upload where
  "demo_stored = demo_upload\<lparr>up_hashed := [7, 8], up_total_read := 2\<rparr>"

definition demo_store_filer :: transport where
  "demo_store_filer = \<lparr>tp_newreq = (\<lambda>_ _. None),
     tp_do = (\<lambda>req. if hq_url req = urlFor (ph_Client demo_handler) ''/shared-assets/ev/a.webp''
        then Inr \<lparr>hr_status = 200, hr_status_text = [], hr_header = [], hr_body = bodyOf [7, 8], hr_length = 2\<rparr> else Inl ''no object'')\<rparr>"

lemma demo_stores_own: "stores_own demo_codec demo_env [] demo_ready demo_world demo_end demo_stored"
proof -
  have "reusableKey demo_env (hash_hex demo_codec (up_hashed demo_stored)) demo_ready demo_world = None" by code_simp
  moreover have "verifyEnd demo_codec demo_stored demo_end = None" by code_simp
  ultimately show ?thesis
    by (simp add: stores_own_def demo_codec_def demo_env_def demo_end_def demo_ready_def demo_stored_def mapGet_def)
qed

lemma demo_final_key: "finalKeyOf None demo_stored demo_ready = (''/shared-assets/ev/a.webp'', False)"
  by code_simp

lemma demo_filer_holds:
  "filer_holds demo_store_filer (ph_Client demo_handler) [] (Map.empty(''/shared-assets/ev/a.webp'' \<mapsto> [7, 8]))"
  by (simp add: filer_holds_def Client_Get_def newRequest_def demo_store_filer_def)

theorem published_file_served_witness:
  "\<exists>s1 w1 out s2 w2. handleUploadEnd demo_codec demo_env [] demo_ready demo_world = (Continue, s1, w1)
     \<and> dispatch demo_cfg demo_codec demo_env \<lparr>f_type = FrameCommit, f_payload = []\<rparr> s1 w1 = (out, s2, w2)
     \<and> rw_body (po_writer (Proxy_ServeHTTP (demo_handler\<lparr>ph_AllowedServers := [(''tw'', ())]\<rparr>) ((demo_penv 200)\<lparr>pe_tp := demo_store_filer\<rparr>) (w_db w2)
          demo_get ''tw'' ''ev/a.webp'' None new_writer)) = bodyOf [7, 8]"
proof -
  obtain tr where run: "session_run demo_cfg demo_codec tr demo_ready" using demo_ready_run by blast
  obtain s1 w1 where up: "handleUploadEnd demo_codec demo_env [] demo_ready demo_world = (Continue, s1, w1)" "se_state s1 = stateRunning"
      "se_uploads s1 = []" using demo_ready_done by blast
  obtain out s2 w2 where h: "dispatch demo_cfg demo_codec demo_env \<lparr>f_type = FrameCommit, f_payload = []\<rparr> s1 w1 = (out, s2, w2)"
    by (metis prod_cases3)
  note st = stored_session_world [OF up(1) demo_stores_own demo_final_key]
  obtain vid d ch where "commitTx demo_env demo_commit (s1\<lparr>se_state := stateCommitting\<rparr>) (w_db w1) = Inr (vid, d, ch)"
    using demo_commitTx by blast
  then have fin: "se_state s2 = stateFinalized" "w_storage w2 = w_storage w1"
    using h up(2,3) by (auto simp: dispatch_commit handleCommit_def demo_simps Let_def reply_def send_def split: if_splits)
  have ops: "objects Map.empty (w_storage w2) = Map.empty(''/shared-assets/ev/a.webp'' \<mapsto> [7, 8])"
    using st fin(2) by (auto simp: objects_def deleteLog_def demo_env_def demo_world_def demo_stored_def demo_upload_def fun_eq_iff)
  have bundles: "\<forall>(k, b) \<in> set (se_bundles s1). \<not> kb_reuse b"
    using st by (auto simp: markBundleUploaded_def Let_def dropInflight_def semRelease_def demo_ready_def demo_uploading_def demo_shaken_def
        newSession_def mapSet_def tbl_upsert_def mapGet_def split: option.splits)
  let ?h = "demo_handler\<lparr>ph_AllowedServers := [(''tw'', ())]\<rparr>" and ?pe = "(demo_penv 200)\<lparr>pe_tp := demo_store_filer\<rparr>"
  have "filer_holds (pe_tp ?pe) (ph_Client ?h) (rangeHeaders demo_get) (objects Map.empty (w_storage w2))"
    unfolding ops using demo_filer_holds by (simp add: rangeHeaders_def demo_get_def hdrGet_def)
  from published_file_served [OF run _ up(1) demo_stores_own _ h fin(1) _ _ bundles _ this] show ?thesis
    using up(1) h
    by (fastforce simp: fair_env_def demo_env_def demo_ready_def demo_uploading_def demo_shaken_def newSession_def demo_penv_def demo_get_def
        hdrGet_def demo_hello_def demo_stored_def demo_upload_def mapGet_def)
qed

text \<open>A file bound, for its content, to the key of another file's override.\<close>

definition demo_bound_db :: db where
  "demo_bound_db = (case InsertAsset no_fault 1 ((mkAsset ''tw'' ''b'' ''b/x.webp'' ''5.0'' ''f9'' True ''/overrides/tw/ev/a.webp'')\<lparr>a_sha256 := ''h9''\<rparr>) empty_db of
     Inr d \<Rightarrow> d | Inl _ \<Rightarrow> empty_db)"

definition demo_override :: inflight_upload where
  "demo_override = demo_stored\<lparr>up_placement := ''OVERRIDE''\<rparr>"

theorem upload_replaces_served_object_witness:
  "\<exists>s1 w1 res. handleUploadEnd demo_codec demo_env [] (demo_ready\<lparr>se_uploads := [(1, demo_override)]\<rparr>) (demo_world\<lparr>w_db := demo_bound_db\<rparr>) = (Continue, s1, w1)
     \<and> LookupPlacement no_fault (w_db w1) ''tw'' ''b/x.webp'' = Inr res \<and> p_sha256 res = ''h9''
     \<and> objects Map.empty (w_storage w1) (p_storage_key res) = Some [7, 8] \<and> hash_hex demo_codec [7, 8] = ''h2''"
proof -
  let ?s = "demo_ready\<lparr>se_uploads := [(1, demo_override)]\<rparr>" and ?w = "demo_world\<lparr>w_db := demo_bound_db\<rparr>"
  have "reusableKey demo_env (hash_hex demo_codec (up_hashed demo_override)) ?s ?w = None" by code_simp
  moreover have "verifyEnd demo_codec demo_override demo_end = None" by code_simp
  ultimately have own: "stores_own demo_codec demo_env [] ?s ?w demo_end demo_override"
    by (simp add: stores_own_def demo_codec_def demo_env_def demo_end_def mapGet_def)
  obtain out s1 w1 where h: "handleUploadEnd demo_codec demo_env [] ?s ?w = (out, s1, w1)" by (metis prod_cases3)
  have "fst (handleUploadEnd demo_codec demo_env [] ?s ?w) = Continue" by code_simp
  with h have out: "out = Continue" by simp
  let ?res = "placementFromAsset ((mkAsset ''tw'' ''b'' ''b/x.webp'' ''5.0'' ''f9'' True ''/overrides/tw/ev/a.webp'')\<lparr>a_sha256 := ''h9''\<rparr>) False"
  have look: "LookupPlacement no_fault (w_db ?w) ''tw'' ''b/x.webp'' = Inr ?res" by code_simp
  have key: "p_storage_key ?res = OverrideKey (hl_region (se_hello ?s)) (up_path demo_override)" by code_simp
  have pre: "up_placement demo_override = PlacementOverride" "up_temp_key demo_override = TempKey ''r1'' 1" by code_simp+
  have "hash_hex demo_codec [7, 8] = ''h2''" "up_hashed demo_override = [7, 8]" "p_sha256 ?res = ''h9''" by code_simp+
  with upload_replaces_served_object [OF h own pre look key, of Map.empty] h out show ?thesis by fastforce
qed

end
