(* ===== verification/Watchdog.thy ===== *)
theory Watchdog
  imports SessionSafety
begin

text \<open>
  The two goroutines of a connection, \<open>readLoop\<close> and \<open>heartbeat\<close> of \<^verbatim>\<open>internal/hipserver/session.go\<close>, step by step. They share the
  time of the last frame (\<open>lastRecv\<close>), the counter \<open>processing\<close>, the connection and the context; the record \<open>conn\<close> has these beside the
  session and the world. The reader advances by the statements of its loop, the watchdog by ticks, and time, other
  connections and the server's cancellation come in between. The reader goes through what the function \<open>readLoop\<close>
  computes (\<open>readLoop_steps\<close>).
\<close>

section \<open>The state of a connection\<close>

text \<open>Where the reader is: before the check of the context, in \<open>ReadFrame\<close>, with a frame, with the time of receipt noted, in
  \<open>dispatch\<close>, after it, or out of the loop.\<close>

datatype reader_pc = AtHead | Reading | Received frame | Stamped frame | Handling frame | Handled "session_error option"
  | Returned session_error

record conn =
  cn_session :: session
  cn_world :: world
  cn_reader :: frame_reader
  cn_pc :: reader_pc
  cn_last_recv :: int
  cn_processing :: int
  cn_last_ping :: int
  cn_watching :: bool
  cn_open :: bool
  cn_ctx :: "string option"
  cn_now :: int

definition conn_start :: "config \<Rightarrow> stream \<Rightarrow> world \<Rightarrow> int \<Rightarrow> conn" where
  "conn_start cfg input w now = \<lparr>cn_session = newSession cfg, cn_world = w, cn_reader = NewFrameReader input, cn_pc = AtHead,
     cn_last_recv = now, cn_processing = 0, cn_last_ping = now, cn_watching = True, cn_open = True, cn_ctx = None, cn_now = now\<rparr>"

section \<open>The goroutines\<close>

text \<open>A handler that waits for an upload slot makes no step (\<open>None\<close>).\<close>

definition readerStep :: "config \<Rightarrow> codec \<Rightarrow> env \<Rightarrow> conn \<Rightarrow> conn option" where
  "readerStep cfg cd e c =
     (case cn_pc c of
        AtHead \<Rightarrow> (case cn_ctx c of
                     Some err \<Rightarrow> Some (c\<lparr>cn_pc := Returned (CtxDone err)\<rparr>)
                   | None \<Rightarrow> Some (c\<lparr>cn_pc := Reading\<rparr>))
      | Reading \<Rightarrow>
          if \<not> cn_open c
          then Some (c\<lparr>cn_pc := Returned (ReadFailed (IOError (NetError ''use of closed network connection'')))\<rparr>)
          else (case FrameReader_ReadFrame (cn_reader c) (se_max_frame (cn_session c)) of
                  (Inl err, _) \<Rightarrow> Some (c\<lparr>cn_pc := Returned (ReadFailed err)\<rparr>)
                | (Inr f, fr) \<Rightarrow> Some (c\<lparr>cn_reader := fr, cn_pc := Received f\<rparr>))
      | Received f \<Rightarrow> Some (c\<lparr>cn_last_recv := cn_now c, cn_pc := Stamped f\<rparr>)
      | Stamped f \<Rightarrow> Some (c\<lparr>cn_processing := cn_processing c + 1, cn_pc := Handling f\<rparr>)
      | Handling f \<Rightarrow>
          (case dispatch cfg cd e f (cn_session c) (cn_world c) of
             (Continue, s', w') \<Rightarrow> Some (c\<lparr>cn_session := s', cn_world := w', cn_pc := Handled None\<rparr>)
           | (Stop err, s', w') \<Rightarrow> Some (c\<lparr>cn_session := s', cn_world := w', cn_pc := Handled (Some err)\<rparr>)
           | (Blocked, _, _) \<Rightarrow> None)
      | Handled None \<Rightarrow> Some (c\<lparr>cn_processing := cn_processing c - 1, cn_pc := AtHead\<rparr>)
      | Handled (Some err) \<Rightarrow> Some (c\<lparr>cn_processing := cn_processing c - 1, cn_pc := Returned err\<rparr>)
      | Returned _ \<Rightarrow> None)"

text \<open>The watchdog wakes up at a tick or when the context is cancelled.\<close>

definition heartbeatOnTick :: "codec \<Rightarrow> env \<Rightarrow> conn \<Rightarrow> conn" where
  "heartbeatOnTick cd e c =
     (case heartbeatTick (cn_now c - cn_last_recv c) (cn_processing c) (cn_now c - cn_last_ping c) of
        TickIgnored \<Rightarrow> c
      | TickClose \<Rightarrow> c\<lparr>cn_open := False, cn_watching := False\<rparr>
      | TickPing \<Rightarrow>
          (case send cd e FramePing MNone (cn_world c) of
             (Some _, w') \<Rightarrow> c\<lparr>cn_world := w', cn_watching := False\<rparr>
           | (None, w') \<Rightarrow> c\<lparr>cn_world := w', cn_last_ping := cn_now c\<rparr>)
      | TickIdle \<Rightarrow> c)"

text \<open>The \<open>select\<close> of \<open>handleUploadBegin\<close> may only find the context done when it is.\<close>

inductive conn_step :: "config \<Rightarrow> codec \<Rightarrow> conn \<Rightarrow> conn \<Rightarrow> bool" for cfg :: config and cd :: codec where
  reader: "readerStep cfg cd e c = Some c' \<Longrightarrow> e_cancel e = None \<or> e_cancel e = cn_ctx c \<Longrightarrow> conn_step cfg cd c c'"
| tick: "cn_watching c \<Longrightarrow> conn_step cfg cd c (heartbeatOnTick cd e c)"
| watchdog_done: "cn_watching c \<Longrightarrow> cn_ctx c \<noteq> None \<Longrightarrow> conn_step cfg cd c (c\<lparr>cn_watching := False\<rparr>)"
| cancel: "cn_ctx c = None \<Longrightarrow> conn_step cfg cd c (c\<lparr>cn_ctx := Some err\<rparr>)"
| time: "0 \<le> d \<Longrightarrow> conn_step cfg cd c (c\<lparr>cn_now := cn_now c + d\<rparr>)"
| others: "conn_step cfg cd c (c\<lparr>cn_world := (cn_world c)\<lparr>w_db := d, w_invalidated := i\<rparr>\<rparr>)"

section \<open>Invariants\<close>

definition in_handler :: "reader_pc \<Rightarrow> bool" where
  "in_handler pc = (case pc of Handling _ \<Rightarrow> True | Handled _ \<Rightarrow> True | _ \<Rightarrow> False)"

definition going_on :: "reader_pc \<Rightarrow> bool" where
  "going_on pc = (case pc of Handled (Some _) \<Rightarrow> False | Returned _ \<Rightarrow> False | _ \<Rightarrow> True)"

text \<open>The counter is one exactly while a frame is being handled, and the session is one the frames have led to.\<close>

definition conn_inv :: "config \<Rightarrow> codec \<Rightarrow> conn \<Rightarrow> bool" where
  "conn_inv cfg cd c \<longleftrightarrow> cn_processing c = (if in_handler (cn_pc c) then 1 else 0)
     \<and> (going_on (cn_pc c) \<longrightarrow> (\<exists>tr. session_run cfg cd tr (cn_session c)))"

lemma conn_start_inv: "conn_inv cfg cd (conn_start cfg input w now)"
  using run_start by (auto simp: conn_inv_def conn_start_def in_handler_def)

lemma heartbeatOnTick_frame:
  "cn_session (heartbeatOnTick cd e c) = cn_session c" "cn_pc (heartbeatOnTick cd e c) = cn_pc c"
  "cn_processing (heartbeatOnTick cd e c) = cn_processing c" "cn_ctx (heartbeatOnTick cd e c) = cn_ctx c"
  "cn_open (heartbeatOnTick cd e c) \<longleftrightarrow> cn_open c \<and> \<not> (cn_now c - cn_last_recv c > 60 * second \<and> cn_processing c \<le> 0)"
  by (auto simp: heartbeatOnTick_def heartbeatTick_def split: tick_action.split prod.split option.split)

lemma readerStep_inv:
  assumes "readerStep cfg cd e c = Some c'" and "conn_inv cfg cd c"
  shows "conn_inv cfg cd c'"
proof (cases "cn_pc c")
  case (Handling f)
  obtain out s' w' where d: "dispatch cfg cd e f (cn_session c) (cn_world c) = (out, s', w')" by (metis prod_cases3)
  obtain tr where "session_run cfg cd tr (cn_session c)"
    using assms(2) Handling by (auto simp: conn_inv_def going_on_def)
  then have "\<exists>tr. session_run cfg cd tr s'" if "out = Continue" using run_frame d that by blast
  with assms Handling d show ?thesis
    by (cases out) (auto simp: readerStep_def conn_inv_def in_handler_def going_on_def)
next
  case (Handled r)
  with assms show ?thesis by (cases r) (auto simp: readerStep_def conn_inv_def in_handler_def going_on_def)
qed (use assms in \<open>auto simp: readerStep_def conn_inv_def in_handler_def going_on_def split: option.splits if_splits prod.splits sum.splits\<close>)

lemma conn_step_inv: "conn_step cfg cd c c' \<Longrightarrow> conn_inv cfg cd c \<Longrightarrow> conn_inv cfg cd c'"
  by (induction rule: conn_step.induct)
    (auto intro: readerStep_inv, auto simp: conn_inv_def heartbeatOnTick_frame)

lemma conn_reach_inv: "(conn_step cfg cd)\<^sup>*\<^sup>* (conn_start cfg input w now) c \<Longrightarrow> conn_inv cfg cd c"
  by (induction rule: rtranclp_induct) (auto intro: conn_start_inv conn_step_inv)

text \<open>The watchdog closes the connection only while no frame is being handled.\<close>

lemma watchdog_closes_idle:
  assumes "conn_step cfg cd c c'" and "conn_inv cfg cd c" and "cn_open c" and "\<not> cn_open c'"
  shows "\<not> in_handler (cn_pc c) \<and> cn_now c - cn_last_recv c > 60 * second"
  using assms(1)
proof cases
  case (reader e)
  have "cn_open c' = cn_open c"
    using reader(1) by (auto simp: readerStep_def split: reader_pc.splits option.splits if_splits prod.splits sum.splits outcome.splits)
  with assms(3,4) show ?thesis by simp
next
  case (tick e)
  with assms(2-4) show ?thesis by (auto simp: heartbeatOnTick_frame conn_inv_def split: if_splits)
qed (use assms(3,4) in simp_all)

text \<open>The heartbeat goroutine of a session whose context is alive ends only when the peer has been silent for a minute or a PING cannot be
  sent. \<open>runSession\<close> waits for that goroutine before its deferred \<^verbatim>\<open>cancel\<close>, so that a session that is over stays on for that minute.\<close>

lemma heartbeat_lingers:
  assumes "conn_step cfg cd c c'" and "cn_watching c" and "\<not> cn_watching c'" and "cn_ctx c = None"
  shows "cn_now c - cn_last_recv c > 60 * second \<or> (\<exists>e. fst (send cd e FramePing MNone (cn_world c)) \<noteq> None)"
  using assms(1)
proof cases
  case (reader e)
  have "cn_watching c' = cn_watching c"
    using reader(1) by (auto simp: readerStep_def split: reader_pc.splits option.splits if_splits prod.splits sum.splits outcome.splits)
  with assms(2,3) show ?thesis by simp
next
  case (tick e)
  show ?thesis
  proof (cases "fst (send cd e FramePing MNone (cn_world c))")
    case None
    with tick assms(2,3) show ?thesis
      by (auto simp: heartbeatOnTick_def heartbeatTick_def split: prod.splits option.splits if_splits)
  qed auto
qed (use assms(2-4) in simp_all)

section \<open>The steps of the read loop\<close>

lemma reader_reads:
  assumes "cn_pc c = AtHead" and "cn_ctx c = None" and "cn_open c"
    and "FrameReader_ReadFrame (cn_reader c) (se_max_frame (cn_session c)) = (Inr f, fr)"
  shows "(conn_step cfg cd)\<^sup>*\<^sup>* c (c\<lparr>cn_reader := fr, cn_last_recv := cn_now c, cn_processing := cn_processing c + 1, cn_pc := Handling f\<rparr>)"
proof -
  let ?c1 = "c\<lparr>cn_pc := Reading\<rparr>" and ?c2 = "c\<lparr>cn_reader := fr, cn_pc := Received f\<rparr>"
    and ?c3 = "c\<lparr>cn_reader := fr, cn_last_recv := cn_now c, cn_pc := Stamped f\<rparr>"
    and ?c4 = "c\<lparr>cn_reader := fr, cn_last_recv := cn_now c, cn_processing := cn_processing c + 1, cn_pc := Handling f\<rparr>"
  have e: "e_cancel demo_env = None" by (simp add: demo_env_def)
  have "readerStep cfg cd demo_env c = Some ?c1" "readerStep cfg cd demo_env ?c1 = Some ?c2"
      "readerStep cfg cd demo_env ?c2 = Some ?c3" "readerStep cfg cd demo_env ?c3 = Some ?c4"
    using assms by (simp_all add: readerStep_def)
  then have "conn_step cfg cd c ?c1" "conn_step cfg cd ?c1 ?c2" "conn_step cfg cd ?c2 ?c3" "conn_step cfg cd ?c3 ?c4"
    using e by (auto intro: reader)
  then show ?thesis by (meson converse_rtranclp_into_rtranclp rtranclp.rtrancl_refl)
qed

lemma reader_cancelled:
  assumes "cn_pc c = AtHead" and "cn_ctx c = None"
  shows "(conn_step cfg cd)\<^sup>*\<^sup>* c (c\<lparr>cn_ctx := Some err, cn_pc := Returned (CtxDone err)\<rparr>)"
proof -
  have "conn_step cfg cd c (c\<lparr>cn_ctx := Some err\<rparr>)" by (rule cancel [OF assms(2)])
  moreover have "readerStep cfg cd demo_env (c\<lparr>cn_ctx := Some err\<rparr>) = Some (c\<lparr>cn_ctx := Some err, cn_pc := Returned (CtxDone err)\<rparr>)"
    using assms(1) by (simp add: readerStep_def)
  then have "conn_step cfg cd (c\<lparr>cn_ctx := Some err\<rparr>) (c\<lparr>cn_ctx := Some err, cn_pc := Returned (CtxDone err)\<rparr>)"
    by (rule reader) (simp add: demo_env_def)
  ultimately show ?thesis by auto
qed

lemma reader_fails:
  assumes "cn_pc c = AtHead" and "cn_ctx c = None" and "cn_open c"
    and "FrameReader_ReadFrame (cn_reader c) (se_max_frame (cn_session c)) = (Inl err, fr)"
  shows "(conn_step cfg cd)\<^sup>*\<^sup>* c (c\<lparr>cn_pc := Returned (ReadFailed err)\<rparr>)"
proof -
  let ?c1 = "c\<lparr>cn_pc := Reading\<rparr>"
  have "readerStep cfg cd demo_env c = Some ?c1" "readerStep cfg cd demo_env ?c1 = Some (c\<lparr>cn_pc := Returned (ReadFailed err)\<rparr>)"
    using assms by (simp_all add: readerStep_def)
  then have "conn_step cfg cd c ?c1" "conn_step cfg cd ?c1 (c\<lparr>cn_pc := Returned (ReadFailed err)\<rparr>)"
    by (auto intro!: reader [of _ _ demo_env] simp: demo_env_def)
  then show ?thesis by auto
qed

lemma reader_handles:
  assumes "cn_pc c = AtHead" and "cn_ctx c = None" and "cn_open c"
    and "FrameReader_ReadFrame (cn_reader c) (se_max_frame (cn_session c)) = (Inr f, fr)"
    and "dispatch cfg cd e f (cn_session c) (cn_world c) = (out, s', w')" and "out \<noteq> Blocked" and "e_cancel e = None"
  shows "(conn_step cfg cd)\<^sup>*\<^sup>* c (c\<lparr>cn_reader := fr, cn_last_recv := cn_now c, cn_session := s', cn_world := w',
    cn_pc := (case out of Stop err \<Rightarrow> Returned err | _ \<Rightarrow> AtHead)\<rparr>)"
proof -
  let ?c1 = "c\<lparr>cn_reader := fr, cn_last_recv := cn_now c, cn_processing := cn_processing c + 1, cn_pc := Handling f\<rparr>"
  let ?c2 = "?c1\<lparr>cn_session := s', cn_world := w', cn_pc := Handled (case out of Stop err \<Rightarrow> Some err | _ \<Rightarrow> None)\<rparr>"
    and ?c3 = "c\<lparr>cn_reader := fr, cn_last_recv := cn_now c, cn_session := s', cn_world := w',
      cn_pc := (case out of Stop err \<Rightarrow> Returned err | _ \<Rightarrow> AtHead)\<rparr>"
  have "readerStep cfg cd e ?c1 = Some ?c2" "readerStep cfg cd e ?c2 = Some ?c3"
    using assms(5,6) by (cases out; cases c; simp add: readerStep_def)+
  then have "conn_step cfg cd ?c1 ?c2" "conn_step cfg cd ?c2 ?c3" using assms(7) by (auto intro: reader)
  with reader_reads [OF assms(1-4)] show ?thesis by (meson rtranclp.rtrancl_into_rtrancl)
qed

text \<open>Undisturbed, the reader leaves its loop with what \<open>readLoop\<close> returns, or stays in the frame that blocks it.\<close>

lemma readLoop_steps:
  assumes "readLoop cfg cd es (cn_reader c) (cn_session c) (cn_world c) = (out, s', w')"
    and "cn_pc c = AtHead" and "cn_ctx c = None" and "cn_open c" and "\<forall>n. e_cancel (es n) = None"
  shows "\<exists>c'. (conn_step cfg cd)\<^sup>*\<^sup>* c c' \<and>
    (case out of Stop err \<Rightarrow> cn_pc c' = Returned err \<and> cn_session c' = s' \<and> cn_world c' = w'
     | _ \<Rightarrow> \<exists>f n. cn_pc c' = Handling f \<and> dispatch cfg cd (es n) f (cn_session c') (cn_world c') = (Blocked, s', w'))"
  using assms
proof (induction "length (st_bytes (fr_stream (cn_reader c)))" arbitrary: es c rule: less_induct)
  case less
  note loop = less.prems(1) [unfolded readLoop.simps [of cfg cd es]]
  consider err where "e_ctx (es 0) = Some err"
    | err fr where "e_ctx (es 0) = None" "FrameReader_ReadFrame (cn_reader c) (se_max_frame (cn_session c)) = (Inl err, fr)"
    | f fr where "e_ctx (es 0) = None" "FrameReader_ReadFrame (cn_reader c) (se_max_frame (cn_session c)) = (Inr f, fr)"
    by (metis option.exhaust old.prod.exhaust sum.exhaust)
  then show ?case
  proof cases
    case (1 err)
    with loop show ?thesis by (intro exI [of _ "c\<lparr>cn_ctx := Some err, cn_pc := Returned (CtxDone err)\<rparr>"] conjI reader_cancelled [OF less.prems(2,3)]) auto
  next
    case (2 err fr)
    with loop reader_fails [OF less.prems(2-4) 2(2), of cfg cd] show ?thesis by (intro exI conjI) auto
  next
    case (3 f fr)
    obtain o1 s1 w1 where d: "dispatch cfg cd (es 0) f (cn_session c) (cn_world c) = (o1, s1, w1)" by (metis prod_cases3)
    note handles = reader_handles [OF less.prems(2-4) 3(2) d _ less.prems(5) [rule_format]]
    show ?thesis
    proof (cases o1)
      case Continue
      let ?c1 = "c\<lparr>cn_reader := fr, cn_last_recv := cn_now c, cn_session := s1, cn_world := w1, cn_pc := AtHead\<rparr>"
      have "(conn_step cfg cd)\<^sup>*\<^sup>* c ?c1" using handles by (simp add: Continue)
      moreover have "length (st_bytes (fr_stream (cn_reader ?c1))) < length (st_bytes (fr_stream (cn_reader c)))"
        using FrameReader_consumes [OF 3(2)] by simp
      from less.hyps [OF this, of "\<lambda>n. es (Suc n)"] obtain c' where "(conn_step cfg cd)\<^sup>*\<^sup>* ?c1 c'"
        "case out of Stop err \<Rightarrow> cn_pc c' = Returned err \<and> cn_session c' = s' \<and> cn_world c' = w'
         | _ \<Rightarrow> \<exists>f n. cn_pc c' = Handling f \<and> dispatch cfg cd (es (Suc n)) f (cn_session c') (cn_world c') = (Blocked, s', w')"
        using loop 3 d Continue less.prems(3-5) by auto
      ultimately show ?thesis by (intro exI [of _ c']) (auto split: outcome.splits intro: rtranclp_trans)
    next
      case (Stop err)
      let ?c1 = "c\<lparr>cn_reader := fr, cn_last_recv := cn_now c, cn_session := s1, cn_world := w1, cn_pc := Returned err\<rparr>"
      have "(conn_step cfg cd)\<^sup>*\<^sup>* c ?c1" using handles by (simp add: Stop)
      with loop 3 d Stop show ?thesis by (intro exI [of _ ?c1]) auto
    next
      case Blocked
      let ?c1 = "c\<lparr>cn_reader := fr, cn_last_recv := cn_now c, cn_processing := cn_processing c + 1, cn_pc := Handling f\<rparr>"
      have "(conn_step cfg cd)\<^sup>*\<^sup>* c ?c1" by (rule reader_reads [OF less.prems(2-4) 3(2)])
      with loop 3 d Blocked show ?thesis by (intro exI [of _ ?c1]) auto
    qed
  qed
qed

section \<open>A full window\<close>

definition waits_for_slot :: "config \<Rightarrow> codec \<Rightarrow> frame \<Rightarrow> session \<Rightarrow> bool" where
  "waits_for_slot cfg cd f s \<longleftrightarrow> f_type f = FrameUploadBegin \<and> se_state s = stateRunning
     \<and> length (se_uploads s) = unat (cfg_max_in_flight_uploads cfg)
     \<and> (\<exists>b p. dec_upload_begin cd (f_payload f) = Inr b \<and> canonicalAssetPath (ub_bundle_path b) (ub_path b) = Inr p)"

lemma dispatch_waits:
  assumes "session_run cfg cd tr s" and "waits_for_slot cfg cd f s"
  shows "dispatch cfg cd e f s w = (case e_cancel e of None \<Rightarrow> (Blocked, s, w) | Some err \<Rightarrow> (Stop (CtxDone err), s, w))"
proof -
  have st: "se_state s = stateRunning" using assms(2) by (simp add: waits_for_slot_def)
  then have "active_ok cfg s" using session_run_inv [OF assms(1)] session_inv_active by blast
  then have "\<not> semFree cfg (s\<lparr>se_state := stateRunning\<rparr>)"
    using assms(2) by (simp add: active_ok_def semFree_def waits_for_slot_def)
  then have "dispatch cfg cd e f s w = (case e_cancel e of None \<Rightarrow> (Blocked, s\<lparr>se_state := stateRunning\<rparr>, w)
      | Some err \<Rightarrow> (Stop (CtxDone err), s\<lparr>se_state := stateRunning\<rparr>, w))"
    using assms(2) by (auto simp: waits_for_slot_def dispatch_def handleUploadBegin_def FrameUploadBegin_def FrameHello_def FrameCheckBatch_def
        split: option.split)
  moreover have "s\<lparr>se_state := stateRunning\<rparr> = s" using st by (cases s) simp
  ultimately show ?thesis by (simp only:)
qed

text \<open>What a connection whose reader waits in state c can become.\<close>

definition still_waiting :: "frame \<Rightarrow> conn \<Rightarrow> conn \<Rightarrow> bool" where
  "still_waiting f c c' \<longleftrightarrow> cn_pc c' = Handling f \<and> cn_session c' = cn_session c \<and> cn_open c' = cn_open c"

definition given_up :: "conn \<Rightarrow> bool" where
  "given_up c \<longleftrightarrow> (\<exists>err. cn_ctx c = Some err \<and> (cn_pc c = Handled (Some (CtxDone err)) \<or> cn_pc c = Returned (CtxDone err)))"

lemma waiting_reader:
  assumes "conn_inv cfg cd c'" and "waits_for_slot cfg cd f (cn_session c)" and "still_waiting f c c'"
  shows "readerStep cfg cd e c' = (case e_cancel e of None \<Rightarrow> None | Some err \<Rightarrow> Some (c'\<lparr>cn_pc := Handled (Some (CtxDone err))\<rparr>))"
proof -
  obtain tr where "session_run cfg cd tr (cn_session c)"
    using assms(1,3) by (auto simp: conn_inv_def still_waiting_def going_on_def)
  from dispatch_waits [OF this assms(2)] assms(3) show ?thesis
    by (auto simp: readerStep_def still_waiting_def split: option.split)
qed

lemma waiting_step:
  assumes "conn_step cfg cd c1 c2" and "conn_inv cfg cd c1" and "waits_for_slot cfg cd f (cn_session c)" and "still_waiting f c c1"
  shows "still_waiting f c c2 \<or> given_up c2"
  using assms(1)
proof cases
  case (reader e)
  then show ?thesis
    using waiting_reader [OF assms(2-4), of e] assms(4) by (auto simp: given_up_def split: option.splits)
next
  case (tick e)
  have "cn_processing c1 = 1" using assms(2,4) by (simp add: conn_inv_def still_waiting_def in_handler_def)
  with tick assms(4) show ?thesis by (simp add: still_waiting_def heartbeatOnTick_frame)
qed (use assms(4) in \<open>auto simp: still_waiting_def\<close>)

lemma given_up_step:
  assumes "conn_step cfg cd c1 c2" and "given_up c1"
  shows "given_up c2"
  using assms(1)
proof cases
  case (reader e)
  then show ?thesis using assms(2) by (auto simp: given_up_def readerStep_def)
qed (use assms(2) in \<open>auto simp: given_up_def heartbeatOnTick_frame\<close>)

section \<open>Properties\<close>

text \<open>C20: The upload window and the watchdog. When the reader handles a well-formed UPLOAD_BEGIN while the window is full, it waits for a slot that only
  later frames of the same connection could free. Whatever happens from there on (ticks of the watchdog however long the peer has been
  silent, other connections, time), the reader stays in that frame with its session unchanged, the counter \<open>processing\<close> stays at one and
  the watchdog does not close the connection, until the server cancels the context; then the reader can leave the loop, and that
  is the only way out.\<close>

theorem window_full_blocks:
  assumes "(conn_step cfg cd)\<^sup>*\<^sup>* (conn_start cfg input w now) c" and "cn_pc c = Handling f"
    and "se_state (cn_session c) = stateRunning"
    and "length (se_uploads (cn_session c)) = unat (cfg_max_in_flight_uploads cfg)"
    and "f_type f = FrameUploadBegin" and "dec_upload_begin cd (f_payload f) = Inr b"
    and "canonicalAssetPath (ub_bundle_path b) (ub_path b) = Inr p"
    and "(conn_step cfg cd)\<^sup>*\<^sup>* c c'"
  shows "(cn_ctx c' = None \<longrightarrow> cn_pc c' = Handling f \<and> cn_session c' = cn_session c \<and> cn_processing c' = 1 \<and> cn_open c' = cn_open c)
    \<and> (\<forall>err. cn_ctx c' = Some err \<longrightarrow>
         cn_pc c' = Handled (Some (CtxDone err)) \<or> cn_pc c' = Returned (CtxDone err)
         \<or> (cn_pc c' = Handling f \<and> cn_open c' = cn_open c \<and> (\<exists>c''. conn_step cfg cd c' c'' \<and> cn_pc c'' = Handled (Some (CtxDone err)))))"
proof -
  have w: "waits_for_slot cfg cd f (cn_session c)" using assms(3-7) by (auto simp: waits_for_slot_def)
  have "conn_inv cfg cd c' \<and> (still_waiting f c c' \<or> given_up c')"
    using assms(8)
  proof (induction rule: rtranclp_induct)
    case base
    then show ?case using conn_reach_inv [OF assms(1)] assms(2) by (simp add: still_waiting_def)
  next
    case (step y z)
    then show ?case using conn_step_inv waiting_step [OF _ _ w] given_up_step by blast
  qed
  then show ?thesis
  proof (elim conjE disjE)
    assume inv: "conn_inv cfg cd c'" and wait: "still_waiting f c c'"
    have "\<exists>c''. conn_step cfg cd c' c'' \<and> cn_pc c'' = Handled (Some (CtxDone err))" if "cn_ctx c' = Some err" for err
    proof -
      let ?e = "demo_env\<lparr>e_cancel := Some err\<rparr>" and ?c = "c'\<lparr>cn_pc := Handled (Some (CtxDone err))\<rparr>"
      have "readerStep cfg cd ?e c' = Some ?c" using waiting_reader [OF inv w wait, of ?e] by simp
      then have "conn_step cfg cd c' ?c" by (rule reader) (simp add: that)
      then show ?thesis by (intro exI [of _ ?c]) simp
    qed
    with inv wait show ?thesis by (auto simp: still_waiting_def conn_inv_def in_handler_def)
  qed (auto simp: given_up_def)
qed

text \<open>The reader of the sample server, whose window is one, given a second UPLOAD_BEGIN; ten hours later the watchdog looks.\<close>

fun readerRun :: "config \<Rightarrow> codec \<Rightarrow> env \<Rightarrow> nat \<Rightarrow> conn \<Rightarrow> conn option" where
  "readerRun cfg cd e 0 c = Some c"
| "readerRun cfg cd e (Suc n) c = (case readerStep cfg cd e c of None \<Rightarrow> None | Some c' \<Rightarrow> readerRun cfg cd e n c')"

lemma readerRun_reach:
  "readerRun cfg cd e n c = Some c' \<Longrightarrow> e_cancel e = None \<Longrightarrow> (conn_step cfg cd)\<^sup>*\<^sup>* c c'"
  by (induction cfg cd e n c rule: readerRun.induct)
    (auto split: option.splits intro: converse_rtranclp_into_rtranclp reader)

definition demo_flood :: stream where
  "demo_flood = \<lparr>st_bytes = [0, 0, 0, 1, FrameHello, 0, 0, 0, 1, FrameUploadBegin, 0, 0, 0, 2, FrameUploadBegin, 1], st_end = EOF\<rparr>"

theorem window_full_blocks_witness:
  "\<exists>c. (conn_step demo_cfg demo_codec)\<^sup>*\<^sup>* (conn_start demo_cfg demo_flood demo_world 0) c \<and> cn_watching c
     \<and> (let c' = heartbeatOnTick demo_codec demo_env (c\<lparr>cn_now := cn_now c + 36000 * second\<rparr>)
        in cn_now c' - cn_last_recv c' > 60 * second \<and> cn_open c' \<and> cn_processing c' = 1
           \<and> cn_pc c' = Handling \<lparr>f_type = FrameUploadBegin, f_payload = [1]\<rparr>)"
proof -
  let ?f = "\<lparr>f_type = FrameUploadBegin, f_payload = [1]\<rparr>" and ?b = "demo_begin\<lparr>ub_stream_id := 2\<rparr>"
  have "(case readerRun demo_cfg demo_codec demo_env 16 (conn_start demo_cfg demo_flood demo_world 0) of None \<Rightarrow> False
     | Some c \<Rightarrow> cn_pc c = Handling ?f \<and> se_state (cn_session c) = stateRunning \<and> length (se_uploads (cn_session c)) = 1
         \<and> cn_open c \<and> cn_watching c \<and> cn_ctx c = None \<and> cn_now c = 0 \<and> cn_last_recv c = 0)"
    by code_simp
  then obtain c where c: "readerRun demo_cfg demo_codec demo_env 16 (conn_start demo_cfg demo_flood demo_world 0) = Some c"
      "cn_pc c = Handling ?f" "se_state (cn_session c) = stateRunning" "length (se_uploads (cn_session c)) = 1"
      "cn_open c" "cn_watching c" "cn_ctx c = None" "cn_now c = 0" "cn_last_recv c = 0"
    by (auto split: option.splits)
  let ?c1 = "c\<lparr>cn_now := cn_now c + 36000 * second\<rparr>"
  let ?c2 = "heartbeatOnTick demo_codec demo_env ?c1"
  have run: "(conn_step demo_cfg demo_codec)\<^sup>*\<^sup>* (conn_start demo_cfg demo_flood demo_world 0) c"
    by (rule readerRun_reach [OF c(1)]) (simp add: demo_env_def)
  have "conn_step demo_cfg demo_codec c ?c1" by (rule time) (simp add: second_def)
  moreover have "conn_step demo_cfg demo_codec ?c1 ?c2" by (rule tick) (simp add: c(6))
  ultimately have later: "(conn_step demo_cfg demo_codec)\<^sup>*\<^sup>* c ?c2" by auto
  have pre: "length (se_uploads (cn_session c)) = unat (cfg_max_in_flight_uploads demo_cfg)" "f_type ?f = FrameUploadBegin"
      "dec_upload_begin demo_codec (f_payload ?f) = Inr ?b" "canonicalAssetPath (ub_bundle_path ?b) (ub_path ?b) = Inr ''ev/a.webp''"
    by (simp_all add: c(4) demo_cfg_def demo_codec_def demo_begin_def demo_path)
  have tk: "cn_ctx ?c2 = None" by (simp add: heartbeatOnTick_frame c(7))
  have "cn_now ?c2 = 36000 * second \<and> cn_last_recv ?c2 = 0"
    using c(8,9) by (auto simp: heartbeatOnTick_def split: tick_action.split prod.split option.split)
  then have "cn_now ?c2 - cn_last_recv ?c2 > 60 * second" by (simp add: second_def)
  with window_full_blocks [OF run c(2,3) pre later] tk c(5,6) run show ?thesis
    by (intro exI [of _ c]) (simp add: Let_def)
qed

end
