(* ===== verification/Spec2Isabelle.thy ===== *)
theory Spec2Isabelle
  imports Gateway BundlesApi VersionsApi SnapshotIndex FrameWriter Migration Startup Lifecycle Metrics Publish Watchdog
begin

text \<open>
  \<^bold>\<open>A verification of the asset gateway.\<close>

  The program under \<^verbatim>\<open>src/\<close> is one Go process. Updaters connect to its ingest port and speak HIP/1, a framed binary protocol: they ask which
  bundles are needed (CHECK), upload files in chunks (UPLOAD) and publish a version (COMMIT). File contents go to a SeaweedFS filer over
  HTTP, metadata to SQLite. The public read port serves the files by path, per game region, and lists them as directories, bundles and
  version diffs. A path has a shared baseline and, per region, possibly an override; the newest row of a region's path decides.

  \<^bold>\<open>Theories and code.\<close> Names of definitions are those of the Go functions, with a prefix or suffix where HOL has the name already.

  \<^item> Prelude: results (\<^verbatim>\<open>error + value\<close>, \<open>bindR\<close>), faults of SQL statements (\<open>sqlfault\<close>, statements counted from 0 in the order of the code),
    SQL tables with unique keys and upserts (locales \<open>upsert_table\<close>, \<open>replace_table\<close>), Go maps as association lists. GoStrings: the
    functions of \<^verbatim>\<open>strings\<close>, \<^verbatim>\<open>path\<close>, \<^verbatim>\<open>strconv\<close> and \<^verbatim>\<open>unicode/utf8\<close> the code uses, on byte strings.
  \<^item> Keys: \<^verbatim>\<open>storage/keys.go\<close> and \<open>canonicalAssetPath\<close> of \<^verbatim>\<open>session.go\<close>. The path check is characterised exactly, and the keys of the three storage
    areas determine area and path.
  \<^item> Wire, Messages: \<^verbatim>\<open>hipproto/frame.go\<close>, \<^verbatim>\<open>chunk.go\<close>, \<^verbatim>\<open>messages.go\<close>. Frames are read back as written, reading is bounded, every refusal has its
    cause, and the reused buffer makes no difference.
  \<^item> FrameWriter: \<^verbatim>\<open>hipserver/writer.go\<close> as a step relation over senders, writer loop and \<open>Close\<close>; every interleaving refines the sequential writer.
  \<^item> Schema, AssetStore, ReadPath: \<^verbatim>\<open>store/schema.go\<close>, \<^verbatim>\<open>assets.go\<close>, \<^verbatim>\<open>bundles.go\<close>, \<^verbatim>\<open>versions.go\<close>, \<^verbatim>\<open>readpath.go\<close> and the aggregates of
    \<^verbatim>\<open>bundlebrowse.go\<close>. The record \<open>db\<close> is the tables; \<open>index_ok\<close> and \<open>bundles_ok\<close> say that the materialised tables are what the asset
    history means. The rebuild establishes them, the incremental maintenance of a commit keeps them, and a lookup answers from them by the
    placement policy.
  \<^item> Migration: \<^verbatim>\<open>store/db.go\<close> with the statements of the schema, on the catalogue of the database file; scripts are checked like typed programs.
  \<^item> Session, SessionInv, SessionEnd, SessionSafety, Commit: \<^verbatim>\<open>hipserver/session.go\<close>, \<^verbatim>\<open>upload.go\<close> and \<open>New\<close> of \<^verbatim>\<open>server.go\<close>. A session is a record, a handler maps
    configuration, message codec, environment, session and world (database, sent frames, storage calls, invalidations, metrics) to
    an outcome and their new values; \<open>dispatch\<close>, \<open>readLoop\<close> and \<open>runSession\<close> compose them as the code does. Shown are the session
    invariant, what a whole connection with its last frame and its cleanup can change, the handshake gate, the integrity of uploads, that
    every connection ends and what its cleanup deletes, that a commit is atomic, succeeds without faults and reports every path whose answer it
    changes. Requests to the object store are logged when they are made; a DELETE goes out only while the context of the session is alive.
  \<^item> Watchdog: the reader and the heartbeat goroutine of a connection, statement by statement, with the counter and the clock they share; a
    full upload window stops the reader for good, and the watchdog lets it.
  \<^item> LookupCache: \<^verbatim>\<open>httpapi/lookup_cache.go\<close>, list and map together, refining a bounded LRU list. Http, StorageClient, Proxy: the parts of
    \<^verbatim>\<open>net/http\<close> and \<^verbatim>\<open>net/url\<close> in use, \<^verbatim>\<open>storage/client.go\<close>, \<^verbatim>\<open>httpapi/proxy.go\<close>. Router: \<^verbatim>\<open>router.go\<close>, \<^verbatim>\<open>cors.go\<close>, \<^verbatim>\<open>ratelimit.go\<close>.
  \<^item> Gateway: sessions, cache and proxy together. Serialised, they never serve a stale placement; interleaved access by access, every
    answer was right at some moment of the run, and a commit between the lookup and the fill of a request leaves a stale entry behind.
  \<^item> Publish: ingest, object store and proxy end to end, over a replay of the storage requests. A file that was uploaded and committed is served
    with its bytes; and an upload can replace an object that is being served.
  \<^item> Browse, BundleBrowse, VersionDiff: the listings of \<^verbatim>\<open>readpath.go\<close>, \<^verbatim>\<open>bundlebrowse.go\<close> and \<^verbatim>\<open>versiondiff.go\<close>. The seek loop equals the sorted list of
    children, pages neither lose nor repeat an entry, a walk along the cursors ends and is complete.
  \<^item> Json, ApiCore, BrowserApi, BundlesApi, VersionsApi: the JSON handlers \<^verbatim>\<open>httpapi/browser.go\<close>, \<^verbatim>\<open>bundles.go\<close>, \<^verbatim>\<open>versions.go\<close>. The limit and cache methods
    are the same text in the three handlers and are defined once, in ApiCore; its locales \<open>cached_endpoint\<close> and \<open>keyed_endpoint\<close> give, for
    an endpoint whose cache key determines its parameters, that an answer is never older than the time to live. Cursors, type filters and
    listed URLs are shown to be what the next request expects.
  \<^item> SnapshotIndex: \<^verbatim>\<open>index/index.go\<close>, equivalent to the SQL lookup after a rebuild. Metrics: \<^verbatim>\<open>metrics/metrics.go\<close> and its hooks; totals are exact.
  \<^item> EnvConfig, Startup, Lifecycle: \<^verbatim>\<open>config/config.go\<close>, \<^verbatim>\<open>cmd/gateway/main.go\<close> and \<open>ListenAndServe\<close> of \<^verbatim>\<open>server.go\<close>. Which environments start, that the
    components agree on limits and regions, and what the run loop guarantees when the process stops.

  \<^bold>\<open>Parameters.\<close> Code outside the repository appears as arguments: the msgpack codec with SHA-256 (\<open>codec\<close>), failures of SQL statements, the HTTP
  transport to the filer (\<open>transport\<close>), the token bucket of the rate limiter, the MIME table, Unicode lower-casing beyond ASCII, parsing of
  floating-point numbers, clocks, random session ids and the iteration order of Go maps. Where a property needs something of them it is a
  hypothesis of the theorem, and its witness instantiates it.

  \<^bold>\<open>Integers, loops.\<close> Sizes on the wire and counters are machine words; row ids, sizes and times in the database are mathematical integers, and
  where the code converts between the two the conversion is written out. Loops are recursive functions with termination proofs; the read
  loop of a session recurses on the input that is left, which every frame shortens, and takes its environments from an infinite sequence. No
  definition uses fuel; the walk of a client along the cursors of a version diff is an inductive relation, shown to have an end.

  \<^bold>\<open>Concurrency.\<close> A method under a mutex, a SQL transaction and an atomic operation are one step. Interleavings are explicit in FrameWriter (writer
  goroutine), Watchdog (reader and heartbeat of a connection), Gateway (requests and frames, whole and access by access; the statements of one
  lookup are one access) and Lifecycle (goroutines of the process); the PUT goroutine of an upload appears in the log as its start and its result. The
  model of start-up ends where the listeners are opened, so that addresses and TLS files are not checked by it.

  \<^bold>\<open>Not modelled.\<close> Log output; the network, TLS and HTTP server loop below the handlers, with their time-outs; the body of the redirect that
  \<^verbatim>\<open>http.ServeMux\<close> writes for an unclean path; the connection pool and pragmas of SQLite; the query plans that indexes give. These have no
  influence on the values the modelled functions compute.
\<close>

end
